(* ===== verification/Prelude.thy ===== *)
theory Prelude
  imports Complex_Main "HOL-Library.Word" "HOL-Library.AList"
    "HOL-Library.List_Lexorder" "HOL-Library.Char_ord"
begin

text \<open>
  The shared vocabulary of the development: Go's machine integers and maps, the
  event-driven transition systems the concurrent components are modelled as, and the
  generic list lemmas the component proofs use.

  \<^item> \<open>int64\<close> and \<open>duration\<close> are 64-bit words read with \<open>sint\<close>, so the arithmetic
    of the source wraps where it wraps.
  \<^item> A Go \<open>map[string]T\<close> is an association list read through \<open>map_of\<close>;
    \<open>sorted_keys\<close> is the collect-and-\<open>sort.Strings\<close> idiom of the source. Strings
    are byte lists and compare lexicographically by byte, as Go's do.
  \<^item> \<open>transition_system\<close> is the interface of a component with interleaved steps: an
    initial-state predicate, a partial step function driven by events, and an invariant.
\<close>

named_theorems node_simps \<open>unfolding rules of the node package\<close>
named_theorems compiler_simps \<open>frame and effect rules of the compiler phases\<close>
named_theorems sched_simps \<open>frame and effect rules of the scheduler operations\<close>
named_theorems daemon_simps \<open>frame and effect rules of the daemon operations\<close>

section \<open>Machine integers\<close>

type_synonym int64 = "64 word"
type_synonym duration = int64

section \<open>Go maps\<close>

type_synonym 'v gomap = "(string \<times> 'v) list"

definition sorted_keys :: "'v gomap \<Rightarrow> string list" where
  "sorted_keys m = sort (remdups (map fst m))"

definition put :: "string \<Rightarrow> 'v \<Rightarrow> 'v gomap \<Rightarrow> 'v gomap" where
  "put k v m = AList.update k v m"

lemma set_sorted_keys [simp]: "set (sorted_keys m) = dom (map_of m)"
  by (simp add: sorted_keys_def dom_map_of_conv_image_fst)

lemma distinct_sorted_keys [simp]: "distinct (sorted_keys m)"
  by (simp add: sorted_keys_def)

lemma sorted_sorted_keys [simp]: "sorted (sorted_keys m)"
  by (simp add: sorted_keys_def)

lemma sorted_keys_nth_Some:
  "i < length (sorted_keys m) \<Longrightarrow> \<exists>v. map_of m (sorted_keys m ! i) = Some v"
  using nth_mem [of i "sorted_keys m"] by auto

lemma sorted_keys_cong: "dom (map_of m) = dom (map_of m') \<Longrightarrow> sorted_keys m = sorted_keys m'"
  by (rule sorted_distinct_set_unique) simp_all

lemma map_of_put [simp]: "map_of (put k v m) = (map_of m)(k \<mapsto> v)"
  by (simp add: put_def update_conv')

section \<open>Folds that only append to a log\<close>

text \<open>
  Many phases of the compiler are loops that leave the state alone except for appending to
  a list. These lemmas read the result of such a loop off its body.
\<close>

lemma fold_append_log:
  assumes "\<And>x s. lg (f x s) = lg s @ g x"
  shows "lg (fold f xs s) = lg s @ concat (map g xs)"
  by (induction xs arbitrary: s) (simp_all add: assms)

lemma fold_frame:
  assumes "\<And>x s. fld (f x s) = fld s"
  shows "fld (fold f xs s) = fld s"
  by (induction xs arbitrary: s) (simp_all add: assms)

lemma fold_invariant:
  assumes "P s" and "\<And>x s. x \<in> set xs \<Longrightarrow> P s \<Longrightarrow> P (f x s)"
  shows "P (fold f xs s)"
  using assms by (induction xs arbitrary: s) auto

lemma concat_map_nil_iff: "concat (map g xs) = [] \<longleftrightarrow> (\<forall>x\<in>set xs. g x = [])"
  by (induction xs) auto

section \<open>Counting\<close>

lemma length_filter_update:
  "i < length xs \<Longrightarrow>
   length (filter P (xs[i := y])) + (if P (xs ! i) then 1 else 0) =
   length (filter P xs) + (if P y then 1 else 0)"
proof (induction xs arbitrary: i)
  case Nil
  then show ?case by simp
next
  case (Cons x xs)
  then show ?case by (cases i) auto
qed

lemma map_update_same [simp]: "(map f xs)[i := f (xs ! i)] = map f xs"
  by (metis list_update_id map_update)

lemma count_list_le_length: "count_list xs x \<le> length xs"
  by (rule count_le_length)

lemma distinct_length_le:
  "distinct xs \<Longrightarrow> set xs \<subseteq> {..<n} \<Longrightarrow> length xs \<le> n"
  using card_mono [of "{..<n}" "set xs"] by (simp add: distinct_card)

section \<open>Event-driven transition systems\<close>

text \<open>
  \<open>step e s = None\<close> means the event \<open>e\<close> is not enabled in \<open>s\<close>. \<open>run_events\<close> executes a
  concrete sequence of events, and \<open>reachable\<close> closes the initial states under all of them.
\<close>

fun run_events :: "('e \<Rightarrow> 's \<Rightarrow> 's option) \<Rightarrow> 'e list \<Rightarrow> 's \<Rightarrow> 's option" where
  "run_events step [] s = Some s"
| "run_events step (e # es) s =
     (case step e s of None \<Rightarrow> None | Some t \<Rightarrow> run_events step es t)"

inductive reachable :: "('s \<Rightarrow> bool) \<Rightarrow> ('e \<Rightarrow> 's \<Rightarrow> 's option) \<Rightarrow> 's \<Rightarrow> bool"
  for init :: "'s \<Rightarrow> bool" and step :: "'e \<Rightarrow> 's \<Rightarrow> 's option" where
  reachable_init: "init s \<Longrightarrow> reachable init step s"
| reachable_step: "reachable init step s \<Longrightarrow> step e s = Some t \<Longrightarrow> reachable init step t"

lemma run_events_append:
  "run_events step (xs @ ys) s = (case run_events step xs s of None \<Rightarrow> None | Some t \<Rightarrow> run_events step ys t)"
  by (induction xs arbitrary: s) (auto split: option.splits)

lemma run_events_reachable:
  "reachable init step s \<Longrightarrow> run_events step es s = Some t \<Longrightarrow> reachable init step t"
proof (induction es arbitrary: s)
  case Nil
  then show ?case by simp
next
  case (Cons e es)
  then obtain u where u: "step e s = Some u" "run_events step es u = Some t"
    by (auto split: option.splits)
  with Cons.prems(1) have "reachable init step u" by (blast intro: reachable_step)
  with u(2) show ?case by (rule Cons.IH [rotated])
qed

locale transition_system =
  fixes init :: "'s \<Rightarrow> bool"
    and step :: "'e \<Rightarrow> 's \<Rightarrow> 's option"
    and inv :: "'s \<Rightarrow> bool"
  assumes inv_init: "init s \<Longrightarrow> inv s"
    and inv_step: "inv s \<Longrightarrow> step e s = Some t \<Longrightarrow> inv t"
begin

lemma reachable_inv: "reachable init step s \<Longrightarrow> inv s"
proof (induction rule: reachable.induct)
  case (reachable_init s)
  then show ?case by (rule inv_init)
next
  case (reachable_step s e t)
  then show ?case by (blast intro: inv_step)
qed

lemma run_events_inv: "inv s \<Longrightarrow> run_events step es s = Some t \<Longrightarrow> inv t"
  by (induction es arbitrary: s) (auto split: option.splits dest: inv_step)

end

text \<open>
  A system whose events also decrease a measure stops: no run is longer than the measure
  of its first state.
\<close>

locale terminating_system = transition_system +
  fixes rank :: "'a \<Rightarrow> nat" and counted :: "'b \<Rightarrow> bool"
  assumes rank_step: "inv s \<Longrightarrow> step e s = Some t \<Longrightarrow>
    rank t + (if counted e then 1 else 0) \<le> rank s"
begin

lemma run_length_bounded:
  "inv s \<Longrightarrow> run_events step es s = Some t \<Longrightarrow> length (filter counted es) + rank t \<le> rank s"
proof (induction es arbitrary: s)
  case Nil
  then show ?case by simp
next
  case (Cons e es)
  then obtain u where u: "step e s = Some u" "run_events step es u = Some t"
    by (auto split: option.splits)
  with Cons.prems(1) have "inv u" by (blast intro: inv_step)
  then have "length (filter counted es) + rank t \<le> rank u" using u(2) by (rule Cons.IH)
  with rank_step [OF Cons.prems(1) u(1)] show ?case by (auto split: if_splits)
qed

end

end
