(* ===== verification/Go_Types.thy ===== *)
theory Go_Types
  imports Prelude
begin

text \<open>
  The values that travel along edges and their type identities: the Go types a port can
  have and the \<open>TypeID\<close> table of \<^verbatim>\<open>internal/node/types.go\<close>, and the domain structs of
  \<^verbatim>\<open>internal/nodes/types/types.go\<close>.

  A value of interface type is a \<open>payload\<close>: one constructor per domain pointer type, and
  \<open>PForeign\<close> for a value of any other Go type (an embedder's own struct, or a nil pointer),
  of which only the dynamic type and an identity matter to the engine. The process-wide
  registration maps are an explicit \<open>type_table\<close>; \<open>RegisterType\<close> panics as an \<open>Inl\<close>.
\<close>

section \<open>Go types and their TypeIDs\<close>

type_synonym bytes = string
type_synonym TypeID = string

text \<open>
  What \<open>reflect\<close> shows of a type: a defined type has a package path, a name and an
  underlying type, whose kind it inherits; \<open>GoBasic\<close> is a predeclared type and \<open>GoLit\<close>
  any other type literal (a map, a channel, a function, an array, an anonymous struct),
  known by its \<open>String\<close> rendering, which uses short package names.
\<close>

datatype gotype =
    GoBasic string
  | GoPointer gotype
  | GoSlice gotype
  | GoDefined string string gotype
  | GoLit string

text \<open>
  \<open>canonicalName\<close> switches on the kind first, and a defined type whose underlying type is a
  pointer or a slice has that kind, so its element type is named and its own name is not.
\<close>

fun canonicalName :: "gotype \<Rightarrow> string" where
  "canonicalName (GoPointer t) = ''*'' @ canonicalName t"
| "canonicalName (GoSlice t) = ''[]'' @ canonicalName t"
| "canonicalName (GoDefined path nm (GoPointer t)) = ''*'' @ canonicalName t"
| "canonicalName (GoDefined path nm (GoSlice t)) = ''[]'' @ canonicalName t"
| "canonicalName (GoDefined path nm u) = (if path \<noteq> '''' then path @ ''.'' @ nm else nm)"
| "canonicalName (GoBasic nm) = nm"
| "canonicalName (GoLit s) = s"

record type_table =
  byType :: "(gotype \<times> TypeID) list"
  byID :: "(TypeID \<times> gotype) list"

definition empty_types :: type_table where
  "empty_types = \<lparr>byType = [], byID = []\<rparr>"

datatype type_panic =
    AlreadyRegisteredAs gotype TypeID TypeID
  | NameTaken TypeID gotype gotype

definition RegisterType :: "gotype \<Rightarrow> string \<Rightarrow> type_table \<Rightarrow> type_panic + (type_table \<times> TypeID)" where
  "RegisterType t name tt =
     (let named = (case map_of (byType tt) t of
                     Some existing \<Rightarrow> if existing \<noteq> name then Some (AlreadyRegisteredAs t existing name) else None
                   | None \<Rightarrow> None);
          taken = (case map_of (byID tt) name of
                     Some existing \<Rightarrow> if existing \<noteq> t then Some (NameTaken name existing t) else None
                   | None \<Rightarrow> None)
      in case named of
           Some p \<Rightarrow> Inl p
         | None \<Rightarrow>
             (case taken of
                Some p \<Rightarrow> Inl p
              | None \<Rightarrow> Inr (tt\<lparr>byType := AList.update t name (byType tt),
                                  byID := AList.update name t (byID tt)\<rparr>, name)))"

definition TypeOf :: "type_table \<Rightarrow> gotype \<Rightarrow> TypeID" where
  "TypeOf tt t = (case map_of (byType tt) t of Some i \<Rightarrow> i | None \<Rightarrow> canonicalName t)"

definition LookupType :: "type_table \<Rightarrow> TypeID \<Rightarrow> gotype option" where
  "LookupType tt i = map_of (byID tt) i"

fun register_all :: "(gotype \<times> string) list \<Rightarrow> type_table \<Rightarrow> type_panic + type_table" where
  "register_all [] tt = Inr tt"
| "register_all ((t, name) # rest) tt =
     (case RegisterType t name tt of Inl p \<Rightarrow> Inl p | Inr (tt', _) \<Rightarrow> register_all rest tt')"

section \<open>The domain types\<close>

text \<open>
  A \<open>float64\<close> is a rational, an infinity or NaN (the sign of zero, which nothing in the
  source observes, is not kept).
\<close>

datatype float64 = Fin rat | PosInf | NegInf | NaN

text \<open>
  A decoded document or literal, Go's \<open>any\<close> as \<open>encoding/json\<close> and the YAML library
  produce it; \<open>AnyOther\<close> is a value of a type neither node code branch names.
\<close>

datatype any =
    AnyNil
  | AnyBool bool
  | AnyFloat64 float64
  | AnyInt int64
  | AnyInt64 int64
  | AnyUint64 int64
  | AnyString string
  | AnySlice "any list"
  | AnyMap "(string \<times> any) list"
  | AnyOther string

datatype CheckedURL = CheckedURL (url_value: string)

record Request =
  rq_Method :: string
  rq_URL :: CheckedURL
  rq_Headers :: "string gomap"
  rq_Body :: bytes

record Response =
  rs_Status :: int64
  rs_Headers :: "string list gomap"
  rs_Body :: bytes

record Command =
  cm_Name :: string
  cm_Args :: "string list"
  cm_Dir :: string
  cm_Timeout :: duration

record CommandResult =
  cr_ExitCode :: int64
  cr_Stdout :: bytes
  cr_Stderr :: bytes

text \<open>An instant is the number of nanoseconds since an epoch.\<close>

type_synonym instant = int

datatype payload =
    PBytes bytes
  | PText string
  | PBool bool
  | PInt int64
  | PTime instant
  | PDocument any
  | PRequest Request
  | PResponse Response
  | PCommand Command
  | PCommandResult CommandResult
  | PForeign gotype nat

definition types_struct :: "string \<Rightarrow> gotype" where
  "types_struct nm = GoPointer (GoDefined ''github.com/arhuman/p6e/internal/nodes/types'' nm (GoLit ''struct''))"

abbreviation tBytes :: gotype where "tBytes \<equiv> types_struct ''Bytes''"
abbreviation tText :: gotype where "tText \<equiv> types_struct ''Text''"
abbreviation tBool :: gotype where "tBool \<equiv> types_struct ''Bool''"
abbreviation tInt :: gotype where "tInt \<equiv> types_struct ''Int''"
abbreviation tTime :: gotype where "tTime \<equiv> types_struct ''Time''"
abbreviation tDocument :: gotype where "tDocument \<equiv> types_struct ''Document''"
abbreviation tRequest :: gotype where "tRequest \<equiv> types_struct ''Request''"
abbreviation tResponse :: gotype where "tResponse \<equiv> types_struct ''Response''"
abbreviation tCommand :: gotype where "tCommand \<equiv> types_struct ''Command''"
abbreviation tCommandResult :: gotype where "tCommandResult \<equiv> types_struct ''CommandResult''"

text \<open>The dynamic type a type assertion \<open>ref.(T)\<close> compares with.\<close>

fun dyn_type :: "payload \<Rightarrow> gotype" where
  "dyn_type (PBytes _) = tBytes"
| "dyn_type (PText _) = tText"
| "dyn_type (PBool _) = tBool"
| "dyn_type (PInt _) = tInt"
| "dyn_type (PTime _) = tTime"
| "dyn_type (PDocument _) = tDocument"
| "dyn_type (PRequest _) = tRequest"
| "dyn_type (PResponse _) = tResponse"
| "dyn_type (PCommand _) = tCommand"
| "dyn_type (PCommandResult _) = tCommandResult"
| "dyn_type (PForeign t _) = t"

definition domain_types :: "(gotype \<times> string) list" where
  "domain_types =
     [(tBytes, ''Bytes''), (tText, ''Text''), (tBool, ''Bool''), (tInt, ''Int''),
      (tTime, ''Time''), (tDocument, ''JSONDocument''), (tRequest, ''HTTPRequest''),
      (tResponse, ''HTTPResponse''), (tCommand, ''Command''),
      (tCommandResult, ''CommandResult'')]"

text \<open>
  A \<open>PForeign\<close> payload of one of the domain pointer types can only be a nil pointer: it is
  the one payload a node may not put on an edge, since every consumer dereferences.
\<close>

fun proper :: "payload \<Rightarrow> bool" where
  "proper (PForeign t _) = (t \<notin> fst ` set domain_types)"
| "proper _ = True"

section \<open>The registration maps stay inverse to each other\<close>

definition types_inv :: "type_table \<Rightarrow> bool" where
  "types_inv tt \<longleftrightarrow> (\<forall>t i. map_of (byType tt) t = Some i \<longleftrightarrow> map_of (byID tt) i = Some t)"

definition registered :: "type_table \<Rightarrow> gotype \<Rightarrow> bool" where
  "registered tt t \<longleftrightarrow> map_of (byType tt) t \<noteq> None"

lemma types_invD1: "types_inv tt \<Longrightarrow> map_of (byType tt) t = Some i \<Longrightarrow> map_of (byID tt) i = Some t"
  and types_invD2: "types_inv tt \<Longrightarrow> map_of (byID tt) i = Some t \<Longrightarrow> map_of (byType tt) t = Some i"
  by (simp_all add: types_inv_def)

lemma types_inv_empty: "types_inv empty_types"
  by (simp add: types_inv_def empty_types_def)

lemma RegisterType_cases:
  "RegisterType t name tt = Inr (tt', i) \<Longrightarrow>
   i = name \<and>
   map_of (byType tt') = (map_of (byType tt))(t \<mapsto> name) \<and>
   map_of (byID tt') = (map_of (byID tt))(name \<mapsto> t) \<and>
   (map_of (byType tt) t = None \<or> map_of (byType tt) t = Some name) \<and>
   (map_of (byID tt) name = None \<or> map_of (byID tt) name = Some t)"
  by (auto simp: RegisterType_def Let_def update_conv' split: option.splits if_splits)

lemma RegisterType_types_inv:
  assumes "types_inv tt" and "RegisterType t name tt = Inr (tt', i)"
  shows "types_inv tt'"
proof -
  note c = RegisterType_cases [OF assms(2)]
  have "map_of (byType tt') u = Some j \<longleftrightarrow> map_of (byID tt') j = Some u" for u j
    using c types_invD1 [OF assms(1), of u j] types_invD2 [OF assms(1), of j u]
    by (cases "u = t"; cases "j = name") auto
  then show ?thesis by (simp add: types_inv_def)
qed

lemma register_all_types_inv:
  "types_inv tt \<Longrightarrow> register_all ts tt = Inr tt' \<Longrightarrow> types_inv tt'"
proof (induction ts arbitrary: tt)
  case Nil
  then show ?case by simp
next
  case (Cons e ts)
  obtain t name where e: "e = (t, name)" by (cases e)
  with Cons.prems(2) obtain u i where "RegisterType t name tt = Inr (u, i)" "register_all ts u = Inr tt'"
    by (auto split: sum.splits)
  with Cons show ?case by (blast intro: RegisterType_types_inv)
qed

lemma TypeOf_registered_inj:
  assumes "types_inv tt" "registered tt t" "registered tt u" "TypeOf tt t = TypeOf tt u"
  shows "t = u"
proof -
  from assms(2,3) obtain i j where ij: "map_of (byType tt) t = Some i" "map_of (byType tt) u = Some j"
    by (auto simp: registered_def)
  with assms(4) have "i = j" by (simp add: TypeOf_def)
  with ij assms(1) have "map_of (byID tt) i = Some t" "map_of (byID tt) i = Some u"
    by (auto simp: types_inv_def)
  then show ?thesis by simp
qed

lemma LookupType_TypeOf:
  "types_inv tt \<Longrightarrow> registered tt t \<Longrightarrow> LookupType tt (TypeOf tt t) = Some t"
  by (auto simp: registered_def TypeOf_def LookupType_def dest: types_invD1)

text \<open>The table the package initialisers build: registering the domain types never panics.\<close>

definition domain_table :: type_table where
  "domain_table = (case register_all domain_types empty_types of Inr tt \<Rightarrow> tt | Inl _ \<Rightarrow> empty_types)"

lemma types_struct_inj [simp]: "types_struct a = types_struct b \<longleftrightarrow> a = b"
  by (simp add: types_struct_def)

lemma register_domain_types: "\<exists>tt. register_all domain_types empty_types = Inr tt"
  by (simp add: domain_types_def empty_types_def RegisterType_def)

lemma domain_table_inv: "types_inv domain_table"
  using register_all_types_inv [OF types_inv_empty] by (auto simp: domain_table_def types_inv_empty split: sum.splits)

lemma domain_table_byType: "byType domain_table = domain_types"
  by (simp add: domain_table_def domain_types_def empty_types_def RegisterType_def)

lemma TypeOf_domain [simp]:
  "TypeOf domain_table tBytes = ''Bytes''" "TypeOf domain_table tText = ''Text''"
  "TypeOf domain_table tBool = ''Bool''" "TypeOf domain_table tInt = ''Int''"
  "TypeOf domain_table tTime = ''Time''" "TypeOf domain_table tDocument = ''JSONDocument''"
  "TypeOf domain_table tRequest = ''HTTPRequest''" "TypeOf domain_table tResponse = ''HTTPResponse''"
  "TypeOf domain_table tCommand = ''Command''"
  "TypeOf domain_table tCommandResult = ''CommandResult''"
  by (simp_all add: TypeOf_def domain_table_byType domain_types_def)

text \<open>
  Every table reached from the empty one by successful registrations satisfies the
  invariant, as an instance of the transition-system interface: a panicking registration
  is a disabled event.
\<close>

definition register_step :: "gotype \<times> string \<Rightarrow> type_table \<Rightarrow> type_table option" where
  "register_step e tt = (case RegisterType (fst e) (snd e) tt of Inr (tt', _) \<Rightarrow> Some tt' | Inl _ \<Rightarrow> None)"

interpretation type_tables: transition_system "\<lambda>tt. tt = empty_types" register_step types_inv
  by unfold_locales
    (auto simp: types_inv_empty register_step_def split: sum.splits prod.splits
      dest: RegisterType_types_inv)

end
