(* ===== verification/Node.thy ===== *)
theory Node
  imports Go_Types
begin

text \<open>
  The node package: normalized errors (\<^verbatim>\<open>error.go\<close>), ports and descriptors
  (\<^verbatim>\<open>descriptor.go\<close>), edge values and results (\<^verbatim>\<open>value.go\<close>, \<^verbatim>\<open>result.go\<close>) and the
  adapters that erase a typed Go function into a \<open>RuntimeNode\<close> (\<^verbatim>\<open>node.go\<close>).

  A \<open>RuntimeNode\<close> is its descriptor, its \<open>Execute\<close> function and whether it is wrapped by
  \<open>AsStoppable\<close>. \<open>Execute\<close> takes the part of the world one call observes (a type parameter
  here, since the engine never looks at it) and returns or panics. A \<open>fmt.Sprintf\<close> message
  is kept as its format and arguments.
\<close>

section \<open>Errors\<close>

datatype ErrorKind = KindTransient | KindPermanent | KindInvalidInput | KindCancelled | KindInternal

datatype node_error =
    NodeError (err_Code: string) (err_Kind: ErrorKind) (err_Message: message)
      (err_Retryable: bool) (err_Cause: "go_error option")
  and go_error =
    ENode node_error | ECanceled | EDeadlineExceeded | EFmt message | EWrap message go_error
  and message = Sprintf string "farg list"
  and farg =
    AStr string | AFloat float64 | AQuoted "string list" | AStrs "string list" | AInt int
  | AMsg message | AErr go_error

text \<open>
  A Go \<open>error\<close> is a node error, one of the two context sentinels, a plain \<open>fmt.Errorf\<close>
  (also standing for any library error that wraps nothing), or a wrapping \<open>%w\<close>.
\<close>

definition Errf :: "ErrorKind \<Rightarrow> string \<Rightarrow> string \<Rightarrow> farg list \<Rightarrow> node_error" where
  "Errf kind code format args =
     NodeError code kind (Sprintf format args) (kind = KindTransient) None"

definition Wrap :: "go_error \<Rightarrow> ErrorKind \<Rightarrow> string \<Rightarrow> string \<Rightarrow> farg list \<Rightarrow> node_error" where
  "Wrap err kind code format args =
     (case Errf kind code format args of NodeError c k m r _ \<Rightarrow> NodeError c k m r (Some err))"

fun Unwrap :: "go_error \<Rightarrow> go_error option" where
  "Unwrap (ENode e) = err_Cause e"
| "Unwrap (EWrap _ e) = Some e"
| "Unwrap _ = None"

fun errors_AsNode :: "go_error \<Rightarrow> node_error option" where
  "errors_AsNode (ENode e) = Some e"
| "errors_AsNode (EWrap _ e) = errors_AsNode e"
| "errors_AsNode _ = None"

fun errors_Is :: "go_error \<Rightarrow> go_error \<Rightarrow> bool" where
  "errors_Is (ENode (NodeError c k m r cause)) target =
     (ENode (NodeError c k m r cause) = target \<or>
      (case cause of None \<Rightarrow> False | Some e \<Rightarrow> errors_Is e target))"
| "errors_Is (EWrap m e) target = (EWrap m e = target \<or> errors_Is e target)"
| "errors_Is e target = (e = target)"

definition Normalize :: "go_error option \<Rightarrow> string \<Rightarrow> node_error option" where
  "Normalize err code =
     (case err of
        None \<Rightarrow> None
      | Some e \<Rightarrow>
          (case errors_AsNode e of
             Some ne \<Rightarrow> Some ne
           | None \<Rightarrow>
               if errors_Is e ECanceled
               then Some (Wrap e KindCancelled ''cancelled'' ''execution cancelled'' [])
               else if errors_Is e EDeadlineExceeded
               then Some (Wrap e KindCancelled ''deadline_exceeded'' ''deadline exceeded'' [])
               else Some (Wrap e KindPermanent code ''%v'' [AErr e])))"

section \<open>Ports and descriptors\<close>

record PortDescriptor =
  pd_Name :: string
  pd_Type :: TypeID

record Descriptor =
  d_Name :: string
  d_Inputs :: "PortDescriptor list"
  d_Output :: PortDescriptor

definition Arity :: "Descriptor \<Rightarrow> nat" where
  "Arity d = length (d_Inputs d)"

definition InputNames :: "Descriptor \<Rightarrow> farg" where
  "InputNames d = (if d_Inputs d = [] then AStr ''none'' else AQuoted (map pd_Name (d_Inputs d)))"

fun join :: "string \<Rightarrow> string list \<Rightarrow> string" where
  "join sep [] = ''''"
| "join sep [x] = x"
| "join sep (x # xs) = x @ sep @ join sep xs"

definition InputTypes :: "Descriptor \<Rightarrow> string" where
  "InputTypes d =
     (if d_Inputs d = [] then ''()'' else ''('' @ join '', '' (map pd_Type (d_Inputs d)) @ '')'')"

definition by_type :: "PortDescriptor list \<Rightarrow> string list gomap" where
  "by_type ps =
     fold (\<lambda>p m. put (pd_Type p)
                    ((case map_of m (pd_Type p) of None \<Rightarrow> [] | Some ns \<Rightarrow> ns) @ [pd_Name p]) m) ps []"

definition AmbiguousInputs :: "Descriptor \<Rightarrow> (TypeID \<times> string list) option" where
  "AmbiguousInputs d =
     (let m = by_type (d_Inputs d);
          names = (\<lambda>t. case map_of m t of None \<Rightarrow> [] | Some ns \<Rightarrow> ns)
      in case find (\<lambda>p. length (names (pd_Type p)) > 1) (d_Inputs d) of
           None \<Rightarrow> None
         | Some p \<Rightarrow> Some (pd_Type p, names (pd_Type p)))"

section \<open>Values and results\<close>

record Value =
  v_typ :: TypeID
  v_ref :: "payload option"

definition zero_value :: Value where
  "zero_value = \<lparr>v_typ = '''', v_ref = None\<rparr>"

definition NewValue :: "type_table \<Rightarrow> payload \<Rightarrow> Value" where
  "NewValue tt p = \<lparr>v_typ = TypeOf tt (dyn_type p), v_ref = Some p\<rparr>"

definition IsZero :: "Value \<Rightarrow> bool" where
  "IsZero v \<longleftrightarrow> v_ref v = None \<and> v_typ v = ''''"

record ResultMeta =
  rm_Duration :: duration
  rm_Attempt :: int

definition zero_meta :: ResultMeta where
  "zero_meta = \<lparr>rm_Duration = 0, rm_Attempt = 0\<rparr>"

record Result =
  res_Value :: "payload option"
  res_Err :: "node_error option"
  res_Meta :: ResultMeta

definition Ok :: "payload \<Rightarrow> Result" where
  "Ok v = \<lparr>res_Value = Some v, res_Err = None, res_Meta = zero_meta\<rparr>"

definition Fail :: "node_error \<Rightarrow> Result" where
  "Fail e = \<lparr>res_Value = None, res_Err = Some e, res_Meta = zero_meta\<rparr>"

record ResultValue =
  rv_Value :: Value
  rv_Err :: "node_error option"
  rv_Meta :: ResultMeta

definition Failed :: "ResultValue \<Rightarrow> bool" where
  "Failed r \<longleftrightarrow> rv_Err r \<noteq> None"

definition err_result :: "node_error \<Rightarrow> ResultValue" where
  "err_result e = \<lparr>rv_Value = zero_value, rv_Err = Some e, rv_Meta = zero_meta\<rparr>"

section \<open>Runtime nodes and the typed adapters\<close>

record ExecutionContext =
  ec_WorkflowID :: string
  ec_ExecutionID :: string
  ec_StepID :: string
  ec_Attempt :: int

text \<open>What a Go call does: it returns a value or panics with one.\<close>

datatype 'a call = Returns 'a | Panics string

fun map_call :: "('a \<Rightarrow> 'b) \<Rightarrow> 'a call \<Rightarrow> 'b call" where
  "map_call f (Returns r) = Returns (f r)"
| "map_call f (Panics s) = Panics s"

record 'w RuntimeNode =
  rn_Descriptor :: Descriptor
  rn_Execute :: "'w \<Rightarrow> ExecutionContext \<Rightarrow> Value list \<Rightarrow> ResultValue call"
  rn_Stoppable :: bool

definition AsStoppable :: "'w RuntimeNode \<Rightarrow> 'w RuntimeNode" where
  "AsStoppable n = n\<lparr>rn_Stoppable := True\<rparr>"

definition HonoursCancellation :: "'w RuntimeNode option \<Rightarrow> bool" where
  "HonoursCancellation n = (case n of None \<Rightarrow> False | Some m \<Rightarrow> rn_Stoppable m)"

definition typeError :: "Descriptor \<Rightarrow> nat \<Rightarrow> TypeID \<Rightarrow> node_error" where
  "typeError desc port got =
     Errf KindInternal ''type_mismatch'' ''node %q input %q expects %s but received %s''
       [AStr (d_Name desc), AStr (pd_Name (d_Inputs desc ! port)),
        AStr (pd_Type (d_Inputs desc ! port)), AStr got]"

definition arityError :: "Descriptor \<Rightarrow> nat \<Rightarrow> node_error" where
  "arityError desc got =
     Errf KindInternal ''arity_mismatch'' ''node %q expects %d input(s), received %d''
       [AStr (d_Name desc), AInt (int (length (d_Inputs desc))), AInt (int got)]"

definition erase :: "TypeID \<Rightarrow> Result \<Rightarrow> ResultValue" where
  "erase outType r =
     (case res_Err r of
        Some e \<Rightarrow> \<lparr>rv_Value = zero_value, rv_Err = Some e, rv_Meta = res_Meta r\<rparr>
      | None \<Rightarrow> \<lparr>rv_Value = \<lparr>v_typ = outType, v_ref = res_Value r\<rparr>, rv_Err = None, rv_Meta = res_Meta r\<rparr>)"

text \<open>The type assertion \<open>v.ref.(I)\<close>.\<close>

definition assert_ref :: "gotype \<Rightarrow> Value \<Rightarrow> payload option" where
  "assert_ref t v = (case v_ref v of Some p \<Rightarrow> if dyn_type p = t then Some p else None | None \<Rightarrow> None)"

definition sourceNode_Execute ::
  "Descriptor \<Rightarrow> ('w \<Rightarrow> ExecutionContext \<Rightarrow> Result call) \<Rightarrow>
   'w \<Rightarrow> ExecutionContext \<Rightarrow> Value list \<Rightarrow> ResultValue call" where
  "sourceNode_Execute desc fn w ec inputs =
     (if length inputs \<noteq> 0 then Returns (err_result (arityError desc (length inputs)))
      else map_call (erase (pd_Type (d_Output desc))) (fn w ec))"

definition typedNode_Execute ::
  "gotype \<Rightarrow> Descriptor \<Rightarrow> ('w \<Rightarrow> ExecutionContext \<Rightarrow> payload \<Rightarrow> Result call) \<Rightarrow>
   'w \<Rightarrow> ExecutionContext \<Rightarrow> Value list \<Rightarrow> ResultValue call" where
  "typedNode_Execute I desc fn w ec inputs =
     (if length inputs \<noteq> 1 then Returns (err_result (arityError desc (length inputs)))
      else (case assert_ref I (inputs ! 0) of
              None \<Rightarrow> Returns (err_result (typeError desc 0 (v_typ (inputs ! 0))))
            | Some x \<Rightarrow> map_call (erase (pd_Type (d_Output desc))) (fn w ec x)))"

definition typedNode2_Execute ::
  "gotype \<Rightarrow> gotype \<Rightarrow> Descriptor \<Rightarrow>
   ('w \<Rightarrow> ExecutionContext \<Rightarrow> payload \<Rightarrow> payload \<Rightarrow> Result call) \<Rightarrow>
   'w \<Rightarrow> ExecutionContext \<Rightarrow> Value list \<Rightarrow> ResultValue call" where
  "typedNode2_Execute I1 I2 desc fn w ec inputs =
     (if length inputs \<noteq> 2 then Returns (err_result (arityError desc (length inputs)))
      else (case assert_ref I1 (inputs ! 0) of
              None \<Rightarrow> Returns (err_result (typeError desc 0 (v_typ (inputs ! 0))))
            | Some x \<Rightarrow>
                (case assert_ref I2 (inputs ! 1) of
                   None \<Rightarrow> Returns (err_result (typeError desc 1 (v_typ (inputs ! 1))))
                 | Some y \<Rightarrow> map_call (erase (pd_Type (d_Output desc))) (fn w ec x y))))"

text \<open>The argument loop of \<open>typedNodeN\<close>: the first input that fails its assertion, or all of them.\<close>

fun gather_args :: "gotype \<Rightarrow> nat \<Rightarrow> Value list \<Rightarrow> (nat \<times> TypeID) + payload list" where
  "gather_args I i [] = Inr []"
| "gather_args I i (v # vs) =
     (case assert_ref I v of
        None \<Rightarrow> Inl (i, v_typ v)
      | Some x \<Rightarrow> (case gather_args I (Suc i) vs of Inl b \<Rightarrow> Inl b | Inr xs \<Rightarrow> Inr (x # xs)))"

definition typedNodeN_Execute ::
  "gotype \<Rightarrow> Descriptor \<Rightarrow> ('w \<Rightarrow> ExecutionContext \<Rightarrow> payload list \<Rightarrow> Result call) \<Rightarrow>
   'w \<Rightarrow> ExecutionContext \<Rightarrow> Value list \<Rightarrow> ResultValue call" where
  "typedNodeN_Execute I desc fn w ec inputs =
     (if length inputs \<noteq> length (d_Inputs desc)
      then Returns (err_result (arityError desc (length inputs)))
      else (case gather_args I 0 inputs of
              Inl (i, got) \<Rightarrow> Returns (err_result (typeError desc i got))
            | Inr args \<Rightarrow> map_call (erase (pd_Type (d_Output desc))) (fn w ec args)))"

definition NewSource ::
  "type_table \<Rightarrow> gotype \<Rightarrow> string \<Rightarrow> ('w \<Rightarrow> ExecutionContext \<Rightarrow> Result call) \<Rightarrow> 'w RuntimeNode" where
  "NewSource tt O' name fn =
     (let desc = \<lparr>d_Name = name, d_Inputs = [],
                  d_Output = \<lparr>pd_Name = ''out'', pd_Type = TypeOf tt O'\<rparr>\<rparr>
      in \<lparr>rn_Descriptor = desc, rn_Execute = sourceNode_Execute desc fn, rn_Stoppable = False\<rparr>)"

definition NewTypedNode ::
  "type_table \<Rightarrow> gotype \<Rightarrow> gotype \<Rightarrow> string \<Rightarrow>
   ('w \<Rightarrow> ExecutionContext \<Rightarrow> payload \<Rightarrow> Result call) \<Rightarrow> 'w RuntimeNode" where
  "NewTypedNode tt I O' name fn =
     (let desc = \<lparr>d_Name = name, d_Inputs = [\<lparr>pd_Name = ''in'', pd_Type = TypeOf tt I\<rparr>],
                  d_Output = \<lparr>pd_Name = ''out'', pd_Type = TypeOf tt O'\<rparr>\<rparr>
      in \<lparr>rn_Descriptor = desc, rn_Execute = typedNode_Execute I desc fn, rn_Stoppable = False\<rparr>)"

definition NewTypedNode2 ::
  "type_table \<Rightarrow> gotype \<Rightarrow> gotype \<Rightarrow> gotype \<Rightarrow> string \<Rightarrow>
   ('w \<Rightarrow> ExecutionContext \<Rightarrow> payload \<Rightarrow> payload \<Rightarrow> Result call) \<Rightarrow> 'w RuntimeNode" where
  "NewTypedNode2 tt I1 I2 O' name fn =
     (let desc = \<lparr>d_Name = name,
                  d_Inputs = [\<lparr>pd_Name = ''in0'', pd_Type = TypeOf tt I1\<rparr>,
                              \<lparr>pd_Name = ''in1'', pd_Type = TypeOf tt I2\<rparr>],
                  d_Output = \<lparr>pd_Name = ''out'', pd_Type = TypeOf tt O'\<rparr>\<rparr>
      in \<lparr>rn_Descriptor = desc, rn_Execute = typedNode2_Execute I1 I2 desc fn, rn_Stoppable = False\<rparr>)"

definition NewTypedNodeN ::
  "type_table \<Rightarrow> gotype \<Rightarrow> gotype \<Rightarrow> string \<Rightarrow> string list \<Rightarrow>
   ('w \<Rightarrow> ExecutionContext \<Rightarrow> payload list \<Rightarrow> Result call) \<Rightarrow> 'w RuntimeNode" where
  "NewTypedNodeN tt I O' name ports fn =
     (let desc = \<lparr>d_Name = name,
                  d_Inputs = map (\<lambda>p. \<lparr>pd_Name = p, pd_Type = TypeOf tt I\<rparr>) ports,
                  d_Output = \<lparr>pd_Name = ''out'', pd_Type = TypeOf tt O'\<rparr>\<rparr>
      in \<lparr>rn_Descriptor = desc, rn_Execute = typedNodeN_Execute I desc fn, rn_Stoppable = False\<rparr>)"

section \<open>What the engine relies on a node for\<close>

text \<open>
  \<open>fits tt t v\<close>: the value carries a non-nil payload of the Go type \<open>t\<close> and the TypeID of \<open>t\<close>.
  \<open>engine_error\<close> are the two failures \<^verbatim>\<open>node.go\<close> documents as engine bugs.
\<close>

definition fits :: "type_table \<Rightarrow> gotype \<Rightarrow> Value \<Rightarrow> bool" where
  "fits tt t v \<longleftrightarrow> v_typ v = TypeOf tt t \<and> (\<exists>p. v_ref v = Some p \<and> dyn_type p = t \<and> proper p)"

definition engine_error :: "node_error \<Rightarrow> bool" where
  "engine_error e \<longleftrightarrow> err_Kind e = KindInternal \<and> err_Code e \<in> {''type_mismatch'', ''arity_mismatch''}"

text \<open>
  What Go's static typing gives for a function returning \<open>Result[O]\<close>, that it puts no nil
  pointer on its edge, and that its own failures are not engine bugs.
\<close>

definition typed_call :: "gotype \<Rightarrow> Result call \<Rightarrow> bool" where
  "typed_call O' c \<longleftrightarrow>
     (case c of
        Panics _ \<Rightarrow> True
      | Returns r \<Rightarrow>
          (case res_Err r of
             None \<Rightarrow> (case res_Value r of None \<Rightarrow> False | Some p \<Rightarrow> dyn_type p = O' \<and> proper p)
           | Some e \<Rightarrow> \<not> engine_error e))"

definition node_sound :: "type_table \<Rightarrow> gotype list \<Rightarrow> gotype \<Rightarrow> 'w RuntimeNode \<Rightarrow> bool" where
  "node_sound tt Is O' n \<longleftrightarrow>
     map pd_Type (d_Inputs (rn_Descriptor n)) = map (TypeOf tt) Is \<and>
     pd_Type (d_Output (rn_Descriptor n)) = TypeOf tt O' \<and>
     (\<forall>w ec ins r. rn_Execute n w ec ins = Returns r \<longrightarrow>
        (rv_Err r = None \<longrightarrow> fits tt O' (rv_Value r)) \<and>
        (list_all2 (fits tt) Is ins \<longrightarrow> (\<forall>e. rv_Err r = Some e \<longrightarrow> \<not> engine_error e)))"

section \<open>Errors: the facts policy reads\<close>

lemma Errf_simps [simp, node_simps]:
  "err_Code (Errf k c f as) = c" "err_Kind (Errf k c f as) = k"
  "err_Retryable (Errf k c f as) = (k = KindTransient)" "err_Cause (Errf k c f as) = None"
  "err_Message (Errf k c f as) = Sprintf f as"
  by (simp_all add: Errf_def)

lemma Wrap_simps [simp, node_simps]:
  "err_Code (Wrap e k c f as) = c" "err_Kind (Wrap e k c f as) = k"
  "err_Retryable (Wrap e k c f as) = (k = KindTransient)" "err_Cause (Wrap e k c f as) = Some e"
  "err_Message (Wrap e k c f as) = Sprintf f as"
  by (simp_all add: Wrap_def Errf_def)

lemma Normalize_Some: "\<exists>ne. Normalize (Some e) code = Some ne"
  by (simp add: Normalize_def split: option.split)

text \<open>An error that carries no node error is never retryable once normalized.\<close>

lemma Normalize_foreign_not_retryable:
  "errors_AsNode e = None \<Longrightarrow> Normalize (Some e) code = Some ne \<Longrightarrow> \<not> err_Retryable ne"
  by (auto simp: Normalize_def split: if_splits)

lemma Normalize_ctx [simp]:
  "Normalize (Some ECanceled) code = Some (Wrap ECanceled KindCancelled ''cancelled'' ''execution cancelled'' [])"
  "Normalize (Some EDeadlineExceeded) code =
     Some (Wrap EDeadlineExceeded KindCancelled ''deadline_exceeded'' ''deadline exceeded'' [])"
  by (simp_all add: Normalize_def)

section \<open>Ambiguous ports\<close>

lemma by_type_fold:
  "(case map_of (fold (\<lambda>p m. put (pd_Type p)
      ((case map_of m (pd_Type p) of None \<Rightarrow> [] | Some ns \<Rightarrow> ns) @ [pd_Name p]) m) ps m0) t of
      None \<Rightarrow> [] | Some ns \<Rightarrow> ns) =
   (case map_of m0 t of None \<Rightarrow> [] | Some ns \<Rightarrow> ns) @ map pd_Name (filter (\<lambda>p. pd_Type p = t) ps)"
  by (induction ps arbitrary: m0) (auto split: option.split)

lemma by_type_names:
  "(case map_of (by_type ps) t of None \<Rightarrow> [] | Some ns \<Rightarrow> ns) =
   map pd_Name (filter (\<lambda>p. pd_Type p = t) ps)"
  using by_type_fold [of ps "[]" t] by (simp add: by_type_def)

lemma AmbiguousInputs_find:
  "AmbiguousInputs d =
     map_option (\<lambda>p. (pd_Type p, map pd_Name (filter (\<lambda>q. pd_Type q = pd_Type p) (d_Inputs d))))
       (find (\<lambda>p. length (filter (\<lambda>q. pd_Type q = pd_Type p) (d_Inputs d)) > 1) (d_Inputs d))"
  by (simp add: AmbiguousInputs_def Let_def by_type_names split: option.split)

lemma length_filter_eq_count: "length (filter (\<lambda>q. f q = y) xs) = count_list (map f xs) y"
  by (induction xs) auto

lemma distinct_count_list: "distinct xs \<longleftrightarrow> (\<forall>x\<in>set xs. count_list xs x \<le> 1)"
proof (induction xs)
  case Nil
  then show ?case by simp
next
  case (Cons a xs)
  have "a \<notin> set xs \<longleftrightarrow> count_list xs a = 0" by (simp add: count_list_0_iff)
  with Cons show ?case by (auto simp: count_list_0_iff)
qed

lemma AmbiguousInputs_None_iff:
  "AmbiguousInputs d = None \<longleftrightarrow> distinct (map pd_Type (d_Inputs d))"
  by (auto simp: AmbiguousInputs_find find_None_iff distinct_count_list length_filter_eq_count not_less)

section \<open>The adapters keep their descriptor's promise\<close>

lemma zero_value_simps [simp]: "v_typ zero_value = ''''" "v_ref zero_value = None" "IsZero zero_value"
  by (simp_all add: zero_value_def IsZero_def)

lemma NewValue_fits [simp]: "fits tt (dyn_type p) (NewValue tt p) \<longleftrightarrow> proper p"
  by (simp add: fits_def NewValue_def)

lemma fits_assert_ref: "fits tt t v \<Longrightarrow> \<exists>p. assert_ref t v = Some p"
  by (auto simp: fits_def assert_ref_def)

lemma engine_error_mismatch [simp]:
  "engine_error (typeError d i t)" "engine_error (arityError d n)"
  by (simp_all add: engine_error_def typeError_def arityError_def)

lemma err_result_simps [simp]:
  "rv_Err (err_result e) = Some e" "rv_Value (err_result e) = zero_value"
  by (simp_all add: err_result_def)

lemma erase_typed:
  assumes "typed_call O' (Returns r)"
  shows "rv_Err (erase (TypeOf tt O') r) = None \<Longrightarrow> fits tt O' (rv_Value (erase (TypeOf tt O') r))"
    and "rv_Err (erase (TypeOf tt O') r) = Some e \<Longrightarrow> \<not> engine_error e"
  using assms by (auto simp: erase_def typed_call_def fits_def split: option.splits)

lemma gather_args_fits:
  "list_all2 (fits tt) (replicate (length vs) I) vs \<Longrightarrow>
   \<exists>xs. gather_args I i vs = Inr xs \<and> length xs = length vs \<and> (\<forall>x\<in>set xs. dyn_type x = I)"
proof (induction vs arbitrary: i)
  case Nil
  then show ?case by simp
next
  case (Cons v vs)
  then obtain xs where "gather_args I (Suc i) vs = Inr xs" "length xs = length vs"
      "\<forall>x\<in>set xs. dyn_type x = I" by auto
  with Cons.prems show ?case by (auto simp: fits_def assert_ref_def)
qed

text \<open>
  The interface between the node package and everything that runs nodes: a family of
  adapted nodes, with the Go types behind its ports and the proviso under which the
  adapted function is well typed. The client lemma is that such a node is sound.
\<close>

locale adapter_family =
  fixes node :: "'k \<Rightarrow> 'w RuntimeNode"
    and table :: "'k \<Rightarrow> type_table"
    and in_types :: "'k \<Rightarrow> gotype list"
    and out_type :: "'k \<Rightarrow> gotype"
    and typed :: "'k \<Rightarrow> bool"
  assumes desc_inputs:
      "map pd_Type (d_Inputs (rn_Descriptor (node k))) = map (TypeOf (table k)) (in_types k)"
    and desc_output: "pd_Type (d_Output (rn_Descriptor (node k))) = TypeOf (table k) (out_type k)"
    and exec_value: "typed k \<Longrightarrow> rn_Execute (node k) w ec ins = Returns r \<Longrightarrow> rv_Err r = None \<Longrightarrow>
      fits (table k) (out_type k) (rv_Value r)"
    and exec_error: "typed k \<Longrightarrow> list_all2 (fits (table k)) (in_types k) ins \<Longrightarrow>
      rn_Execute (node k) w ec ins = Returns r \<Longrightarrow> rv_Err r = Some e \<Longrightarrow> \<not> engine_error e"
begin

lemma sound: "typed k \<Longrightarrow> node_sound (table k) (in_types k) (out_type k) (node k)"
  unfolding node_sound_def using desc_inputs desc_output exec_value exec_error by blast

lemma arity: "Arity (rn_Descriptor (node k)) = length (in_types k)"
  using desc_inputs [of k] by (metis Arity_def length_map)

end

lemma map_call_Returns: "map_call f c = Returns r \<longleftrightarrow> (\<exists>x. c = Returns x \<and> r = f x)"
  by (cases c) auto

lemmas adapter_execs =
  sourceNode_Execute_def typedNode_Execute_def typedNode2_Execute_def typedNodeN_Execute_def

lemma typed_callD: "typed_call O' c \<Longrightarrow> c = Returns x \<Longrightarrow> typed_call O' (Returns x)"
  by simp

interpretation source_nodes: adapter_family
  "\<lambda>(tt, O', name, fn). NewSource tt O' name fn" "\<lambda>(tt, O', name, fn). tt"
  "\<lambda>_. []" "\<lambda>(tt, O', name, fn). O'"
  "\<lambda>(tt, O', name, fn). \<forall>w ec. typed_call O' (fn w ec)"
proof (unfold_locales, goal_cases)
  case (3 k w ec ins r)
  then show ?case
    by (auto simp: NewSource_def Let_def adapter_execs map_call_Returns split: if_splits prod.splits)
      (metis erase_typed(1))
next
  case (4 k ins w ec r e)
  then show ?case
    by (auto simp: NewSource_def Let_def adapter_execs map_call_Returns split: if_splits prod.splits)
      (metis erase_typed(2))
qed (auto simp: NewSource_def Let_def split: prod.splits)

interpretation typed_nodes: adapter_family
  "\<lambda>(tt, I, O', name, fn). NewTypedNode tt I O' name fn" "\<lambda>(tt, I, O', name, fn). tt"
  "\<lambda>(tt, I, O', name, fn). [I]" "\<lambda>(tt, I, O', name, fn). O'"
  "\<lambda>(tt, I, O', name, fn). \<forall>w ec x. dyn_type x = I \<longrightarrow> typed_call O' (fn w ec x)"
proof (unfold_locales, goal_cases)
  case (3 k w ec ins r)
  then show ?case
    by (auto simp: NewTypedNode_def Let_def adapter_execs map_call_Returns assert_ref_def
        split: if_splits prod.splits option.splits) (metis erase_typed(1))
next
  case (4 k ins w ec r e)
  then show ?case
    by (auto simp: NewTypedNode_def Let_def adapter_execs map_call_Returns assert_ref_def fits_def
        list_all2_Cons1 split: if_splits prod.splits option.splits) (metis erase_typed(2))
qed (auto simp: NewTypedNode_def Let_def split: prod.splits)

interpretation typed_nodes2: adapter_family
  "\<lambda>(tt, I1, I2, O', name, fn). NewTypedNode2 tt I1 I2 O' name fn" "\<lambda>(tt, I1, I2, O', name, fn). tt"
  "\<lambda>(tt, I1, I2, O', name, fn). [I1, I2]" "\<lambda>(tt, I1, I2, O', name, fn). O'"
  "\<lambda>(tt, I1, I2, O', name, fn).
     \<forall>w ec x y. dyn_type x = I1 \<longrightarrow> dyn_type y = I2 \<longrightarrow> typed_call O' (fn w ec x y)"
proof (unfold_locales, goal_cases)
  case (3 k w ec ins r)
  then show ?case
    by (auto simp: NewTypedNode2_def Let_def adapter_execs map_call_Returns assert_ref_def
        split: if_splits prod.splits option.splits) (metis erase_typed(1))
next
  case (4 k ins w ec r e)
  then show ?case
    by (auto simp: NewTypedNode2_def Let_def adapter_execs map_call_Returns assert_ref_def fits_def
        list_all2_Cons1 split: if_splits prod.splits option.splits) (metis erase_typed(2))
qed (auto simp: NewTypedNode2_def Let_def split: prod.splits)

lemma gather_args_types: "gather_args I i vs = Inr xs \<Longrightarrow> x \<in> set xs \<Longrightarrow> dyn_type x = I"
  by (induction vs arbitrary: i xs) (auto simp: assert_ref_def split: option.splits if_splits sum.splits)

lemma gather_args_length: "gather_args I i vs = Inr xs \<Longrightarrow> length xs = length vs"
  by (induction vs arbitrary: i xs) (auto split: option.splits sum.splits)

lemma map_const_replicate: "map (\<lambda>_. c) xs = replicate (length xs) c"
  by (rule map_replicate_const)

interpretation typed_nodesN: adapter_family
  "\<lambda>(tt, I, O', name, ports, fn). NewTypedNodeN tt I O' name ports fn"
  "\<lambda>(tt, I, O', name, ports, fn). tt"
  "\<lambda>(tt, I, O', name, ports, fn). replicate (length ports) I" "\<lambda>(tt, I, O', name, ports, fn). O'"
  "\<lambda>(tt, I, O', name, ports, fn).
     \<forall>w ec xs. (\<forall>x\<in>set xs. dyn_type x = I) \<longrightarrow> length xs = length ports \<longrightarrow> typed_call O' (fn w ec xs)"
proof (unfold_locales, goal_cases)
  case (3 k w ec ins r)
  obtain tt I O' name ports fn where k: "k = (tt, I, O', name, ports, fn)" by (cases k)
  with 3 obtain xs x where xs: "gather_args I 0 ins = Inr xs" "length ins = length ports"
      and x: "fn w ec xs = Returns x" "r = erase (TypeOf tt O') x"
    by (auto simp: NewTypedNodeN_def Let_def adapter_execs map_call_Returns split: if_splits sum.splits prod.splits)
  have "length xs = length ports" using xs by (simp add: gather_args_length)
  then have "typed_call O' (fn w ec xs)" using 3(1) k gather_args_types [OF xs(1)] by simp
  with x 3(3) k show ?case by (simp add: erase_typed(1))
next
  case (4 k ins w ec r e)
  obtain tt I O' name ports fn where k: "k = (tt, I, O', name, ports, fn)" by (cases k)
  have len: "length ins = length ports" using 4(2) k by (auto dest: list_all2_lengthD)
  with 4(2) k obtain xs where xs: "gather_args I 0 ins = Inr xs" "length xs = length ports"
      "\<forall>x\<in>set xs. dyn_type x = I"
    using gather_args_fits [of tt ins I 0] by (auto simp: list_all2_lengthD)
  with 4(3) k len obtain x where x: "fn w ec xs = Returns x" "r = erase (TypeOf tt O') x"
    by (auto simp: NewTypedNodeN_def Let_def adapter_execs map_call_Returns)
  have "typed_call O' (fn w ec xs)" using 4(1) k xs by simp
  with x 4(4) show ?case by (simp add: erase_typed(2))
qed (auto simp: NewTypedNodeN_def Let_def comp_def map_const_replicate split: prod.splits)

lemma AsStoppable_sound [simp]: "node_sound tt Is O' (AsStoppable n) \<longleftrightarrow> node_sound tt Is O' n"
  by (simp add: node_sound_def AsStoppable_def)

end
