(* ===== verification/Registry.thy ===== *)
theory Registry
  imports Node
begin

text \<open>
  The two capability registries (\<^verbatim>\<open>internal/node/registry.go\<close> and the copy of it in
  \<^verbatim>\<open>internal/trigger/trigger.go\<close>), with \<open>Static\<close> and \<open>Extractor\<close>. A registry's map is a
  \<open>gomap\<close> of definitions; the mutex makes every operation atomic, so each is one function.
  A definition's constructor is optional, since \<open>Register\<close> checks for nil. The \<open>Config\<close> a
  constructor decodes is a type parameter: the YAML library is not part of the model.

  Both registries are instances of one interface, \<open>capability_registry\<close>, inside which the
  facts about building a registry from a list of definitions are proved once.
\<close>

record 'n Definition =
  def_Name :: string
  def_New :: "'n option"

type_synonym 'n Registry = "'n Definition gomap"

section \<open>node.Registry\<close>

definition NewRegistry :: "'n Registry" where
  "NewRegistry = []"

definition Register :: "'n Definition \<Rightarrow> 'n Registry \<Rightarrow> go_error + 'n Registry" where
  "Register d r =
     (if def_Name d = '''' then Inl (EFmt (Sprintf ''node: definition has no name'' []))
      else if def_New d = None
      then Inl (EFmt (Sprintf ''node: definition %q has no constructor'' [AStr (def_Name d)]))
      else if map_of r (def_Name d) \<noteq> None
      then Inl (EFmt (Sprintf ''node: %q is already registered'' [AStr (def_Name d)]))
      else Inr (put (def_Name d) d r))"

definition Names :: "'n Registry \<Rightarrow> string list" where
  "Names r = sorted_keys r"

definition Resolve :: "string \<Rightarrow> 'n Registry \<Rightarrow> go_error + 'n Definition" where
  "Resolve name r =
     (case map_of r name of
        None \<Rightarrow> Inl (EFmt (Sprintf ''unknown node %q (known: %v)'' [AStr name, AStrs (Names r)]))
      | Some d \<Rightarrow> Inr d)"

text \<open>\<open>MustRegister\<close> over a list, as the package initialisers do: the first failure panics.\<close>

fun MustRegister_all :: "'n Definition list \<Rightarrow> 'n Registry \<Rightarrow> go_error + 'n Registry" where
  "MustRegister_all [] r = Inr r"
| "MustRegister_all (d # ds) r =
     (case Register d r of Inl e \<Rightarrow> Inl e | Inr r' \<Rightarrow> MustRegister_all ds r')"

section \<open>trigger.Registry\<close>

definition trigger_NewRegistry :: "'n Registry" where
  "trigger_NewRegistry = []"

definition trigger_Register :: "'n Definition \<Rightarrow> 'n Registry \<Rightarrow> go_error + 'n Registry" where
  "trigger_Register d r =
     (if def_Name d = '''' then Inl (EFmt (Sprintf ''trigger: definition has no name'' []))
      else if def_New d = None
      then Inl (EFmt (Sprintf ''trigger: definition %q has no constructor'' [AStr (def_Name d)]))
      else if map_of r (def_Name d) \<noteq> None
      then Inl (EFmt (Sprintf ''trigger: %q is already registered'' [AStr (def_Name d)]))
      else Inr (put (def_Name d) d r))"

definition trigger_Names :: "'n Registry \<Rightarrow> string list" where
  "trigger_Names r = sorted_keys r"

definition trigger_Resolve :: "string \<Rightarrow> 'n Registry \<Rightarrow> go_error + 'n Definition" where
  "trigger_Resolve name r =
     (case map_of r name of
        None \<Rightarrow> Inl (EFmt (Sprintf ''unknown trigger %q (known: %v)'' [AStr name, AStrs (trigger_Names r)]))
      | Some d \<Rightarrow> Inr d)"

fun trigger_MustRegister_all :: "'n Definition list \<Rightarrow> 'n Registry \<Rightarrow> go_error + 'n Registry" where
  "trigger_MustRegister_all [] r = Inr r"
| "trigger_MustRegister_all (d # ds) r =
     (case trigger_Register d r of Inl e \<Rightarrow> Inl e | Inr r' \<Rightarrow> trigger_MustRegister_all ds r')"

section \<open>Definitions that take no configuration\<close>

type_synonym ('c, 'w) NodeNew = "'c \<Rightarrow> go_error + 'w RuntimeNode option"

text \<open>
  \<open>decode\<close> is \<open>cfg.Decode\<close> into an empty struct: an error exactly when the block has a field.
  An extractor's \<open>read\<close> is the call \<open>Ok(read(in))\<close>, which panics on a nil pointer.
\<close>

definition Static ::
  "('c \<Rightarrow> go_error option) \<Rightarrow> string \<Rightarrow> 'w RuntimeNode \<Rightarrow> ('c, 'w) NodeNew Definition" where
  "Static decode name n =
     \<lparr>def_Name = name,
      def_New = Some (\<lambda>cfg. case decode cfg of
          Some err \<Rightarrow> Inl (ENode (Wrap err KindInvalidInput ''bad_config''
                              ''%s takes no configuration'' [AStr name]))
        | None \<Rightarrow> Inr (Some n))\<rparr>"

definition Extractor ::
  "type_table \<Rightarrow> ('c \<Rightarrow> go_error option) \<Rightarrow> gotype \<Rightarrow> gotype \<Rightarrow> string \<Rightarrow> (payload \<Rightarrow> Result call) \<Rightarrow>
   ('c, 'w) NodeNew Definition" where
  "Extractor tt decode I O' name read =
     Static decode name (NewTypedNode tt I O' name (\<lambda>_ _ x. read x))"

section \<open>The registry interface\<close>

locale capability_registry =
  fixes empty :: "'r"
    and register :: "'n Definition \<Rightarrow> 'r \<Rightarrow> go_error + 'r"
    and resolve :: "string \<Rightarrow> 'r \<Rightarrow> go_error + 'n Definition"
    and names :: "'r \<Rightarrow> string list"
  assumes resolve_empty: "\<exists>e. resolve k empty = Inl e"
    and register_ok: "def_Name d \<noteq> '''' \<Longrightarrow> def_New d \<noteq> None \<Longrightarrow> resolve (def_Name d) r = Inl e \<Longrightarrow>
      \<exists>r'. register d r = Inr r'"
    and register_named: "register d r = Inr r' \<Longrightarrow> def_Name d \<noteq> '''' \<and> def_New d \<noteq> None"
    and register_fresh: "register d r = Inr r' \<Longrightarrow> \<exists>e. resolve (def_Name d) r = Inl e"
    and resolve_registered: "register d r = Inr r' \<Longrightarrow> resolve (def_Name d) r' = Inr d"
    and resolve_other: "register d r = Inr r' \<Longrightarrow> k \<noteq> def_Name d \<Longrightarrow>
      resolve k r' = Inr d' \<longleftrightarrow> resolve k r = Inr d'"
    and names_resolve: "k \<in> set (names r) \<longleftrightarrow> (\<exists>d. resolve k r = Inr d)"
    and names_sorted: "sorted (names r) \<and> distinct (names r)"
begin

primrec build :: "'n Definition list \<Rightarrow> 'r \<Rightarrow> go_error + 'r" where
  "build [] r = Inr r"
| "build (d # ds) r = (case register d r of Inl e \<Rightarrow> Inl e | Inr r' \<Rightarrow> build ds r')"

lemma register_taken: "resolve (def_Name d) r = Inr d' \<Longrightarrow> \<exists>e. register d r = Inl e"
  using register_fresh by (cases "register d r") fastforce+

lemma register_keeps: "register d r = Inr r' \<Longrightarrow> resolve k r = Inr d' \<Longrightarrow> resolve k r' = Inr d'"
  using register_fresh [of d r r'] resolve_other [of d r r' k d'] by (cases "k = def_Name d") auto

lemma build_keeps: "build ds r = Inr r' \<Longrightarrow> resolve k r = Inr d \<Longrightarrow> resolve k r' = Inr d"
  by (induction ds arbitrary: r) (auto split: sum.splits dest: register_keeps)

lemma build_resolves:
  "build ds r = Inr r' \<Longrightarrow> d \<in> set ds \<Longrightarrow> resolve (def_Name d) r' = Inr d"
  by (induction ds arbitrary: r) (auto split: sum.splits dest: resolve_registered build_keeps)

lemma build_only:
  "build ds r = Inr r' \<Longrightarrow> resolve k r' = Inr d \<Longrightarrow>
   (d \<in> set ds \<and> def_Name d = k) \<or> resolve k r = Inr d"
proof (induction ds arbitrary: r)
  case Nil
  then show ?case by simp
next
  case (Cons a ds)
  then obtain u where u: "register a r = Inr u" "build ds u = Inr r'"
    by (auto split: sum.splits)
  with Cons have "(d \<in> set ds \<and> def_Name d = k) \<or> resolve k u = Inr d" by blast
  then show ?case
    using resolve_registered [OF u(1)] resolve_other [OF u(1), of k d]
    by (cases "k = def_Name a") auto
qed

lemma build_succeeds:
  "distinct (map def_Name ds) \<Longrightarrow> (\<forall>d\<in>set ds. def_Name d \<noteq> '''' \<and> def_New d \<noteq> None) \<Longrightarrow>
   (\<forall>d\<in>set ds. \<exists>e. resolve (def_Name d) r = Inl e) \<Longrightarrow> \<exists>r'. build ds r = Inr r'"
proof (induction ds arbitrary: r)
  case Nil
  then show ?case by simp
next
  case (Cons a ds)
  then obtain u where u: "register a r = Inr u"
    using register_ok [of a r] by auto
  have "\<exists>e. resolve (def_Name d) u = Inl e" if "d \<in> set ds" for d
  proof -
    have "def_Name d \<noteq> def_Name a" using Cons.prems(1) that by (auto simp: image_iff)
    then have "resolve (def_Name d) u \<noteq> Inr d'" for d'
      using resolve_other [OF u, of "def_Name d" d'] Cons.prems(3) that by auto
    then show ?thesis by (cases "resolve (def_Name d) u") auto
  qed
  with Cons u show ?case by auto
qed

lemma build_names:
  assumes "build ds empty = Inr r"
  shows "set (names r) = def_Name ` set ds"
proof (rule set_eqI)
  fix k
  have "(\<exists>d. resolve k r = Inr d) \<longleftrightarrow> (\<exists>d\<in>set ds. def_Name d = k)"
    using build_resolves [OF assms] build_only [OF assms, of k] resolve_empty [of k] by auto
  then show "k \<in> set (names r) \<longleftrightarrow> k \<in> def_Name ` set ds"
    by (auto simp: names_resolve)
qed

end

lemmas registry_defs =
  NewRegistry_def Register_def Resolve_def Names_def trigger_NewRegistry_def trigger_Register_def
  trigger_Resolve_def trigger_Names_def

interpretation node_registry: capability_registry NewRegistry Register Resolve Names
  by unfold_locales (auto simp: registry_defs split: if_splits option.splits)

interpretation trigger_registry:
  capability_registry trigger_NewRegistry trigger_Register trigger_Resolve trigger_Names
  by unfold_locales (auto simp: registry_defs split: if_splits option.splits)

lemma MustRegister_all_build: "MustRegister_all ds r = node_registry.build ds r"
  by (induction ds arbitrary: r) (auto split: sum.splits)

lemma trigger_MustRegister_all_build: "trigger_MustRegister_all ds r = trigger_registry.build ds r"
  by (induction ds arbitrary: r) (auto split: sum.splits)

lemma Static_new:
  "\<exists>new. def_New (Static decode name n) = Some new \<and>
     (decode cfg = None \<longrightarrow> new cfg = Inr (Some n)) \<and>
     (\<forall>err. decode cfg = Some err \<longrightarrow> (\<exists>e. new cfg = Inl (ENode e) \<and> err_Kind e = KindInvalidInput))"
  by (auto simp: Static_def)

lemma Extractor_sound:
  assumes "\<And>x. dyn_type x = I \<Longrightarrow> typed_call O' (read x)"
    and "def_New (Extractor tt decode I O' name read) = Some new" and "new cfg = Inr (Some n)"
  shows "node_sound tt [I] O' n"
  using assms typed_nodes.sound [of "(tt, I, O', name, (\<lambda>_ _ x. read x))"]
  by (auto simp: Extractor_def Static_def split: option.splits)

end
