(* ===== verification/Trigger.thy ===== *)
theory Trigger
  imports Registry
begin

text \<open>
  The trigger package: descriptors, claims and outcomes (\<^verbatim>\<open>trigger.go\<close>), the webhook
  (\<^verbatim>\<open>webhook.go\<close>) with its signature check (\<^verbatim>\<open>auth.go\<close>), the schedule
  (\<^verbatim>\<open>schedule.go\<close>) and the built-in registry (\<^verbatim>\<open>builtins.go\<close>).

  A built trigger is a record: its descriptor, its claim, and the optional interfaces it
  implements (\<open>HTTPDriven\<close>, \<open>SelfDriven\<close>, \<open>Authenticating\<close>) as options. Decoding a
  \<open>with\<close> block, parsing a duration and the keyed hash are arguments of the constructors;
  everything the package itself decides is modelled, the 64-bit body limit included.
\<close>

section \<open>Descriptors, claims, outcomes\<close>

record TriggerDescriptor =
  td_Name :: string
  td_Provides :: "PortDescriptor list"

definition Provided :: "TriggerDescriptor \<Rightarrow> string \<Rightarrow> TypeID option" where
  "Provided d name = map_option pd_Type (find (\<lambda>p. pd_Name p = name) (td_Provides d))"

record Claim =
  cl_Kind :: string
  cl_Key :: string

definition zero_claim :: Claim where
  "zero_claim = \<lparr>cl_Kind = '''', cl_Key = ''''\<rparr>"

definition Claim_IsZero :: "Claim \<Rightarrow> bool" where
  "Claim_IsZero c \<longleftrightarrow> cl_Kind c = '''' \<and> cl_Key c = ''''"

definition Claim_String :: "Claim \<Rightarrow> string" where
  "Claim_String c = (if Claim_IsZero c then ''none'' else cl_Kind c @ '' '' @ cl_Key c)"

record Outcome =
  oc_Err :: "node_error option"
  oc_Value :: Value

definition Outcome_Failed :: "Outcome \<Rightarrow> bool" where
  "Outcome_Failed o' \<longleftrightarrow> oc_Err o' \<noteq> None"

text \<open>
  An inbound request as a trigger sees it: the method, the URL's path and raw query,
  \<open>Header.Get\<close>, and the body, whose reader may fail after the bytes it delivered.
\<close>

record HTTPRequest =
  hr_Method :: string
  hr_Path :: string
  hr_RawQuery :: string
  hr_Header_Get :: "string \<Rightarrow> string"
  hr_Body :: bytes
  hr_Body_Err :: "go_error option"

record HTTPDriven =
  ht_Values :: "(string \<Rightarrow> string) \<Rightarrow> HTTPRequest \<Rightarrow> node_error + Value gomap"
  ht_ResponseTypes :: "TypeID list"
  ht_Respond :: "Value \<Rightarrow> (node_error + bytes) call"

record Trigger =
  tr_Descriptor :: TriggerDescriptor
  tr_Claim :: Claim
  tr_HTTPDriven :: "HTTPDriven option"
  tr_SelfDriven :: "duration option"
  tr_Authenticating :: "bool option"

type_synonym 'c TriggerNew = "'c \<Rightarrow> go_error + Trigger option"

section \<open>Signature verification\<close>

definition SchemeHMACSHA256 :: string where "SchemeHMACSHA256 = ''hmac-sha256''"
definition CodeUnauthorized :: string where "CodeUnauthorized = ''unauthorized''"

record authConfig =
  ac_Scheme :: string
  ac_Header :: string
  ac_Prefix :: string
  ac_SecretEnv :: string

record verifier =
  vf_header :: string
  vf_prefix :: string
  vf_secretEnv :: string

definition auth_compile :: "string \<Rightarrow> authConfig option \<Rightarrow> node_error + verifier option" where
  "auth_compile capability ac =
     (case ac of
        None \<Rightarrow> Inr None
      | Some c \<Rightarrow>
          if ac_Scheme c \<noteq> SchemeHMACSHA256
          then Inl (Errf KindInvalidInput ''bad_auth'' ''%s auth.scheme %q is not supported (accepted: %s)''
                 [AStr capability, AStr (ac_Scheme c), AStr SchemeHMACSHA256])
          else if ac_Header c = ''''
          then Inl (Errf KindInvalidInput ''bad_auth'' ''%s auth requires a header, such as \"X-Hub-Signature-256\"'' [AStr capability])
          else if ac_SecretEnv c = ''''
          then Inl (Errf KindInvalidInput ''bad_auth'' ''%s auth requires secret_env: the environment variable holding the shared secret'' [AStr capability])
          else Inr (Some \<lparr>vf_header = ac_Header c, vf_prefix = ac_Prefix c, vf_secretEnv = ac_SecretEnv c\<rparr>))"

definition unauthorized :: node_error where
  "unauthorized = Errf KindPermanent CodeUnauthorized ''unauthorized'' []"

definition CutPrefix :: "string \<Rightarrow> string \<Rightarrow> string option" where
  "CutPrefix s p = (if take (length p) s = p then Some (drop (length p) s) else None)"

text \<open>
  \<open>ToLower\<close> on the ASCII letters. A byte above 127 is left alone; the library may rewrite
  it, but never into a byte of a hex digest, so the comparison below comes out the same.
\<close>

definition lower_char :: "char \<Rightarrow> char" where
  "lower_char c = (if CHR ''A'' \<le> c \<and> c \<le> CHR ''Z'' then char_of (of_char c + 32 :: nat) else c)"

definition ToLower :: "string \<Rightarrow> string" where
  "ToLower s = map lower_char s"

definition upper_char :: "char \<Rightarrow> char" where
  "upper_char c = (if CHR ''a'' \<le> c \<and> c \<le> CHR ''z'' then char_of (of_char c - 32 :: nat) else c)"

definition ToUpper :: "string \<Rightarrow> string" where
  "ToUpper s = map upper_char s"

definition hex_digit :: "nat \<Rightarrow> char" where
  "hex_digit n = ''0123456789abcdef'' ! n"

definition hex_EncodeToString :: "bytes \<Rightarrow> string" where
  "hex_EncodeToString bs =
     concat (map (\<lambda>b. [hex_digit (of_char b div 16 mod 16), hex_digit (of_char b mod 16)]) bs)"

text \<open>
  \<open>hmac\<close> is HMAC-SHA256 as a function of key and message, \<open>getenv\<close> is \<open>os.Getenv\<close>. The
  result is the logged reason and the error, as in the source; \<open>None\<close> accepts.
\<close>

definition verify ::
  "(bytes \<Rightarrow> bytes \<Rightarrow> bytes) \<Rightarrow> (string \<Rightarrow> string) \<Rightarrow> verifier \<Rightarrow> HTTPRequest \<Rightarrow> bytes \<Rightarrow>
   (string \<times> node_error) option" where
  "verify hmac getenv v r body =
     (let secret = getenv (vf_secretEnv v) in
      if secret = ''''
      then Some ('''', Errf KindInternal ''secret_unset''
             ''the shared secret is unavailable: %s is unset or empty'' [AStr (vf_secretEnv v)])
      else
        let presented = hr_Header_Get r (vf_header v) in
        if presented = '''' then Some (''no '' @ vf_header v @ '' header'', unauthorized)
        else
          (case CutPrefix presented (vf_prefix v) of
             None \<Rightarrow> Some (vf_header v @ '' does not carry the expected '' @ vf_prefix v @ '' prefix'', unauthorized)
           | Some digest \<Rightarrow>
               let expected = hex_EncodeToString (hmac secret body) in
               if ToLower digest \<noteq> expected then Some (''signature does not match the body'', unauthorized)
               else None))"

section \<open>The webhook\<close>

definition WebhookName :: string where "WebhookName = ''trigger.webhook''"
definition DefaultMaxBodyBytes :: int64 where "DefaultMaxBodyBytes = 1048576"

definition webhookMethods :: "string list" where
  "webhookMethods = [''GET'', ''POST'', ''PUT'', ''PATCH'', ''DELETE'']"

record webhookConfig =
  wc_Path :: string
  wc_Method :: string
  wc_MaxBody :: int64
  wc_Auth :: "authConfig option"

record webhook =
  wh_path :: string
  wh_method :: string
  wh_maxBody :: int64
  wh_auth :: "verifier option"

definition webhook_Descriptor :: "type_table \<Rightarrow> TriggerDescriptor" where
  "webhook_Descriptor tt =
     \<lparr>td_Name = WebhookName,
      td_Provides = [\<lparr>pd_Name = ''body'', pd_Type = TypeOf tt tBytes\<rparr>,
                     \<lparr>pd_Name = ''method'', pd_Type = TypeOf tt tText\<rparr>,
                     \<lparr>pd_Name = ''path'', pd_Type = TypeOf tt tText\<rparr>,
                     \<lparr>pd_Name = ''query'', pd_Type = TypeOf tt tText\<rparr>]\<rparr>"

definition webhook_Claim :: "webhook \<Rightarrow> Claim" where
  "webhook_Claim w = \<lparr>cl_Kind = ''http'', cl_Key = wh_method w @ '' '' @ wh_path w\<rparr>"

definition webhook_ResponseTypes :: "type_table \<Rightarrow> TypeID list" where
  "webhook_ResponseTypes tt = [TypeOf tt tBytes, TypeOf tt tText]"

text \<open>
  The bytes written to the response, or the error of the default branch. A nil pointer of a
  writable type is dereferenced.
\<close>

definition webhook_Respond :: "Value \<Rightarrow> (node_error + bytes) call" where
  "webhook_Respond v =
     (case v_ref v of
        None \<Rightarrow> Returns (Inr [])
      | Some (PBytes b) \<Rightarrow> Returns (Inr b)
      | Some (PText s) \<Rightarrow> Returns (Inr s)
      | Some p \<Rightarrow>
          if dyn_type p = tBytes \<or> dyn_type p = tText then Panics ''nil pointer dereference''
          else Returns (Inl (Errf KindInternal ''unresponsive_type''
                 ''cannot write a %s as a response body'' [AStr (v_typ v)])))"

text \<open>
  \<open>io.ReadAll(io.LimitReader(body, n))\<close>: a limit that is not positive reads nothing, and a
  reader that reaches its limit never sees the error behind it. The body's reader is taken to
  give its error in a read of its own, after the bytes; one that gave it together with the last
  byte within the limit would have it reported.
\<close>

definition read_limited :: "int64 \<Rightarrow> bytes \<Rightarrow> go_error option \<Rightarrow> go_error + bytes" where
  "read_limited n body err =
     (if sint n \<le> 0 then Inr []
      else if sint n \<le> int (length body) then Inr (take (nat (sint n)) body)
      else (case err of Some e \<Rightarrow> Inl e | None \<Rightarrow> Inr body))"

definition set_Cause :: "go_error \<Rightarrow> node_error \<Rightarrow> node_error" where
  "set_Cause c e = (case e of NodeError code kind m r _ \<Rightarrow> NodeError code kind m r (Some c))"

definition webhook_Values ::
  "type_table \<Rightarrow> (bytes \<Rightarrow> bytes \<Rightarrow> bytes) \<Rightarrow> webhook \<Rightarrow> (string \<Rightarrow> string) \<Rightarrow> HTTPRequest \<Rightarrow>
   node_error + Value gomap" where
  "webhook_Values tt hmac w getenv r =
     (case read_limited (wh_maxBody w + 1) (hr_Body r) (hr_Body_Err r) of
        Inl err \<Rightarrow> Inl (Wrap err KindInvalidInput ''body_unreadable'' ''reading the request body'' [])
      | Inr body \<Rightarrow>
          if int (length body) > sint (wh_maxBody w)
          then Inl (Errf KindInvalidInput ''body_too_large'' ''request body is larger than %d bytes''
                 [AInt (sint (wh_maxBody w))])
          else
            (case (case wh_auth w of None \<Rightarrow> None | Some v \<Rightarrow> verify hmac getenv v r body) of
               Some (reason, err) \<Rightarrow>
                 Inl (if reason \<noteq> '''' then set_Cause (EFmt (Sprintf reason [])) err else err)
             | None \<Rightarrow>
                 Inr [(''body'', NewValue tt (PBytes body)),
                      (''method'', NewValue tt (PText (hr_Method r))),
                      (''path'', NewValue tt (PText (hr_Path r))),
                      (''query'', NewValue tt (PText (hr_RawQuery r)))]))"

definition webhook_Trigger :: "type_table \<Rightarrow> (bytes \<Rightarrow> bytes \<Rightarrow> bytes) \<Rightarrow> webhook \<Rightarrow> Trigger" where
  "webhook_Trigger tt hmac w =
     \<lparr>tr_Descriptor = webhook_Descriptor tt, tr_Claim = webhook_Claim w,
      tr_HTTPDriven = Some \<lparr>ht_Values = webhook_Values tt hmac w,
                            ht_ResponseTypes = webhook_ResponseTypes tt,
                            ht_Respond = webhook_Respond\<rparr>,
      tr_SelfDriven = None, tr_Authenticating = Some (wh_auth w \<noteq> None)\<rparr>"

definition build_webhook :: "webhookConfig \<Rightarrow> node_error + webhook" where
  "build_webhook c =
     (if wc_Path c = ''''
      then Inl (Errf KindInvalidInput ''missing_path'' ''trigger.webhook requires a path such as \"/hooks/deploy\"'' [])
      else if take 1 (wc_Path c) \<noteq> ''/''
      then Inl (Errf KindInvalidInput ''bad_path'' ''path %q must start with \"/\"'' [AStr (wc_Path c)])
      else
        let method = (if wc_Method c \<noteq> '''' then ToUpper (wc_Method c) else ''POST'') in
        if wc_Method c \<noteq> '''' \<and> method \<notin> set webhookMethods
        then Inl (Errf KindInvalidInput ''bad_method'' ''unknown method %q (accepted: %s)''
               [AStr (wc_Method c), AStr (join '', '' webhookMethods)])
        else if sint (wc_MaxBody c) < 0
        then Inl (Errf KindInvalidInput ''bad_max_body'' ''max_body must not be negative, got %d''
               [AInt (sint (wc_MaxBody c))])
        else
          let maxBody = (if wc_MaxBody c = 0 then DefaultMaxBodyBytes else wc_MaxBody c) in
          (case auth_compile WebhookName (wc_Auth c) of
             Inl e \<Rightarrow> Inl e
           | Inr auth \<Rightarrow> Inr \<lparr>wh_path = wc_Path c, wh_method = method, wh_maxBody = maxBody, wh_auth = auth\<rparr>))"

definition newWebhook ::
  "type_table \<Rightarrow> (bytes \<Rightarrow> bytes \<Rightarrow> bytes) \<Rightarrow> ('c \<Rightarrow> go_error + webhookConfig) \<Rightarrow> 'c TriggerNew" where
  "newWebhook tt hmac decode cfg =
     (case decode cfg of
        Inl e \<Rightarrow> Inl e
      | Inr c \<Rightarrow> (case build_webhook c of
                    Inl e \<Rightarrow> Inl (ENode e)
                  | Inr w \<Rightarrow> Inr (Some (webhook_Trigger tt hmac w))))"

section \<open>The schedule\<close>

definition ScheduleName :: string where "ScheduleName = ''trigger.schedule''"
definition MinScheduleInterval :: duration where "MinScheduleInterval = 1000000"

definition schedule_Descriptor :: "type_table \<Rightarrow> TriggerDescriptor" where
  "schedule_Descriptor tt =
     \<lparr>td_Name = ScheduleName, td_Provides = [\<lparr>pd_Name = ''fired_at'', pd_Type = TypeOf tt tTime\<rparr>]\<rparr>"

definition schedule_Trigger :: "type_table \<Rightarrow> duration \<Rightarrow> Trigger" where
  "schedule_Trigger tt every =
     \<lparr>tr_Descriptor = schedule_Descriptor tt, tr_Claim = zero_claim, tr_HTTPDriven = None,
      tr_SelfDriven = Some every, tr_Authenticating = None\<rparr>"

text \<open>What one tick of \<open>Listen\<close> hands to \<open>fire\<close>.\<close>

definition schedule_tick :: "type_table \<Rightarrow> instant \<Rightarrow> Value gomap" where
  "schedule_tick tt t = [(''fired_at'', NewValue tt (PTime t))]"

definition newSchedule ::
  "type_table \<Rightarrow> (string \<Rightarrow> go_error + duration) \<Rightarrow> ('c \<Rightarrow> go_error + string) \<Rightarrow> 'c TriggerNew" where
  "newSchedule tt ParseDuration decode cfg =
     (case decode cfg of
        Inl e \<Rightarrow> Inl e
      | Inr every_str \<Rightarrow>
          if every_str = ''''
          then Inl (ENode (Errf KindInvalidInput ''missing_every'' ''trigger.schedule requires an interval such as \"30s\"'' []))
          else
            (case ParseDuration every_str of
               Inl err \<Rightarrow> Inl (ENode (Wrap err KindInvalidInput ''bad_every'' ''invalid interval %q'' [AStr every_str]))
             | Inr every \<Rightarrow>
                 if sint every < sint MinScheduleInterval
                 then Inl (ENode (Errf KindInvalidInput ''every_too_short'' ''interval %q is shorter than %s''
                        [AStr every_str, AStr ''1ms'']))
                 else Inr (Some (schedule_Trigger tt every))))"

section \<open>Built-in triggers\<close>

definition trigger_Definitions ::
  "type_table \<Rightarrow> (bytes \<Rightarrow> bytes \<Rightarrow> bytes) \<Rightarrow> (string \<Rightarrow> go_error + duration) \<Rightarrow>
   ('c \<Rightarrow> go_error + webhookConfig) \<Rightarrow> ('c \<Rightarrow> go_error + string) \<Rightarrow> 'c TriggerNew Definition list" where
  "trigger_Definitions tt hmac ParseDuration decode_webhook decode_schedule =
     [\<lparr>def_Name = WebhookName, def_New = Some (newWebhook tt hmac decode_webhook)\<rparr>,
      \<lparr>def_Name = ScheduleName, def_New = Some (newSchedule tt ParseDuration decode_schedule)\<rparr>]"

definition Builtins ::
  "type_table \<Rightarrow> (bytes \<Rightarrow> bytes \<Rightarrow> bytes) \<Rightarrow> (string \<Rightarrow> go_error + duration) \<Rightarrow>
   ('c \<Rightarrow> go_error + webhookConfig) \<Rightarrow> ('c \<Rightarrow> go_error + string) \<Rightarrow> go_error + 'c TriggerNew Registry" where
  "Builtins tt hmac ParseDuration decode_webhook decode_schedule =
     trigger_MustRegister_all
       (trigger_Definitions tt hmac ParseDuration decode_webhook decode_schedule) trigger_NewRegistry"

section \<open>What an accepted webhook event guarantees\<close>

lemma CutPrefix_Some [simp]: "CutPrefix s p = Some d \<longleftrightarrow> s = p @ d"
  by (auto simp: CutPrefix_def) (metis append_take_drop_id)

lemma CutPrefix_append: "CutPrefix (p @ d) p = Some d"
  by simp

lemma verify_None_iff:
  "verify hmac getenv v r body = None \<longleftrightarrow>
     getenv (vf_secretEnv v) \<noteq> '''' \<and>
     (\<exists>digest. hr_Header_Get r (vf_header v) = vf_prefix v @ digest \<and>
        vf_prefix v @ digest \<noteq> '''' \<and>
        ToLower digest = hex_EncodeToString (hmac (getenv (vf_secretEnv v)) body))"
proof (cases "CutPrefix (hr_Header_Get r (vf_header v)) (vf_prefix v)")
  case None
  then have "hr_Header_Get r (vf_header v) \<noteq> vf_prefix v @ digest" for digest
    using CutPrefix_Some by (metis option.distinct(1))
  with None show ?thesis by (simp add: verify_def Let_def)
next
  case (Some digest)
  then have h: "hr_Header_Get r (vf_header v) = vf_prefix v @ digest" by simp
  show ?thesis unfolding verify_def Let_def h by (simp add: CutPrefix_append)
qed

text \<open>Every rejection of the caller carries the same error; the reason is only ever the cause.\<close>

lemma verify_rejects_uniformly:
  "verify hmac getenv v r body = Some (reason, err) \<Longrightarrow> getenv (vf_secretEnv v) \<noteq> '''' \<Longrightarrow>
   err = unauthorized \<and> reason \<noteq> ''''"
  by (auto simp: verify_def Let_def split: option.splits if_splits)

lemma set_Cause_simps [simp]:
  "err_Code (set_Cause c e) = err_Code e" "err_Kind (set_Cause c e) = err_Kind e"
  "err_Message (set_Cause c e) = err_Message e" "err_Cause (set_Cause c e) = Some c"
  "err_Retryable (set_Cause c e) = err_Retryable e"
  by (cases e; simp add: set_Cause_def)+

lemma read_limited_Inr:
  "read_limited n body err = Inr b \<Longrightarrow>
   (sint n \<le> 0 \<and> b = []) \<or> (0 < sint n \<and> b = take (nat (sint n)) body)"
  by (auto simp: read_limited_def split: if_splits option.splits)

lemma sint_succ: "w \<noteq> 9223372036854775807 \<Longrightarrow> sint (w + 1) = sint (w :: int64) + 1"
proof -
  assume w: "w \<noteq> 9223372036854775807"
  have "sint w < 2 ^ 63" using sint_lt [of w] by simp
  moreover have "sint w \<noteq> 9223372036854775807"
  proof
    assume "sint w = 9223372036854775807"
    then have "sint w = sint (9223372036854775807 :: int64)" by simp
    then have "w = 9223372036854775807" by (rule signed_word_eqI)
    with w show False ..
  qed
  ultimately have "sint w + 1 < 2 ^ 63" by simp
  moreover have "- (2 ^ 63) \<le> sint w" using sint_ge [of w] by simp
  ultimately show ?thesis
    by (simp add: sint_word_ariths signed_take_bit_int_eq_self)
qed

lemma webhook_Values_Inr:
  "webhook_Values tt hmac w getenv r = Inr vals \<longleftrightarrow>
   (\<exists>body. read_limited (wh_maxBody w + 1) (hr_Body r) (hr_Body_Err r) = Inr body \<and>
      int (length body) \<le> sint (wh_maxBody w) \<and>
      (\<forall>v. wh_auth w = Some v \<longrightarrow> verify hmac getenv v r body = None) \<and>
      vals = [(''body'', NewValue tt (PBytes body)), (''method'', NewValue tt (PText (hr_Method r))),
              (''path'', NewValue tt (PText (hr_Path r))), (''query'', NewValue tt (PText (hr_RawQuery r)))])"
  by (auto simp: webhook_Values_def split: sum.splits option.splits if_splits)

text \<open>
  Unless the limit is the largest 64-bit integer, an accepted event carries the whole body,
  never a truncated one.
\<close>

lemma webhook_body_whole:
  assumes "webhook_Values tt hmac w getenv r = Inr vals" and "wh_maxBody w \<noteq> 9223372036854775807"
    and "0 \<le> sint (wh_maxBody w)"
  shows "map_of vals ''body'' = Some (NewValue tt (PBytes (hr_Body r))) \<and>
    int (length (hr_Body r)) \<le> sint (wh_maxBody w)"
proof -
  from assms(1) obtain body where b:
      "read_limited (wh_maxBody w + 1) (hr_Body r) (hr_Body_Err r) = Inr body"
      "int (length body) \<le> sint (wh_maxBody w)"
      "map_of vals ''body'' = Some (NewValue tt (PBytes body))"
    by (auto simp: webhook_Values_Inr)
  have n: "sint (wh_maxBody w + 1) = sint (wh_maxBody w) + 1" using assms(2) by (rule sint_succ)
  with b(1) assms(3) have "body = take (nat (sint (wh_maxBody w) + 1)) (hr_Body r)"
    by (auto dest!: read_limited_Inr)
  moreover with b(2) assms(3) have "length (hr_Body r) \<le> nat (sint (wh_maxBody w))"
    by (auto simp: min_def split: if_splits)
  ultimately show ?thesis using b(3) assms(3) by simp
qed

text \<open>The same limit at its largest value overflows, and the event then carries no body at all.\<close>

lemma webhook_body_lost:
  "wh_maxBody w = 9223372036854775807 \<Longrightarrow> wh_auth w = None \<Longrightarrow>
   \<exists>vals. webhook_Values tt hmac w getenv r = Inr vals \<and>
     map_of vals ''body'' = Some (NewValue tt (PBytes []))"
  by (auto simp: webhook_Values_Inr read_limited_def)

section \<open>The trigger interface\<close>

text \<open>
  What the compiler relies on a trigger for: an event supplies every port the descriptor
  lists, at the type it lists.
\<close>

locale event_source =
  fixes descriptor :: "'t \<Rightarrow> TriggerDescriptor"
    and event :: "'t \<Rightarrow> Value gomap \<Rightarrow> bool"
  assumes event_supplies: "event t vals \<Longrightarrow> p \<in> set (td_Provides (descriptor t)) \<Longrightarrow>
      \<exists>v. map_of vals (pd_Name p) = Some v \<and> v_typ v = pd_Type p"
begin

lemma provided_supplied:
  "event t vals \<Longrightarrow> Provided (descriptor t) name = Some ty \<Longrightarrow>
   \<exists>v. map_of vals name = Some v \<and> v_typ v = ty"
  using event_supplies [of t vals] by (auto simp: Provided_def find_Some_iff)

end

interpretation webhook_events: event_source
  "\<lambda>(tt, hmac, w). webhook_Descriptor tt"
  "\<lambda>(tt, hmac, w) vals. \<exists>getenv r. webhook_Values tt hmac w getenv r = Inr vals"
  by unfold_locales (auto simp: webhook_Descriptor_def webhook_Values_Inr NewValue_def)

interpretation schedule_events: event_source
  schedule_Descriptor "\<lambda>tt vals. \<exists>t. vals = schedule_tick tt t"
  by unfold_locales (auto simp: schedule_Descriptor_def schedule_tick_def NewValue_def)

text \<open>
  The events of a built trigger, and the triggers that supply what they describe. The two
  built-in constructors only build such triggers.
\<close>

definition event_of :: "type_table \<Rightarrow> Trigger \<Rightarrow> Value gomap \<Rightarrow> bool" where
  "event_of tt t vals \<longleftrightarrow>
     (case tr_HTTPDriven t of
        Some h \<Rightarrow> (\<exists>getenv r. ht_Values h getenv r = Inr vals)
      | None \<Rightarrow> tr_SelfDriven t \<noteq> None \<and> (\<exists>i. vals = schedule_tick tt i))"

definition honest_trigger :: "type_table \<Rightarrow> Trigger \<Rightarrow> bool" where
  "honest_trigger tt t \<longleftrightarrow>
     (\<forall>vals name ty. event_of tt t vals \<longrightarrow> Provided (tr_Descriptor t) name = Some ty \<longrightarrow>
        (\<exists>v. map_of vals name = Some v \<and> v_typ v = ty))"

lemma webhook_Trigger_honest: "honest_trigger tt (webhook_Trigger tt hmac w)"
  using webhook_events.provided_supplied [of "(tt, hmac, w)"]
  by (auto simp: honest_trigger_def event_of_def webhook_Trigger_def)

lemma schedule_Trigger_honest: "honest_trigger tt (schedule_Trigger tt every)"
  using schedule_events.provided_supplied [where t = tt]
  by (auto simp: honest_trigger_def event_of_def schedule_Trigger_def)

lemma newWebhook_honest: "newWebhook tt hmac decode cfg = Inr (Some t) \<Longrightarrow> honest_trigger tt t"
  by (auto simp: newWebhook_def webhook_Trigger_honest split: sum.splits)

lemma newSchedule_honest: "newSchedule tt pd decode cfg = Inr (Some t) \<Longrightarrow> honest_trigger tt t"
  by (auto simp: newSchedule_def schedule_Trigger_honest split: sum.splits if_splits)

lemma Builtins_honest:
  assumes "Builtins tt hmac pd dw ds = Inr reg" "trigger_Resolve name reg = Inr d"
    "def_New d = Some new" "new cfg = Inr (Some t)"
  shows "honest_trigger tt t"
proof -
  have "d \<in> set (trigger_Definitions tt hmac pd dw ds) \<or> trigger_Resolve name trigger_NewRegistry = Inr d"
    using trigger_registry.build_only assms(1,2)
    unfolding Builtins_def trigger_MustRegister_all_build by blast
  with assms(3,4) show ?thesis
    by (auto simp: trigger_Definitions_def registry_defs newWebhook_honest newSchedule_honest)
qed

lemma Builtins_total: "\<exists>reg. Builtins tt hmac pd dw ds = Inr reg"
  unfolding Builtins_def trigger_MustRegister_all_build
  by (rule trigger_registry.build_succeeds)
    (auto simp: trigger_Definitions_def WebhookName_def ScheduleName_def registry_defs)

text \<open>The response types are exactly the ones \<open>Respond\<close> can write.\<close>

lemma webhook_Respond_bytes:
  "fits tt tBytes v \<or> fits tt tText v \<Longrightarrow>
   \<exists>b. v_ref v \<in> {Some (PBytes b), Some (PText b)} \<and> webhook_Respond v = Returns (Inr b)"
proof -
  assume "fits tt tBytes v \<or> fits tt tText v"
  then obtain p where "v_ref v = Some p" "dyn_type p = tBytes \<or> dyn_type p = tText" "proper p"
    by (auto simp: fits_def)
  then show ?thesis by (cases p) (auto simp: webhook_Respond_def domain_types_def)
qed

end
