(* ===== verification/Config.thy ===== *)
theory Config
  imports Trigger
begin

text \<open>
  A parsed pipeline document (\<^verbatim>\<open>internal/pipeline/config.go\<close>) and what \<open>Parse\<close> checks of it
  (\<^verbatim>\<open>internal/pipeline/parser.go\<close>). An undecoded \<open>with\<close> block is the type parameter \<open>'c\<close>;
  the YAML decoder is an argument of \<open>Parse\<close> and of the two \<open>UnmarshalYAML\<close> methods, which
  see a YAML node as its kind and the outcome of decoding it.
\<close>

section \<open>The document\<close>

definition Version :: int where "Version = 1"
definition MaxRetryAttempts :: int where "MaxRetryAttempts = 100"
definition MaxPipelineBytes :: nat where "MaxPipelineBytes = 1048576"

definition OverlapAllow :: string where "OverlapAllow = ''allow''"
definition OverlapDrop :: string where "OverlapDrop = ''drop''"

record 'c TriggerSpec =
  ts_Uses :: string
  ts_With :: 'c
  ts_Timeout :: duration
  ts_RespondWith :: string
  ts_OnOverlap :: string

record Retry =
  rt_MaxAttempts :: int
  rt_Backoff :: duration

definition DefaultRetry :: Retry where
  "DefaultRetry = \<lparr>rt_MaxAttempts = 1, rt_Backoff = 0\<rparr>"

record Needs =
  nd_order :: "string list"
  nd_byPort :: "string gomap"
  nd_named :: bool

record 'c Step =
  st_Uses :: string
  st_With :: 'c
  st_Needs :: Needs
  st_Retry :: "Retry option"

record 'c File =
  f_Version :: int
  f_Inputs :: "string gomap"
  f_Trigger :: "'c TriggerSpec option"
  f_Steps :: "'c Step gomap"

section \<open>Needs\<close>

datatype yaml_needs =
    SequenceNode "go_error + string list"
  | MappingNode "go_error + string gomap"
  | OtherNode

definition Needs_UnmarshalYAML :: "yaml_needs \<Rightarrow> go_error + Needs" where
  "Needs_UnmarshalYAML y =
     (case y of
        SequenceNode (Inl e) \<Rightarrow> Inl (EWrap (Sprintf ''needs list: %w'' []) e)
      | SequenceNode (Inr xs) \<Rightarrow> Inr \<lparr>nd_order = xs, nd_byPort = [], nd_named = False\<rparr>
      | MappingNode (Inl e) \<Rightarrow> Inl (EWrap (Sprintf ''needs mapping: %w'' []) e)
      | MappingNode (Inr m) \<Rightarrow>
          (case find (\<lambda>k. map_of m k = Some '''') (map fst m) of
             Some port \<Rightarrow> Inl (EFmt (Sprintf ''needs: input %q is bound to nothing'' [AStr port]))
           | None \<Rightarrow> Inr \<lparr>nd_order = [], nd_byPort = m, nd_named = True\<rparr>)
      | OtherNode \<Rightarrow>
          Inl (EFmt (Sprintf ''needs must be a list of steps or a mapping of input name to step'' [])))"

definition Needs_Len :: "Needs \<Rightarrow> nat" where
  "Needs_Len n = (if nd_named n then length (sorted_keys (nd_byPort n)) else length (nd_order n))"

definition Needs_Port :: "Needs \<Rightarrow> string \<Rightarrow> string option" where
  "Needs_Port n name = map_of (nd_byPort n) name"

definition PortNames :: "Needs \<Rightarrow> string list" where
  "PortNames n = sorted_keys (nd_byPort n)"

definition Needs_Steps :: "Needs \<Rightarrow> string list" where
  "Needs_Steps n =
     (if \<not> nd_named n then nd_order n
      else map (\<lambda>name. case map_of (nd_byPort n) name of Some s \<Rightarrow> s | None \<Rightarrow> '''') (PortNames n))"

definition zero_needs :: Needs where
  "zero_needs = \<lparr>nd_order = [], nd_byPort = [], nd_named = False\<rparr>"

section \<open>Durations\<close>

definition Duration_UnmarshalYAML ::
  "(string \<Rightarrow> go_error + duration) \<Rightarrow> go_error + string \<Rightarrow> go_error + duration" where
  "Duration_UnmarshalYAML ParseDuration y =
     (case y of
        Inl e \<Rightarrow> Inl (EWrap (Sprintf ''expected a duration string such as \"250ms\": %w'' []) e)
      | Inr s \<Rightarrow>
          (case ParseDuration s of
             Inl e \<Rightarrow> Inl (EWrap (Sprintf ''invalid duration %q: %w'' [AStr s]) e)
           | Inr parsed \<Rightarrow>
               if sint parsed < 0 then Inl (EFmt (Sprintf ''duration %q is negative'' [AStr s]))
               else Inr parsed))"

section \<open>Validation\<close>

definition InputNames_of :: "'c File \<Rightarrow> string list" where
  "InputNames_of f = sorted_keys (f_Inputs f)"

definition StepIDs :: "'c File \<Rightarrow> string list" where
  "StepIDs f = sorted_keys (f_Steps f)"

definition RetryPolicy :: "'c Step \<Rightarrow> Retry" where
  "RetryPolicy s = (case st_Retry s of None \<Rightarrow> DefaultRetry | Some r \<Rightarrow> r)"

text \<open>A validation loop returns at its first error.\<close>

fun first_error :: "('a \<Rightarrow> 'e option) \<Rightarrow> 'a list \<Rightarrow> 'e option" where
  "first_error check [] = None"
| "first_error check (x # xs) = (case check x of Some e \<Rightarrow> Some e | None \<Rightarrow> first_error check xs)"

abbreviation errorf :: "string \<Rightarrow> farg list \<Rightarrow> go_error option" where
  "errorf format args \<equiv> Some (EFmt (Sprintf format args))"

definition validate_input :: "'c File \<Rightarrow> string \<Rightarrow> go_error option" where
  "validate_input f name =
     (if map_of (f_Inputs f) name = Some '''' then errorf ''input %q: missing type'' [AStr name]
      else if map_of (f_Steps f) name \<noteq> None
      then errorf ''input %q collides with the step of the same name'' [AStr name]
      else None)"

definition validate_trigger :: "'c TriggerSpec option \<Rightarrow> go_error option" where
  "validate_trigger ts =
     (case ts of
        None \<Rightarrow> None
      | Some t \<Rightarrow>
          if ts_Uses t = '''' then errorf ''trigger: missing uses'' []
          else if ts_OnOverlap t \<notin> {'''', OverlapAllow, OverlapDrop}
          then errorf ''trigger: unknown on_overlap %q (accepted: %s, %s)''
                 [AStr (ts_OnOverlap t), AStr OverlapAllow, AStr OverlapDrop]
          else None)"

definition validate_step :: "'c File \<Rightarrow> string \<Rightarrow> go_error option" where
  "validate_step f sid =
     (case map_of (f_Steps f) sid of
        None \<Rightarrow> None
      | Some step \<Rightarrow>
          if st_Uses step = '''' then errorf ''step %q: missing uses'' [AStr sid]
          else
            (case (case st_Retry step of
                     None \<Rightarrow> None
                   | Some r \<Rightarrow>
                       if rt_MaxAttempts r < 1
                       then errorf ''step %q: retry.max_attempts must be at least 1, got %d''
                              [AStr sid, AInt (rt_MaxAttempts r)]
                       else if rt_MaxAttempts r > MaxRetryAttempts
                       then errorf ''step %q: retry.max_attempts must be at most %d, got %d''
                              [AStr sid, AInt MaxRetryAttempts, AInt (rt_MaxAttempts r)]
                       else None) of
               Some e \<Rightarrow> Some e
             | None \<Rightarrow>
                 if sid \<in> set (Needs_Steps (st_Needs step))
                 then errorf ''step %q needs itself'' [AStr sid]
                 else None))"

definition validate :: "'c File \<Rightarrow> go_error option" where
  "validate f =
     (if f_Version f = 0 then errorf ''missing version (expected %d)'' [AInt Version]
      else if f_Version f \<noteq> Version
      then errorf ''unsupported version %d (this build understands %d)'' [AInt (f_Version f), AInt Version]
      else if f_Steps f = [] then errorf ''pipeline has no steps'' []
      else (case first_error (validate_input f) (InputNames_of f) of
              Some e \<Rightarrow> Some e
            | None \<Rightarrow>
                (case validate_trigger (f_Trigger f) of
                   Some e \<Rightarrow> Some e
                 | None \<Rightarrow> first_error (validate_step f) (StepIDs f))))"

text \<open>
  \<open>decode\<close> is the strict YAML decoder: \<open>Inl None\<close> is the end of an empty document.
  \<open>input\<close> is what the reader delivers.
\<close>

definition Parse :: "(bytes \<Rightarrow> go_error option + 'c File) \<Rightarrow> go_error + bytes \<Rightarrow> go_error + 'c File" where
  "Parse decode input =
     (case input of
        Inl err \<Rightarrow> Inl (EWrap (Sprintf ''reading pipeline: %w'' []) err)
      | Inr stream \<Rightarrow>
          let data = take (MaxPipelineBytes + 1) stream in
          if length data > MaxPipelineBytes
          then Inl (EFmt (Sprintf ''pipeline is larger than %d bytes'' [AInt (int MaxPipelineBytes)]))
          else
            (case decode data of
               Inl None \<Rightarrow> Inl (EFmt (Sprintf ''pipeline is empty'' []))
             | Inl (Some err) \<Rightarrow> Inl (EWrap (Sprintf ''invalid pipeline: %w'' []) err)
             | Inr f \<Rightarrow> (case validate f of Some e \<Rightarrow> Inl e | None \<Rightarrow> Inr f)))"

section \<open>What an accepted document satisfies\<close>

lemma first_error_None_iff: "first_error check xs = None \<longleftrightarrow> (\<forall>x\<in>set xs. check x = None)"
  by (induction xs) (auto split: option.splits)

text \<open>
  The schema of a document that \<open>Parse\<close> returned: the version, one namespace for inputs and
  steps, a type for every input, a usable trigger block, and a bounded retry policy and no
  self-loop for every step.
\<close>

definition valid_step :: "string \<Rightarrow> 'c Step \<Rightarrow> bool" where
  "valid_step sid step \<longleftrightarrow>
     st_Uses step \<noteq> '''' \<and> 1 \<le> rt_MaxAttempts (RetryPolicy step) \<and>
     rt_MaxAttempts (RetryPolicy step) \<le> MaxRetryAttempts \<and> sid \<notin> set (Needs_Steps (st_Needs step))"

definition valid_file :: "'c File \<Rightarrow> bool" where
  "valid_file f \<longleftrightarrow>
     f_Version f = Version \<and> f_Steps f \<noteq> [] \<and>
     (\<forall>name ty. map_of (f_Inputs f) name = Some ty \<longrightarrow> ty \<noteq> '''' \<and> map_of (f_Steps f) name = None) \<and>
     (\<forall>t. f_Trigger f = Some t \<longrightarrow>
        ts_Uses t \<noteq> '''' \<and> ts_OnOverlap t \<in> {'''', OverlapAllow, OverlapDrop}) \<and>
     (\<forall>sid step. map_of (f_Steps f) sid = Some step \<longrightarrow>
        valid_step sid step)"

lemma validate_input_None_iff:
  "validate_input f name = None \<longleftrightarrow>
   map_of (f_Inputs f) name \<noteq> Some '''' \<and> map_of (f_Steps f) name = None"
  by (simp add: validate_input_def)

lemma validate_trigger_None_iff:
  "validate_trigger ts = None \<longleftrightarrow>
   (\<forall>t. ts = Some t \<longrightarrow> ts_Uses t \<noteq> '''' \<and> ts_OnOverlap t \<in> {'''', OverlapAllow, OverlapDrop})"
  by (auto simp: validate_trigger_def split: option.splits)

lemma validate_step_None_iff:
  "map_of (f_Steps f) sid = Some step \<Longrightarrow> validate_step f sid = None \<longleftrightarrow> valid_step sid step"
  by (auto simp: validate_step_def valid_step_def RetryPolicy_def DefaultRetry_def MaxRetryAttempts_def
      split: option.splits)

lemma or_else_None_iff: "(case x of None \<Rightarrow> y | Some e \<Rightarrow> Some e) = None \<longleftrightarrow> x = None \<and> y = None"
  by (cases x) auto

lemma validate_None_iff: "validate f = None \<longleftrightarrow> valid_file f"
proof -
  have inputs: "(\<forall>name\<in>set (InputNames_of f). validate_input f name = None) \<longleftrightarrow>
      (\<forall>name ty. map_of (f_Inputs f) name = Some ty \<longrightarrow> ty \<noteq> '''' \<and> map_of (f_Steps f) name = None)"
    by (auto simp: InputNames_of_def validate_input_None_iff)
  have steps: "(\<forall>sid\<in>set (StepIDs f). validate_step f sid = None) \<longleftrightarrow>
      (\<forall>sid step. map_of (f_Steps f) sid = Some step \<longrightarrow> valid_step sid step)"
    by (auto simp: StepIDs_def validate_step_None_iff dom_def)
  show ?thesis
    unfolding validate_def valid_file_def
    by (simp add: or_else_None_iff first_error_None_iff inputs steps validate_trigger_None_iff Version_def)
qed

lemma Parse_valid: "Parse decode input = Inr f \<Longrightarrow> valid_file f"
  by (auto simp: Parse_def Let_def validate_None_iff split: sum.splits option.splits if_splits)

text \<open>A document over the size limit is an error, never a shorter document.\<close>

lemma Parse_whole:
  "Parse decode (Inr stream) = Inr f \<Longrightarrow> decode stream = Inr f \<and> length stream \<le> MaxPipelineBytes"
  by (auto simp: Parse_def Let_def min_def split: sum.splits option.splits if_splits)

lemma set_Needs_Steps_named:
  "nd_named n \<Longrightarrow> set (Needs_Steps n) = ran (map_of (nd_byPort n))"
  by (force simp: Needs_Steps_def PortNames_def ran_def)

lemma length_Needs_Steps: "length (Needs_Steps n) = Needs_Len n"
  by (simp add: Needs_Steps_def Needs_Len_def PortNames_def)

end
