(* ===== verification/Compiler.thy ===== *)
theory Compiler
  imports Config
begin

text \<open>
  The pipeline compiler (\<^verbatim>\<open>internal/pipeline/compiler.go\<close>) and the plan it produces
  (\<^verbatim>\<open>internal/pipeline/plan.go\<close>): the data, the phases in the order \<open>Compile\<close> runs them,
  and \<open>Compile\<close> itself. The proofs are in the theories \<open>Cycles\<close> and \<open>Plan\<close>.

  The compiler struct is a record threaded through the phases. A loop whose iterations do
  not depend on each other is a map over the indices, returning the problems each
  iteration reports and the value it stores. The depth-first search of \<open>checkCycles\<close> is
  recursive in the source; here it carries fuel, and running out is a result of its own.
\<close>

section \<open>Plans\<close>

record 'w CompiledStep =
  cs_ID :: string
  cs_Node :: "'w RuntimeNode option"
  cs_Deps :: "nat list"
  cs_Dependents :: "nat list"
  cs_InputOffset :: nat
  cs_Retry :: Retry

definition IsInput :: "'w CompiledStep \<Rightarrow> bool" where
  "IsInput s \<longleftrightarrow> cs_Node s = None"

record PlanInput =
  pi_Name :: string
  pi_Type :: TypeID
  pi_Step :: nat

record TriggerBinding =
  tb_Uses :: string
  tb_Trigger :: Trigger
  tb_RespondStep :: int
  tb_Timeout :: duration
  tb_Overlap :: string

record 'w ExecutionPlan =
  p_Name :: string
  p_Steps :: "'w CompiledStep list"
  p_Inputs :: "PlanInput list"
  p_Trigger :: "TriggerBinding option"
  p_Roots :: "nat list"
  p_TotalInputs :: nat

definition Plan_Len :: "'w ExecutionPlan \<Rightarrow> nat" where
  "Plan_Len p = length (p_Steps p)"

fun step_index_from :: "nat \<Rightarrow> string \<Rightarrow> 'w CompiledStep list \<Rightarrow> nat option" where
  "step_index_from i sid [] = None"
| "step_index_from i sid (s # ss) = (if cs_ID s = sid then Some i else step_index_from (Suc i) sid ss)"

definition StepIndex :: "'w ExecutionPlan \<Rightarrow> string \<Rightarrow> nat option" where
  "StepIndex p sid = step_index_from 0 sid (p_Steps p)"

section \<open>The compiler's state\<close>

record Problem =
  pr_Step :: string
  pr_Message :: message

record ('c, 'w) Registries =
  rg_Nodes :: "('c, 'w) NodeNew Registry option"
  rg_Triggers :: "'c TriggerNew Registry option"

definition withDefaults :: "('c, 'w) Registries \<Rightarrow> ('c, 'w) Registries" where
  "withDefaults r =
     r\<lparr>rg_Nodes := Some (case rg_Nodes r of None \<Rightarrow> NewRegistry | Some n \<Rightarrow> n),
       rg_Triggers := Some (case rg_Triggers r of None \<Rightarrow> trigger_NewRegistry | Some t \<Rightarrow> t)\<rparr>"

record ('c, 'w) compiler =
  c_file :: "'c File"
  c_nodeReg :: "('c, 'w) NodeNew Registry"
  c_triggerReg :: "'c TriggerNew Registry"
  c_types :: type_table
  c_ids :: "string list"
  c_index :: "nat gomap"
  c_trigger :: "TriggerBinding option"
  c_inputs :: "string list"
  c_inputTypes :: "TypeID list"
  c_nodes :: "'w RuntimeNode option list"
  c_deps :: "nat list list"
  c_problems :: "Problem list"

definition problem :: "string \<Rightarrow> string \<Rightarrow> farg list \<Rightarrow> Problem" where
  "problem step format args = \<lparr>pr_Step = step, pr_Message = Sprintf format args\<rparr>"

definition fail_all :: "Problem list \<Rightarrow> ('c, 'w) compiler \<Rightarrow> ('c, 'w) compiler" where
  "fail_all ps c = c\<lparr>c_problems := c_problems c @ ps\<rparr>"

definition isInput :: "('c, 'w) compiler \<Rightarrow> nat \<Rightarrow> bool" where
  "isInput c i \<longleftrightarrow> i < length (c_inputs c)"

definition outputType :: "('c, 'w) compiler \<Rightarrow> nat \<Rightarrow> TypeID" where
  "outputType c i =
     (if isInput c i then c_inputTypes c ! i
      else (case c_nodes c ! i of None \<Rightarrow> '''' | Some n \<Rightarrow> pd_Type (d_Output (rn_Descriptor n))))"

text \<open>\<open>c.file.Steps[id].Needs.Steps()\<close>, which is empty for an id that is not a step.\<close>

definition needs_of :: "'c File \<Rightarrow> string \<Rightarrow> string list" where
  "needs_of f sid = (case map_of (f_Steps f) sid of None \<Rightarrow> [] | Some s \<Rightarrow> Needs_Steps (st_Needs s))"

definition index_of :: "('c, 'w) compiler \<Rightarrow> string \<Rightarrow> nat" where
  "index_of c dep = (case map_of (c_index c) dep of None \<Rightarrow> 0 | Some j \<Rightarrow> j)"

section \<open>Inputs and nodes\<close>

definition resolveInput :: "('c, 'w) compiler \<Rightarrow> string \<Rightarrow> Problem list \<times> TypeID" where
  "resolveInput c name =
     (let declared = (case map_of (f_Inputs (c_file c)) name of None \<Rightarrow> '''' | Some t \<Rightarrow> t) in
      if LookupType (c_types c) declared = None
      then ([problem '''' ''input %q declares type %q, which is not a registered type''
               [AStr name, AStr declared]], '''')
      else ([], declared))"

definition resolveInputs :: "('c, 'w) compiler \<Rightarrow> ('c, 'w) compiler" where
  "resolveInputs c =
     (let rs = map (resolveInput c) (c_inputs c)
      in fail_all (concat (map fst rs)) (c\<lparr>c_inputTypes := map snd rs\<rparr>))"

text \<open>Calling a constructor; \<open>Register\<close> admits no definition without one.\<close>

definition call_New :: "'n Definition \<Rightarrow> ('n \<Rightarrow> go_error + 'b) \<Rightarrow> go_error + 'b" where
  "call_New d app =
     (case def_New d of None \<Rightarrow> Inl (EFmt (Sprintf ''nil constructor'' [])) | Some new \<Rightarrow> app new)"

definition resolveStep :: "('c, 'w) compiler \<Rightarrow> string \<Rightarrow> Problem list \<times> 'w RuntimeNode option" where
  "resolveStep c sid =
     (case map_of (f_Steps (c_file c)) sid of
        None \<Rightarrow> ([], None)
      | Some step \<Rightarrow>
          (case Resolve (st_Uses step) (c_nodeReg c) of
             Inl err \<Rightarrow> ([problem sid ''%v'' [AErr err]], None)
           | Inr def \<Rightarrow>
               (case call_New def (\<lambda>new. new (st_With step)) of
                  Inl err \<Rightarrow> ([problem sid ''invalid configuration for %q: %v'' [AStr (st_Uses step), AErr err]], None)
                | Inr None \<Rightarrow> ([problem sid ''node %q built nothing'' [AStr (st_Uses step)]], None)
                | Inr (Some n) \<Rightarrow> ([], Some n))))"

definition resolve :: "('c, 'w) compiler \<Rightarrow> ('c, 'w) compiler" where
  "resolve c =
     (let rs = map (\<lambda>i. if isInput c i then ([], None) else resolveStep c (c_ids c ! i)) [0..<length (c_ids c)]
      in fail_all (concat (map fst rs)) (c\<lparr>c_nodes := map snd rs\<rparr>))"

definition checkDependencies :: "('c, 'w) compiler \<Rightarrow> ('c, 'w) compiler" where
  "checkDependencies c =
     fail_all
       (concat (map (\<lambda>sid. concat (map (\<lambda>dep.
            if map_of (c_index c) dep = None
            then [problem sid ''needs %q, which is not a step in this pipeline'' [AStr dep]] else [])
          (needs_of (c_file c) sid))) (c_ids c))) c"

section \<open>Cycles\<close>

datatype color = White | Grey | Black

record dfs =
  df_color :: "color list"
  df_path :: "nat list"

datatype visit_result = Done dfs | Cycle "nat list" nat | OutOfFuel

text \<open>
  \<open>visit\<close> and its loop over the dependencies. \<open>succs\<close> lists the indices of the dependencies
  that resolve, which are the ones the loop does not skip.
\<close>

function visit :: "nat \<Rightarrow> (nat \<Rightarrow> nat list) \<Rightarrow> nat \<Rightarrow> dfs \<Rightarrow> visit_result"
  and visit_deps :: "nat \<Rightarrow> (nat \<Rightarrow> nat list) \<Rightarrow> nat list \<Rightarrow> dfs \<Rightarrow> visit_result" where
  "visit 0 succs i st = OutOfFuel"
| "visit (Suc fuel) succs i st =
     (case visit_deps fuel succs (succs i)
             (st\<lparr>df_color := (df_color st)[i := Grey], df_path := df_path st @ [i]\<rparr>) of
        Done st' \<Rightarrow> Done (st'\<lparr>df_path := butlast (df_path st'), df_color := (df_color st')[i := Black]\<rparr>)
      | r \<Rightarrow> r)"
| "visit_deps fuel succs [] st = Done st"
| "visit_deps fuel succs (j # js) st =
     (case df_color st ! j of
        Grey \<Rightarrow> Cycle (df_path st) j
      | White \<Rightarrow> (case visit fuel succs j st of Done st' \<Rightarrow> visit_deps fuel succs js st' | r \<Rightarrow> r)
      | Black \<Rightarrow> visit_deps fuel succs js st)"
  by pat_completeness auto
termination
  by (relation "measures [\<lambda>x. case x of Inl (fuel, _) \<Rightarrow> fuel | Inr (fuel, _) \<Rightarrow> fuel,
        \<lambda>x. case x of Inl _ \<Rightarrow> 0 | Inr (_, _, js, _) \<Rightarrow> Suc (length js)]") auto

fun visit_all :: "nat \<Rightarrow> (nat \<Rightarrow> nat list) \<Rightarrow> nat list \<Rightarrow> dfs \<Rightarrow> visit_result" where
  "visit_all fuel succs [] st = Done st"
| "visit_all fuel succs (i # is) st =
     (if df_color st ! i = White
      then (case visit fuel succs i st of Done st' \<Rightarrow> visit_all fuel succs is st' | r \<Rightarrow> r)
      else visit_all fuel succs is st)"

definition succs_of :: "('c, 'w) compiler \<Rightarrow> nat \<Rightarrow> nat list" where
  "succs_of c i = List.map_filter (\<lambda>dep. map_of (c_index c) dep) (needs_of (c_file c) (c_ids c ! i))"

definition search :: "('c, 'w) compiler \<Rightarrow> visit_result" where
  "search c = (let n = length (c_ids c) in
     visit_all (Suc n) (succs_of c) [0..<n] \<lparr>df_color = replicate n White, df_path = []\<rparr>)"

text \<open>The suffix of the path from the first occurrence of \<open>back\<close>; the whole path if there is none.\<close>

definition cycle_from :: "nat list \<Rightarrow> nat \<Rightarrow> nat list" where
  "cycle_from path back = (if back \<in> set path then dropWhile (\<lambda>i. i \<noteq> back) path else path) @ [back]"

definition reportCycle :: "('c, 'w) compiler \<Rightarrow> nat list \<Rightarrow> nat \<Rightarrow> Problem" where
  "reportCycle c path back =
     problem '''' ''dependency cycle: %s'' [AQuoted (map (\<lambda>i. c_ids c ! i) (cycle_from path back))]"

definition checkCycles :: "('c, 'w) compiler \<Rightarrow> ('c, 'w) compiler" where
  "checkCycles c =
     (case search c of
        Cycle path back \<Rightarrow> fail_all [reportCycle c path back] c
      | _ \<Rightarrow> c)"

section \<open>Edges\<close>

definition dependenciesResolve :: "('c, 'w) compiler \<Rightarrow> 'c Step \<Rightarrow> bool" where
  "dependenciesResolve c step \<longleftrightarrow> (\<forall>dep\<in>set (Needs_Steps (st_Needs step)). map_of (c_index c) dep \<noteq> None)"

definition resolveNamedNeeds ::
  "('c, 'w) compiler \<Rightarrow> string \<Rightarrow> 'c Step \<Rightarrow> Descriptor \<Rightarrow> Problem list \<times> nat list option" where
  "resolveNamedNeeds c sid step desc =
     (let unbound = concat (map (\<lambda>p. if Needs_Port (st_Needs step) (pd_Name p) = None
            then [problem sid ''input %q of node %q is not bound by needs (inputs: %s)''
                    [AStr (pd_Name p), AStr (st_Uses step), InputNames desc]] else []) (d_Inputs desc));
          bound = filter (\<lambda>name. Needs_Port (st_Needs step) name \<noteq> None) (map pd_Name (d_Inputs desc));
          unknown = concat (map (\<lambda>name. if name \<notin> set bound
            then [problem sid ''needs binds %q, but node %q has no such input (inputs: %s)''
                    [AStr name, AStr (st_Uses step), InputNames desc]] else []) (PortNames (st_Needs step)));
          deps = map (\<lambda>p. case Needs_Port (st_Needs step) (pd_Name p) of
                            None \<Rightarrow> 0 | Some dep \<Rightarrow> index_of c dep) (d_Inputs desc)
      in (unbound @ unknown, if unbound @ unknown = [] then Some deps else None))"

definition resolveNeeds ::
  "('c, 'w) compiler \<Rightarrow> string \<Rightarrow> 'c Step \<Rightarrow> Descriptor \<Rightarrow> Problem list \<times> nat list option" where
  "resolveNeeds c sid step desc =
     (if nd_named (st_Needs step) then resolveNamedNeeds c sid step desc
      else
        (case AmbiguousInputs desc of
           Some (ty, names) \<Rightarrow>
             ([problem sid ''node %q has inputs of identical type %s (%s), so a positional swap would type check: bind needs by name instead''
                 [AStr (st_Uses step), AStr ty, AQuoted names]], None)
         | None \<Rightarrow>
             let needs = nd_order (st_Needs step) in
             if length needs \<noteq> Arity desc
             then ([problem sid ''node %q expects %d input(s) %s but needs lists %d''
                      [AStr (st_Uses step), AInt (int (Arity desc)), AStr (InputTypes desc), AInt (int (length needs))]], None)
             else ([], Some (map (index_of c) needs))))"

definition checkPort ::
  "('c, 'w) compiler \<Rightarrow> string \<Rightarrow> Descriptor \<Rightarrow> nat \<Rightarrow> nat \<Rightarrow> Problem list" where
  "checkPort c sid desc port dep =
     (let want = pd_Type (d_Inputs desc ! port); got = outputType c dep in
      if got = '''' then []
      else if want \<noteq> got
      then (if isInput c dep
            then [problem sid ''input %q expects %s but pipeline input %q supplies %s''
                    [AStr (pd_Name (d_Inputs desc ! port)), AStr want, AStr (c_ids c ! dep), AStr got]]
            else [problem sid ''input %q expects %s but step %q produces %s''
                    [AStr (pd_Name (d_Inputs desc ! port)), AStr want, AStr (c_ids c ! dep), AStr got]])
      else [])"

definition checkStepEdges :: "('c, 'w) compiler \<Rightarrow> nat \<Rightarrow> Problem list \<times> nat list" where
  "checkStepEdges c i =
     (if isInput c i then ([], [])
      else
        (case (map_of (f_Steps (c_file c)) (c_ids c ! i), c_nodes c ! i) of
           (Some step, Some n) \<Rightarrow>
             if \<not> dependenciesResolve c step then ([], [])
             else
               (case resolveNeeds c (c_ids c ! i) step (rn_Descriptor n) of
                  (ps, None) \<Rightarrow> (ps, [])
                | (ps, Some deps) \<Rightarrow>
                    (ps @ concat (map (\<lambda>(port, dep). checkPort c (c_ids c ! i) (rn_Descriptor n) port dep)
                                    (enumerate 0 deps)), deps))
         | _ \<Rightarrow> ([], [])))"

definition checkEdges :: "('c, 'w) compiler \<Rightarrow> ('c, 'w) compiler" where
  "checkEdges c =
     (let rs = map (checkStepEdges c) [0..<length (c_ids c)]
      in fail_all (concat (map fst rs)) (c\<lparr>c_deps := map snd rs\<rparr>))"

section \<open>The trigger block\<close>

definition OverlapDefault :: "Trigger \<Rightarrow> string" where
  "OverlapDefault t = (if tr_HTTPDriven t \<noteq> None then OverlapAllow else OverlapDrop)"

definition resolveRespondWith ::
  "('c, 'w) compiler \<Rightarrow> 'c TriggerSpec \<Rightarrow> HTTPDriven option \<Rightarrow> Problem list \<times> int" where
  "resolveRespondWith c spec answering =
     (if ts_RespondWith spec = '''' then ([], -1)
      else
        (case answering of
           None \<Rightarrow> ([problem '''' ''trigger: respond_with is set, but %q has nobody to answer'' [AStr (ts_Uses spec)]], -1)
         | Some h \<Rightarrow>
             (case map_of (c_index c) (ts_RespondWith spec) of
                None \<Rightarrow> ([problem '''' ''trigger: respond_with names %q, which is not a step in this pipeline''
                           [AStr (ts_RespondWith spec)]], -1)
              | Some i \<Rightarrow>
                  if isInput c i
                  then ([problem '''' ''trigger: respond_with names %q, which is an input rather than a step''
                           [AStr (ts_RespondWith spec)]], -1)
                  else
                    let got = outputType c i in
                    if got = '''' then ([], -1)
                    else if got \<notin> set (ht_ResponseTypes h)
                    then ([problem '''' ''trigger: respond_with names %q, which produces %s; %q can answer with %s''
                             [AStr (ts_RespondWith spec), AStr got, AStr (ts_Uses spec),
                              AStr (join '' or '' (ht_ResponseTypes h))]], -1)
                    else ([], int i))))"

definition checkSupplied :: "('c, 'w) compiler \<Rightarrow> 'c TriggerSpec \<Rightarrow> TriggerDescriptor \<Rightarrow> nat \<Rightarrow> Problem list" where
  "checkSupplied c spec desc i =
     (let name = c_inputs c ! i; declared = c_inputTypes c ! i in
      if declared = '''' then []
      else (case Provided desc name of
              None \<Rightarrow> [problem '''' ''trigger: input %q is not supplied by %q (it supplies: %s)''
                         [AStr name, AStr (ts_Uses spec), AStrs (map pd_Name (td_Provides desc))]]
            | Some provided \<Rightarrow>
                if provided \<noteq> declared
                then [problem '''' ''trigger: input %q is declared %s but %q supplies it as %s''
                        [AStr name, AStr declared, AStr (ts_Uses spec), AStr provided]]
                else []))"

definition resolveTrigger :: "('c, 'w) compiler \<Rightarrow> ('c, 'w) compiler" where
  "resolveTrigger c =
     (case f_Trigger (c_file c) of
        None \<Rightarrow> c
      | Some spec \<Rightarrow>
          (case trigger_Resolve (ts_Uses spec) (c_triggerReg c) of
             Inl err \<Rightarrow> fail_all [problem '''' ''trigger: %v'' [AErr err]] c
           | Inr def \<Rightarrow>
               (case call_New def (\<lambda>new. new (ts_With spec)) of
                  Inl err \<Rightarrow> fail_all [problem '''' ''trigger: invalid configuration for %q: %v''
                                         [AStr (ts_Uses spec), AErr err]] c
                | Inr None \<Rightarrow> fail_all [problem '''' ''trigger: %q built nothing'' [AStr (ts_Uses spec)]] c
                | Inr (Some built) \<Rightarrow>
                    let supplied = concat (map (checkSupplied c spec (tr_Descriptor built)) [0..<length (c_inputs c)]);
                        unbounded = (if tr_HTTPDriven built \<noteq> None \<and> sint (ts_Timeout spec) \<le> 0
                          then [problem '''' ''trigger: %q needs a timeout, because a caller waits for the run to finish''
                                  [AStr (ts_Uses spec)]] else []);
                        overlap = (if ts_OnOverlap spec = '''' then OverlapDefault built else ts_OnOverlap spec);
                        respond = resolveRespondWith c spec (tr_HTTPDriven built)
                    in (fail_all (supplied @ unbounded @ fst respond) c)
                         \<lparr>c_trigger := Some \<lparr>tb_Uses = ts_Uses spec, tb_Trigger = built,
                            tb_RespondStep = snd respond, tb_Timeout = ts_Timeout spec,
                            tb_Overlap = overlap\<rparr>\<rparr>)))"

section \<open>Building the plan\<close>

definition plan_step :: "('c, 'w) compiler \<Rightarrow> nat \<Rightarrow> 'w ExecutionPlan \<Rightarrow> 'w ExecutionPlan" where
  "plan_step c i p =
     (if isInput c i
      then p\<lparr>p_Steps := p_Steps p @ [\<lparr>cs_ID = c_ids c ! i, cs_Node = None, cs_Deps = [], cs_Dependents = [],
                                      cs_InputOffset = p_TotalInputs p, cs_Retry = DefaultRetry\<rparr>],
             p_Inputs := p_Inputs p @ [\<lparr>pi_Name = c_ids c ! i, pi_Type = c_inputTypes c ! i, pi_Step = i\<rparr>]\<rparr>
      else
        let deps = c_deps c ! i in
        p\<lparr>p_Steps := p_Steps p @ [\<lparr>cs_ID = c_ids c ! i, cs_Node = c_nodes c ! i, cs_Deps = deps, cs_Dependents = [],
                                    cs_InputOffset = p_TotalInputs p,
                                    cs_Retry = (case map_of (f_Steps (c_file c)) (c_ids c ! i) of
                                                  None \<Rightarrow> DefaultRetry | Some s \<Rightarrow> RetryPolicy s)\<rparr>],
          p_TotalInputs := p_TotalInputs p + length deps,
          p_Roots := (if length deps = 0 then p_Roots p @ [i] else p_Roots p)\<rparr>)"

definition add_dependent :: "nat \<Rightarrow> nat \<Rightarrow> 'w CompiledStep list \<Rightarrow> 'w CompiledStep list" where
  "add_dependent i dep ss = ss[dep := (ss ! dep)\<lparr>cs_Dependents := cs_Dependents (ss ! dep) @ [i]\<rparr>]"

definition link_step :: "nat \<Rightarrow> 'w CompiledStep list \<Rightarrow> 'w CompiledStep list" where
  "link_step i ss = fold (add_dependent i) (cs_Deps (ss ! i)) ss"

definition plan :: "string \<Rightarrow> ('c, 'w) compiler \<Rightarrow> 'w ExecutionPlan" where
  "plan name c =
     (let p0 = \<lparr>p_Name = name, p_Steps = [], p_Inputs = [], p_Trigger = c_trigger c, p_Roots = [], p_TotalInputs = 0\<rparr>;
          p = fold (plan_step c) [0..<length (c_ids c)] p0
      in p\<lparr>p_Steps := fold link_step [0..<length (p_Steps p)] (p_Steps p)\<rparr>)"

section \<open>Compile\<close>

definition new_compiler ::
  "type_table \<Rightarrow> 'c File \<Rightarrow> ('c, 'w) Registries \<Rightarrow> ('c, 'w) compiler" where
  "new_compiler tt f reg =
     (let r = withDefaults reg; inputs = InputNames_of f; ids = inputs @ StepIDs f
      in \<lparr>c_file = f, c_nodeReg = the (rg_Nodes r), c_triggerReg = the (rg_Triggers r), c_types = tt,
          c_ids = ids, c_index = fold (\<lambda>(i, sid) m. put sid i m) (enumerate 0 ids) [],
          c_trigger = None, c_inputs = inputs, c_inputTypes = [], c_nodes = [], c_deps = [],
          c_problems = []\<rparr>)"

definition compile_phases :: "('c, 'w) compiler \<Rightarrow> ('c, 'w) compiler" where
  "compile_phases c =
     resolveTrigger (checkEdges (checkCycles (checkDependencies (resolve (resolveInputs c)))))"

definition Compile ::
  "type_table \<Rightarrow> 'c File \<Rightarrow> ('c, 'w) Registries \<Rightarrow> string \<Rightarrow> Problem list + 'w ExecutionPlan" where
  "Compile tt f reg name =
     (let c = compile_phases (new_compiler tt f reg)
      in if length (c_problems c) > 0 then Inl (c_problems c) else Inr (plan name c))"

section \<open>What the phases keep\<close>

text \<open>
  No phase touches the file, the index space or the registries, and each of the four arrays
  is written by exactly one phase. The rules are collected in \<open>compiler_simps\<close>.
\<close>

lemma fail_all_fields [compiler_simps]:
  "c_file (fail_all ps c) = c_file c" "c_types (fail_all ps c) = c_types c"
  "c_nodeReg (fail_all ps c) = c_nodeReg c" "c_triggerReg (fail_all ps c) = c_triggerReg c"
  "c_ids (fail_all ps c) = c_ids c" "c_index (fail_all ps c) = c_index c"
  "c_trigger (fail_all ps c) = c_trigger c" "c_inputs (fail_all ps c) = c_inputs c"
  "c_inputTypes (fail_all ps c) = c_inputTypes c" "c_nodes (fail_all ps c) = c_nodes c"
  "c_deps (fail_all ps c) = c_deps c" "c_problems (fail_all ps c) = c_problems c @ ps"
  by (simp_all add: fail_all_def)

lemma resolveInputs_fields [compiler_simps]:
  "c_file (resolveInputs c) = c_file c" "c_types (resolveInputs c) = c_types c"
  "c_nodeReg (resolveInputs c) = c_nodeReg c" "c_triggerReg (resolveInputs c) = c_triggerReg c"
  "c_ids (resolveInputs c) = c_ids c" "c_index (resolveInputs c) = c_index c"
  "c_trigger (resolveInputs c) = c_trigger c" "c_inputs (resolveInputs c) = c_inputs c"
  "c_nodes (resolveInputs c) = c_nodes c" "c_deps (resolveInputs c) = c_deps c"
  "c_inputTypes (resolveInputs c) = map (snd \<circ> resolveInput c) (c_inputs c)"
  "c_problems (resolveInputs c) = c_problems c @ concat (map (fst \<circ> resolveInput c) (c_inputs c))"
  by (simp_all add: resolveInputs_def fail_all_def)

definition built :: "('c, 'w) compiler \<Rightarrow> nat \<Rightarrow> Problem list \<times> 'w RuntimeNode option" where
  "built c i = (if isInput c i then ([], None) else resolveStep c (c_ids c ! i))"

lemma resolve_fields [compiler_simps]:
  "c_file (resolve c) = c_file c" "c_types (resolve c) = c_types c"
  "c_nodeReg (resolve c) = c_nodeReg c" "c_triggerReg (resolve c) = c_triggerReg c"
  "c_ids (resolve c) = c_ids c" "c_index (resolve c) = c_index c"
  "c_trigger (resolve c) = c_trigger c" "c_inputs (resolve c) = c_inputs c"
  "c_inputTypes (resolve c) = c_inputTypes c" "c_deps (resolve c) = c_deps c"
  "c_nodes (resolve c) = map (snd \<circ> built c) [0..<length (c_ids c)]"
  "c_problems (resolve c) = c_problems c @ concat (map (fst \<circ> built c) [0..<length (c_ids c)])"
  by (simp_all add: resolve_def fail_all_def built_def comp_def)

lemma checkDependencies_fields [compiler_simps]:
  "c_file (checkDependencies c) = c_file c" "c_types (checkDependencies c) = c_types c"
  "c_nodeReg (checkDependencies c) = c_nodeReg c" "c_triggerReg (checkDependencies c) = c_triggerReg c"
  "c_ids (checkDependencies c) = c_ids c" "c_index (checkDependencies c) = c_index c"
  "c_trigger (checkDependencies c) = c_trigger c" "c_inputs (checkDependencies c) = c_inputs c"
  "c_inputTypes (checkDependencies c) = c_inputTypes c" "c_deps (checkDependencies c) = c_deps c"
  "c_nodes (checkDependencies c) = c_nodes c"
  by (simp_all add: checkDependencies_def fail_all_def)

lemma checkCycles_fields [compiler_simps]:
  "c_file (checkCycles c) = c_file c" "c_types (checkCycles c) = c_types c"
  "c_nodeReg (checkCycles c) = c_nodeReg c" "c_triggerReg (checkCycles c) = c_triggerReg c"
  "c_ids (checkCycles c) = c_ids c" "c_index (checkCycles c) = c_index c"
  "c_trigger (checkCycles c) = c_trigger c" "c_inputs (checkCycles c) = c_inputs c"
  "c_inputTypes (checkCycles c) = c_inputTypes c" "c_deps (checkCycles c) = c_deps c"
  "c_nodes (checkCycles c) = c_nodes c"
  by (simp_all add: checkCycles_def fail_all_def split: visit_result.splits)

lemma checkEdges_fields [compiler_simps]:
  "c_file (checkEdges c) = c_file c" "c_types (checkEdges c) = c_types c"
  "c_nodeReg (checkEdges c) = c_nodeReg c" "c_triggerReg (checkEdges c) = c_triggerReg c"
  "c_ids (checkEdges c) = c_ids c" "c_index (checkEdges c) = c_index c"
  "c_trigger (checkEdges c) = c_trigger c" "c_inputs (checkEdges c) = c_inputs c"
  "c_inputTypes (checkEdges c) = c_inputTypes c" "c_nodes (checkEdges c) = c_nodes c"
  "c_deps (checkEdges c) = map (snd \<circ> checkStepEdges c) [0..<length (c_ids c)]"
  "c_problems (checkEdges c) = c_problems c @ concat (map (fst \<circ> checkStepEdges c) [0..<length (c_ids c)])"
  by (simp_all add: checkEdges_def fail_all_def)

lemma resolveTrigger_fields [compiler_simps]:
  "c_file (resolveTrigger c) = c_file c" "c_ids (resolveTrigger c) = c_ids c"
  "c_index (resolveTrigger c) = c_index c" "c_inputs (resolveTrigger c) = c_inputs c"
  "c_inputTypes (resolveTrigger c) = c_inputTypes c" "c_deps (resolveTrigger c) = c_deps c"
  "c_nodes (resolveTrigger c) = c_nodes c"
  by (simp_all add: resolveTrigger_def fail_all_def Let_def split: option.splits sum.splits prod.splits)

lemma problems_mono:
  "\<exists>ps. c_problems (checkDependencies c) = c_problems c @ ps"
  "\<exists>ps. c_problems (checkCycles c) = c_problems c @ ps"
  "\<exists>ps. c_problems (resolveTrigger c) = c_problems c @ ps"
  by (auto simp: checkDependencies_def checkCycles_def resolveTrigger_def fail_all_def Let_def
      split: visit_result.splits option.splits sum.splits prod.splits)

section \<open>The index space\<close>

definition file_ids :: "'c File \<Rightarrow> string list" where
  "file_ids f = InputNames_of f @ StepIDs f"

definition index_list :: "string list \<Rightarrow> nat gomap" where
  "index_list ids = fold (\<lambda>(i, sid) m. put sid i m) (enumerate 0 ids) []"

lemma index_list_snoc: "map_of (index_list (ids @ [x])) = (map_of (index_list ids))(x \<mapsto> length ids)"
  by (simp add: index_list_def enumerate_append_eq)

lemma index_list_Some: "map_of (index_list ids) sid = Some j \<Longrightarrow> j < length ids \<and> ids ! j = sid"
  by (induction ids rule: rev_induct)
    (auto simp: index_list_snoc nth_append split: if_splits, simp add: index_list_def)

lemma index_list_dom: "dom (map_of (index_list ids)) = set ids"
proof (induction ids rule: rev_induct)
  case Nil
  then show ?case by (simp add: index_list_def)
next
  case (snoc x ids)
  then show ?case by (simp only: index_list_snoc dom_fun_upd) simp
qed

lemma index_list_nth: "distinct ids \<Longrightarrow> j < length ids \<Longrightarrow> map_of (index_list ids) (ids ! j) = Some j"
  using index_list_dom [of ids] index_list_Some [of ids "ids ! j"] nth_mem [of j ids]
  by (metis domD nth_eq_iff_index_eq)

lemma new_compiler_fields [compiler_simps]:
  "c_file (new_compiler tt f reg) = f" "c_types (new_compiler tt f reg) = tt"
  "c_ids (new_compiler tt f reg) = file_ids f"
  "c_index (new_compiler tt f reg) = index_list (file_ids f)"
  "c_inputs (new_compiler tt f reg) = InputNames_of f" "c_trigger (new_compiler tt f reg) = None"
  "c_problems (new_compiler tt f reg) = []"
  by (simp_all add: new_compiler_def index_list_def file_ids_def Let_def)

lemma distinct_ids: "valid_file f \<Longrightarrow> distinct (file_ids f)"
  by (auto simp: file_ids_def InputNames_of_def StepIDs_def valid_file_def)

end
