(* ===== verification/Cycles.thy ===== *)
theory Cycles
  imports Compiler
begin

text \<open>
  The depth-first search of \<open>checkCycles\<close> is correct: it never runs out of fuel, it
  finishes without a report exactly when the dependency graph has no cycle, and the path it
  reports is a cycle of that graph.

  The search is verified inside the locale \<open>dep_graph\<close>, for any finite graph given by
  successor lists, and the locale is interpreted on the graph the compiler builds from a
  pipeline file.
\<close>

definition whites :: "dfs \<Rightarrow> nat" where
  "whites st = length (filter (\<lambda>c. c = White) (df_color st))"

lemma whites_update:
  assumes "i < length (df_color st)" and "df_color st ! i = White" and "c \<noteq> White"
  shows "Suc (whites (st\<lparr>df_color := (df_color st)[i := c], df_path := p\<rparr>)) = whites st"
  using length_filter_update [OF assms(1), of "\<lambda>c. c = White" c] assms(2,3) by (simp add: whites_def)

lemma whites_mono:
  assumes "length (df_color st') = length (df_color st)"
    and "\<And>k. k < length (df_color st) \<Longrightarrow> df_color st' ! k = White \<Longrightarrow> df_color st ! k = White"
  shows "whites st' \<le> whites st"
proof -
  have "card {k. k < length (df_color st') \<and> df_color st' ! k = White}
      \<le> card {k. k < length (df_color st) \<and> df_color st ! k = White}"
    by (rule card_mono) (use assms in auto)
  then show ?thesis by (simp add: whites_def length_filter_conv_card)
qed

locale dep_graph =
  fixes n :: nat and succs :: "nat \<Rightarrow> nat list"
  assumes succs_range: "i < n \<Longrightarrow> j \<in> set (succs i) \<Longrightarrow> j < n"
begin

definition edges :: "(nat \<times> nat) set" where
  "edges = {(i, j). i < n \<and> j \<in> set (succs i)}"

definition chain :: "nat list \<Rightarrow> bool" where
  "chain path \<longleftrightarrow> successively (\<lambda>a b. b \<in> set (succs a)) path"

definition search_inv :: "dfs \<Rightarrow> bool" where
  "search_inv st \<longleftrightarrow>
     length (df_color st) = n \<and> distinct (df_path st) \<and> chain (df_path st) \<and>
     set (df_path st) = {i. i < n \<and> df_color st ! i = Grey} \<and>
     (\<forall>i<n. df_color st ! i = Black \<longrightarrow>
        (\<forall>j\<in>set (succs i). df_color st ! j = Black) \<and> (i, i) \<notin> edges\<^sup>+)"

text \<open>What a finished call leaves behind, and what a reported cycle is.\<close>

definition grows :: "dfs \<Rightarrow> dfs \<Rightarrow> bool" where
  "grows st st' \<longleftrightarrow>
     search_inv st' \<and> df_path st' = df_path st \<and>
     (\<forall>k<n. df_color st ! k = Black \<longrightarrow> df_color st' ! k = Black) \<and>
     (\<forall>k<n. df_color st' ! k = White \<longrightarrow> df_color st ! k = White)"

definition is_cycle :: "nat list \<Rightarrow> nat \<Rightarrow> bool" where
  "is_cycle path back \<longleftrightarrow>
     path \<noteq> [] \<and> set path \<subseteq> {..<n} \<and> chain path \<and> back \<in> set path \<and> back \<in> set (succs (last path))"

lemma search_invD:
  assumes "search_inv st"
  shows "length (df_color st) = n" "distinct (df_path st)" "chain (df_path st)"
    "\<And>i. i \<in> set (df_path st) \<longleftrightarrow> i < n \<and> df_color st ! i = Grey"
    "\<And>i j. i < n \<Longrightarrow> df_color st ! i = Black \<Longrightarrow> j \<in> set (succs i) \<Longrightarrow> df_color st ! j = Black"
    "\<And>i. i < n \<Longrightarrow> df_color st ! i = Black \<Longrightarrow> (i, i) \<notin> edges\<^sup>+"
  using assms unfolding search_inv_def by blast+

lemma search_invI:
  assumes "length (df_color st) = n" "distinct (df_path st)" "chain (df_path st)"
    and "\<And>i. i \<in> set (df_path st) \<longleftrightarrow> i < n \<and> df_color st ! i = Grey"
    and "\<And>i j. i < n \<Longrightarrow> df_color st ! i = Black \<Longrightarrow> j \<in> set (succs i) \<Longrightarrow> df_color st ! j = Black"
    and "\<And>i. i < n \<Longrightarrow> df_color st ! i = Black \<Longrightarrow> (i, i) \<notin> edges\<^sup>+"
  shows "search_inv st"
  using assms unfolding search_inv_def by blast

lemma growsD:
  assumes "grows st st'"
  shows "search_inv st'" "df_path st' = df_path st"
    "\<And>k. k < n \<Longrightarrow> df_color st ! k = Black \<Longrightarrow> df_color st' ! k = Black"
    "\<And>k. k < n \<Longrightarrow> df_color st' ! k = White \<Longrightarrow> df_color st ! k = White"
  using assms unfolding grows_def by blast+

lemma growsI:
  assumes "search_inv st'" "df_path st' = df_path st"
    and "\<And>k. k < n \<Longrightarrow> df_color st ! k = Black \<Longrightarrow> df_color st' ! k = Black"
    and "\<And>k. k < n \<Longrightarrow> df_color st' ! k = White \<Longrightarrow> df_color st ! k = White"
  shows "grows st st'"
  using assms unfolding grows_def by blast

lemma grows_refl: "search_inv st \<Longrightarrow> grows st st"
  by (simp add: grows_def)

lemma grows_trans: "grows a b \<Longrightarrow> grows b c \<Longrightarrow> grows a c"
  unfolding grows_def by (elim conjE, intro conjI) (assumption, simp only:, blast, blast)

lemma grows_whites: "search_inv a \<Longrightarrow> grows a b \<Longrightarrow> whites b \<le> whites a"
proof (rule whites_mono)
  assume a: "search_inv a" and ab: "grows a b"
  show "length (df_color b) = length (df_color a)"
    using search_invD(1) [OF a] search_invD(1) [OF growsD(1) [OF ab]] by simp
  show "df_color a ! k = White" if "k < length (df_color a)" "df_color b ! k = White" for k
    using growsD(4) [OF ab] that search_invD(1) [OF a] by simp
qed

lemma black_reach:
  assumes "search_inv st" "(i, k) \<in> edges\<^sup>+" "i < n" "df_color st ! i = Black"
  shows "k < n \<and> df_color st ! k = Black"
  using assms(2,3,4)
proof (induction rule: trancl_induct)
  case (base k)
  then show ?case using search_invD(5) [OF assms(1)] succs_range by (auto simp: edges_def)
next
  case (step j k)
  then show ?case using search_invD(5) [OF assms(1)] succs_range by (auto simp: edges_def)
qed

lemma push_inv:
  assumes inv: "search_inv st" and i: "i < n" "df_color st ! i = White"
    and last: "df_path st = [] \<or> i \<in> set (succs (last (df_path st)))"
  shows "search_inv (st\<lparr>df_color := (df_color st)[i := Grey], df_path := df_path st @ [i]\<rparr>)"
proof (rule search_invI)
  note I = search_invD [OF inv]
  have "i \<notin> set (df_path st)" using I(4) i by simp
  then show "distinct (df_path (st\<lparr>df_color := (df_color st)[i := Grey], df_path := df_path st @ [i]\<rparr>))"
    using I(2) by simp
  show "chain (df_path (st\<lparr>df_color := (df_color st)[i := Grey], df_path := df_path st @ [i]\<rparr>))"
    using I(3) last by (auto simp: chain_def successively_append_iff)
  fix k j
  assume "k < n" "df_color (st\<lparr>df_color := (df_color st)[i := Grey], df_path := df_path st @ [i]\<rparr>) ! k = Black"
    "j \<in> set (succs k)"
  then show "df_color (st\<lparr>df_color := (df_color st)[i := Grey], df_path := df_path st @ [i]\<rparr>) ! j = Black"
    using I(1) I(5) [of k j] i succs_range [of k j] by (auto simp: nth_list_update split: if_splits)
qed (use search_invD(1,4,6) [OF inv] i in \<open>auto simp: nth_list_update split: if_splits\<close>)

lemma pop_acyclic:
  assumes inv: "search_inv st" and i: "df_color st ! i = Grey"
    and black: "\<forall>j\<in>set (succs i). df_color st ! j = Black"
  shows "(i, i) \<notin> edges\<^sup>+"
proof
  assume "(i, i) \<in> edges\<^sup>+"
  then obtain j where j: "(i, j) \<in> edges" "(j, i) \<in> edges\<^sup>*" by (blast dest: tranclD)
  then have jb: "j < n" "df_color st ! j = Black" using black by (auto simp: edges_def dest: succs_range)
  from j(2) have "j = i \<or> (j, i) \<in> edges\<^sup>+" by (auto dest: rtranclD)
  then have "df_color st ! i = Black" using black_reach [OF inv _ jb] jb by blast
  with i show False by simp
qed

lemma pop_inv:
  assumes inv: "search_inv st" and path: "df_path st = p @ [i]"
    and black: "\<forall>j\<in>set (succs i). df_color st ! j = Black"
  shows "search_inv (st\<lparr>df_path := p, df_color := (df_color st)[i := Black]\<rparr>)"
proof (rule search_invI)
  note I = search_invD [OF inv]
  have i: "i < n" "df_color st ! i = Grey" "i \<notin> set p" using I(2) I(4) [of i] path by auto
  show "length (df_color (st\<lparr>df_path := p, df_color := (df_color st)[i := Black]\<rparr>)) = n" using I(1) by simp
  show "distinct (df_path (st\<lparr>df_path := p, df_color := (df_color st)[i := Black]\<rparr>))" using I(2) path by simp
  show "chain (df_path (st\<lparr>df_path := p, df_color := (df_color st)[i := Black]\<rparr>))"
    using I(3) path by (simp add: chain_def successively_append_iff)
  fix k
  show "k \<in> set (df_path (st\<lparr>df_path := p, df_color := (df_color st)[i := Black]\<rparr>)) \<longleftrightarrow>
      k < n \<and> df_color (st\<lparr>df_path := p, df_color := (df_color st)[i := Black]\<rparr>) ! k = Grey"
    using I(1) I(4) [of k] path i by (auto simp: nth_list_update)
  assume k: "k < n" "df_color (st\<lparr>df_path := p, df_color := (df_color st)[i := Black]\<rparr>) ! k = Black"
  then show "(k, k) \<notin> edges\<^sup>+"
    using I(1) I(6) [of k] pop_acyclic [OF inv i(2) black] by (cases "k = i") auto
  fix j assume "j \<in> set (succs k)"
  then show "df_color (st\<lparr>df_path := p, df_color := (df_color st)[i := Black]\<rparr>) ! j = Black"
    using k I(1) I(5) [of k j] black succs_range [of k j]
    by (cases "k = i"; cases "j = i") simp_all
qed

text \<open>
  The result of a call, by cases: finished with the given nodes black, a real cycle, or out
  of fuel, which needs more white nodes than fuel.
\<close>

definition good :: "nat \<Rightarrow> nat set \<Rightarrow> dfs \<Rightarrow> visit_result \<Rightarrow> bool" where
  "good fuel done st r \<longleftrightarrow>
     (case r of
        Done st' \<Rightarrow> grows st st' \<and> (\<forall>k\<in>done. df_color st' ! k = Black)
      | Cycle path back \<Rightarrow> is_cycle path back
      | OutOfFuel \<Rightarrow> fuel < whites st)"

lemma visit_step:
  assumes inv: "search_inv st" and i: "i < n" "df_color st ! i = White"
    and st1: "st1 = st\<lparr>df_color := (df_color st)[i := Grey], df_path := df_path st @ [i]\<rparr>"
    and good: "good fuel (set (succs i)) st1 (visit_deps fuel succs (succs i) st1)"
  shows "good (Suc fuel) {i} st (visit (Suc fuel) succs i st)"
proof (cases "visit_deps fuel succs (succs i) st1")
  case (Done st2)
  with good have g: "grows st1 st2" and b: "\<forall>k\<in>set (succs i). df_color st2 ! k = Black"
    by (auto simp: good_def)
  define st3 where "st3 = st2\<lparr>df_path := df_path st, df_color := (df_color st2)[i := Black]\<rparr>"
  have p2: "df_path st2 = df_path st @ [i]" using g st1 by (simp add: grows_def)
  have inv3: "search_inv st3"
    unfolding st3_def by (rule pop_inv [OF _ p2 b]) (use g in \<open>simp add: grows_def\<close>)
  have len: "length (df_color st2) = n" using g by (simp add: grows_def search_inv_def)
  have len1: "length (df_color st) = n" by (rule search_invD(1) [OF inv])
  have "grows st st3"
  proof (rule growsI [OF inv3])
    fix k assume k: "k < n"
    show "df_color st3 ! k = Black" if "df_color st ! k = Black"
      using that growsD(3) [OF g k] i len len1 by (cases "k = i") (simp_all add: st1 st3_def)
    show "df_color st ! k = White" if "df_color st3 ! k = White"
      using that growsD(4) [OF g k] i len len1 by (cases "k = i") (simp_all add: st1 st3_def)
  qed (simp add: st3_def)
  moreover have "visit (Suc fuel) succs i st = Done st3"
    using Done p2 by (simp add: st1 [symmetric] st3_def)
  ultimately show ?thesis using i len by (simp add: good_def st3_def)
next
  case (Cycle path k)
  with good show ?thesis by (simp add: good_def st1 [symmetric])
next
  case OutOfFuel
  have "Suc (whites st1) = whites st"
    unfolding st1 by (rule whites_update) (use inv i in \<open>auto simp: search_inv_def\<close>)
  with OutOfFuel good show ?thesis by (simp add: good_def st1 [symmetric])
qed

lemma deps_good:
  assumes visit: "\<And>j st. search_inv st \<Longrightarrow> j < n \<Longrightarrow> df_color st ! j = White \<Longrightarrow>
      df_path st = [] \<or> j \<in> set (succs (last (df_path st))) \<Longrightarrow> good fuel {j} st (visit fuel succs j st)"
  shows "search_inv st \<Longrightarrow> df_path st \<noteq> [] \<Longrightarrow> set js \<subseteq> set (succs (last (df_path st))) \<Longrightarrow>
    good fuel (set js) st (visit_deps fuel succs js st)"
proof (induction js arbitrary: st)
  case Nil
  then show ?case by (simp add: good_def grows_refl)
next
  case (Cons j js)
  note I = search_invD [OF Cons.prems(1)]
  have "last (df_path st) < n" using I(4) Cons.prems(2) last_in_set by blast
  then have j: "j < n" "j \<in> set (succs (last (df_path st)))" using Cons.prems(3) by (auto dest: succs_range)
  show ?case
  proof (cases "df_color st ! j")
    case Grey
    then have "is_cycle (df_path st) j"
      unfolding is_cycle_def using I(3) I(4) j Cons.prems(2) by blast
    with Grey show ?thesis by (simp add: good_def)
  next
    case Black
    have "good fuel (set js) st (visit_deps fuel succs js st)" by (rule Cons.IH) (use Cons.prems in auto)
    with Black j show ?thesis by (auto simp: good_def dest: growsD(3) split: visit_result.splits)
  next
    case White
    have v: "good fuel {j} st (visit fuel succs j st)" by (rule visit) (use White Cons.prems j in auto)
    show ?thesis
    proof (cases "visit fuel succs j st")
      case (Done st2)
      with v have g: "grows st st2" and b: "df_color st2 ! j = Black" by (auto simp: good_def)
      have "good fuel (set js) st2 (visit_deps fuel succs js st2)"
        by (rule Cons.IH) (use growsD(1,2) [OF g] Cons.prems in auto)
      with g b j White Done grows_whites [OF Cons.prems(1) g] show ?thesis
        by (auto simp: good_def intro: grows_trans growsD(3) split: visit_result.splits)
    qed (use v White in \<open>simp_all add: good_def\<close>)
  qed
qed

lemma visit_good:
  "search_inv st \<Longrightarrow> i < n \<Longrightarrow> df_color st ! i = White \<Longrightarrow>
   df_path st = [] \<or> i \<in> set (succs (last (df_path st))) \<Longrightarrow>
   good fuel {i} st (visit fuel succs i st)"
proof (induction fuel arbitrary: i st)
  case 0
  then have "df_color st ! i \<in> set (df_color st)" using search_invD(1) [OF 0(1)] by (intro nth_mem) simp
  with 0(3) have "White \<in> set (filter (\<lambda>c. c = White) (df_color st))" by simp
  then have "0 < whites st" unfolding whites_def by (rule length_pos_if_in_set)
  then show ?case by (simp add: good_def)
next
  case (Suc fuel)
  show ?case
    by (rule visit_step [OF Suc.prems(1-3) refl], rule deps_good [OF Suc.IH])
      (use Suc.prems push_inv in auto)
qed

text \<open>The outer loop, and the search as a whole from the all-white state.\<close>

definition start :: dfs where
  "start = \<lparr>df_color = replicate n White, df_path = []\<rparr>"

lemma start_inv: "search_inv start"
  by (rule search_invI) (simp_all add: start_def chain_def)

lemma whites_le: "search_inv st \<Longrightarrow> whites st \<le> n"
  using search_invD(1) by (auto simp: whites_def intro: le_trans [OF length_filter_le])

lemma visit_all_good:
  assumes "search_inv st" "df_path st = []" "set is \<subseteq> {..<n}" "n \<le> fuel"
  shows "case visit_all fuel succs is st of
      Done st' \<Rightarrow> grows st st' \<and> (\<forall>k\<in>set is. df_color st' ! k = Black)
    | Cycle path back \<Rightarrow> is_cycle path back
    | OutOfFuel \<Rightarrow> False"
  using assms
proof (induction "is" arbitrary: st)
  case Nil
  then show ?case by (simp add: grows_refl)
next
  case (Cons i js)
  note I = search_invD [OF Cons.prems(1)]
  have i: "i < n" using Cons.prems(3) by simp
  show ?case
  proof (cases "df_color st ! i = White")
    case False
    then have "df_color st ! i = Black" using I(4) [of i] Cons.prems(2) i by (cases "df_color st ! i") auto
    moreover have "case visit_all fuel succs js st of
        Done st' \<Rightarrow> grows st st' \<and> (\<forall>k\<in>set js. df_color st' ! k = Black)
      | Cycle path back \<Rightarrow> is_cycle path back | OutOfFuel \<Rightarrow> False"
      by (rule Cons.IH) (use Cons.prems in auto)
    ultimately show ?thesis using i False by (auto dest: growsD(3) split: visit_result.splits)
  next
    case True
    have v: "good fuel {i} st (visit fuel succs i st)"
      by (rule visit_good) (use Cons.prems i True in auto)
    show ?thesis
    proof (cases "visit fuel succs i st")
      case (Done st2)
      with v have g: "grows st st2" and b: "df_color st2 ! i = Black" by (auto simp: good_def)
      have "case visit_all fuel succs js st2 of
          Done st' \<Rightarrow> grows st2 st' \<and> (\<forall>k\<in>set js. df_color st' ! k = Black)
        | Cycle path back \<Rightarrow> is_cycle path back | OutOfFuel \<Rightarrow> False"
        by (rule Cons.IH) (use growsD(1,2) [OF g] Cons.prems in auto)
      with g b i True Done show ?thesis
        by (auto intro: grows_trans growsD(3) split: visit_result.splits)
    qed (use v True whites_le [OF Cons.prems(1)] Cons.prems(4) in \<open>simp_all add: good_def\<close>)
  qed
qed

lemma search_good:
  assumes "n \<le> fuel"
  shows "case visit_all fuel succs [0..<n] start of
      Done st \<Rightarrow> acyclic edges | Cycle path back \<Rightarrow> is_cycle path back | OutOfFuel \<Rightarrow> False"
proof -
  have "acyclic edges" if "search_inv st" "\<forall>k<n. df_color st ! k = Black" for st
  proof (unfold acyclic_def, intro allI notI)
    fix x assume x: "(x, x) \<in> edges\<^sup>+"
    then have "x < n" by (auto simp: edges_def dest: tranclD)
    with x that show False using search_invD(6) [OF that(1)] by blast
  qed
  moreover have "set [0..<n] \<subseteq> {..<n}" "df_path start = []" by (auto simp: start_def)
  ultimately show ?thesis
    using visit_all_good [OF start_inv _ _ assms, of "[0..<n]"]
    by (auto dest: growsD(1) split: visit_result.splits)
qed

lemma chain_edges: "chain (a # p) \<Longrightarrow> set (a # p) \<subseteq> {..<n} \<Longrightarrow> (a, last (a # p)) \<in> edges\<^sup>*"
proof (induction p arbitrary: a)
  case Nil
  then show ?case by simp
next
  case (Cons b p)
  then have "(a, b) \<in> edges" "(b, last (b # p)) \<in> edges\<^sup>*" by (auto simp: chain_def edges_def)
  then show ?case by simp
qed

text \<open>The reported path, closed: it starts and ends at \<open>back\<close>, and every step of it is an edge.\<close>

lemma cycle_from_closed:
  assumes "is_cycle path bk"
  shows "hd (cycle_from path bk) = bk" "last (cycle_from path bk) = bk"
    "2 \<le> length (cycle_from path bk)" "chain (cycle_from path bk)"
    "set (cycle_from path bk) \<subseteq> {..<n}"
proof -
  have c: "path \<noteq> []" "set path \<subseteq> {..<n}" "chain path" "bk \<in> set path" "bk \<in> set (succs (last path))"
    using assms by (auto simp: is_cycle_def)
  then obtain us vs where split: "path = us @ bk # vs" "bk \<notin> set us" by (meson split_list_first)
  then have cyc: "cycle_from path bk = bk # vs @ [bk]"
    by (auto simp: cycle_from_def dropWhile_append)
  show "hd (cycle_from path bk) = bk" "last (cycle_from path bk) = bk"
    "2 \<le> length (cycle_from path bk)" by (simp_all add: cyc)
  show "set (cycle_from path bk) \<subseteq> {..<n}" using c(2) split(1) unfolding cyc by auto
  have "chain (bk # vs)" using c(3) split(1) by (auto simp: chain_def successively_append_iff)
  moreover have "last path = last (bk # vs)" using split(1) by simp
  ultimately show "chain (cycle_from path bk)" using c(5)
    by (auto simp: cyc chain_def successively_append_iff successively_Cons simp flip: append_Cons split: if_splits)
qed

lemma is_cycle_cyclic:
  assumes "is_cycle path bk"
  shows "\<not> acyclic edges"
proof -
  obtain vs where vs: "cycle_from path bk = bk # vs @ [bk]"
    using cycle_from_closed(1,2,3) [OF assms]
    by (cases "cycle_from path bk"; cases "tl (cycle_from path bk)" rule: rev_cases) auto
  have range: "set (bk # vs) \<subseteq> {..<n}" and ch: "chain ((bk # vs) @ [bk])"
    using cycle_from_closed(4,5) [OF assms] by (auto simp: vs)
  then have "(bk, last (bk # vs)) \<in> edges\<^sup>*"
    by (intro chain_edges) (auto simp: chain_def successively_append_iff simp del: append_Cons)
  moreover have "last (bk # vs) < n" using range last_in_set [of "bk # vs"] by blast
  then have "(last (bk # vs), bk) \<in> edges"
    using ch by (simp add: edges_def chain_def successively_append_iff del: append_Cons)
  ultimately have "(bk, bk) \<in> edges\<^sup>+" by (rule rtrancl_into_trancl1)
  then show ?thesis by (auto simp: acyclic_def)
qed

end

section \<open>The graph of a pipeline file\<close>

definition graph_succs :: "'c File \<Rightarrow> nat \<Rightarrow> nat list" where
  "graph_succs f i = List.map_filter (map_of (index_list (file_ids f))) (needs_of f (file_ids f ! i))"

lemma set_graph_succs:
  "set (graph_succs f i) = {j. \<exists>dep\<in>set (needs_of f (file_ids f ! i)). map_of (index_list (file_ids f)) dep = Some j}"
  by (force simp: graph_succs_def map_filter_def)

interpretation needs_graph: dep_graph "length (file_ids f)" "graph_succs f" for f
  by unfold_locales (auto simp: set_graph_succs dest!: index_list_Some)

text \<open>The same graph on names: what the file says each id needs, among the ids it declares.\<close>

definition needs_rel :: "'c File \<Rightarrow> (string \<times> string) set" where
  "needs_rel f = {(a, b). a \<in> set (file_ids f) \<and> b \<in> set (file_ids f) \<and> b \<in> set (needs_of f a)}"

definition compiles :: "'c File \<Rightarrow> ('c, 'w) compiler \<Rightarrow> bool" where
  "compiles f c \<longleftrightarrow> c_file c = f \<and> c_ids c = file_ids f \<and> c_index c = index_list (file_ids f)"

lemma compiles_phases [compiler_simps]:
  "compiles f (new_compiler tt f reg)"
  "compiles f (resolveInputs c) = compiles f c" "compiles f (resolve c) = compiles f c"
  "compiles f (checkDependencies c) = compiles f c" "compiles f (checkCycles c) = compiles f c"
  "compiles f (checkEdges c) = compiles f c" "compiles f (resolveTrigger c) = compiles f c"
  by (simp_all add: compiles_def compiler_simps)

lemma search_eq:
  "compiles f c \<Longrightarrow>
   search c = visit_all (Suc (length (file_ids f))) (graph_succs f) [0..<length (file_ids f)]
                \<lparr>df_color = replicate (length (file_ids f)) White, df_path = []\<rparr>"
  by (simp add: search_def compiles_def Let_def succs_of_def [abs_def] graph_succs_def [abs_def])

definition needs_edges :: "'c File \<Rightarrow> (nat \<times> nat) set" where
  "needs_edges f = {(i, j). i < length (file_ids f) \<and> j \<in> set (graph_succs f i)}"

lemma search_result:
  assumes "compiles f c"
  obtains st where "search c = Done st" "acyclic (needs_edges f)"
  | path k where "search c = Cycle path k" "\<not> acyclic (needs_edges f)"
      "hd (cycle_from path k) = last (cycle_from path k)" "2 \<le> length (cycle_from path k)"
      "successively (\<lambda>i j. (i, j) \<in> needs_edges f) (cycle_from path k)"
proof -
  let ?n = "length (file_ids f)" and ?succs = "graph_succs f"
  have edges: "dep_graph.edges ?n ?succs = needs_edges f"
    by (simp add: needs_graph.edges_def needs_edges_def)
  have good: "case search c of Done st \<Rightarrow> acyclic (needs_edges f)
      | Cycle path k \<Rightarrow> dep_graph.is_cycle ?n ?succs path k | OutOfFuel \<Rightarrow> False"
    using needs_graph.search_good [of f "Suc ?n", unfolded edges needs_graph.start_def]
    by (simp add: search_eq [OF assms])
  show ?thesis
  proof (cases "search c")
    case (Cycle path k)
    then have cyc: "dep_graph.is_cycle ?n ?succs path k" using good by simp
    note closed = needs_graph.cycle_from_closed [OF cyc]
    have "successively (\<lambda>i j. (i, j) \<in> needs_edges f) (cycle_from path k)"
      by (rule successively_mono [OF closed(4) [unfolded needs_graph.chain_def]])
        (use closed(5) in \<open>auto simp: needs_edges_def\<close>)
    with Cycle closed(1-3) needs_graph.is_cycle_cyclic [OF cyc]
    show ?thesis by (intro that(2)) (simp_all add: edges)
  qed (use good that(1) in auto)
qed

lemma edge_names:
  assumes "valid_file f"
  shows "(i, j) \<in> needs_edges f \<longleftrightarrow>
    i < length (file_ids f) \<and> j < length (file_ids f) \<and> (file_ids f ! i, file_ids f ! j) \<in> needs_rel f"
proof -
  let ?ids = "file_ids f"
  have "j \<in> set (graph_succs f i) \<longleftrightarrow> j < length ?ids \<and> ?ids ! j \<in> set (needs_of f (?ids ! i))"
  proof
    assume "j \<in> set (graph_succs f i)"
    then show "j < length ?ids \<and> ?ids ! j \<in> set (needs_of f (?ids ! i))"
      by (auto simp: set_graph_succs dest!: index_list_Some)
  next
    assume "j < length ?ids \<and> ?ids ! j \<in> set (needs_of f (?ids ! i))"
    then show "j \<in> set (graph_succs f i)"
      using index_list_nth [OF distinct_ids [OF assms]] by (auto simp: set_graph_succs)
  qed
  then show ?thesis unfolding needs_edges_def needs_rel_def using nth_mem by blast
qed

lemma acyclic_names:
  assumes "valid_file f"
  shows "acyclic (needs_edges f) \<longleftrightarrow> acyclic (needs_rel f)"
proof -
  let ?ids = "file_ids f"
  have up: "(?ids ! i, ?ids ! j) \<in> (needs_rel f)\<^sup>+" if "(i, j) \<in> (needs_edges f)\<^sup>+" for i j
    using that
  proof (induction rule: trancl_induct)
    case (base j)
    then show ?case using edge_names [OF assms] by blast
  next
    case (step j k)
    then show ?case using edge_names [OF assms, of j k] by (blast intro: trancl_into_trancl)
  qed
  have down: "(i, j) \<in> (needs_edges f)\<^sup>+"
    if "(?ids ! i, b) \<in> (needs_rel f)\<^sup>+" "i < length ?ids" "j < length ?ids" "?ids ! j = b" for i j b
    using that
  proof (induction arbitrary: j rule: trancl_induct)
    case (base b)
    then show ?case using edge_names [OF assms, of i j] by blast
  next
    case (step b d)
    then obtain k where "k < length ?ids" "?ids ! k = b"
      unfolding needs_rel_def by (auto simp: in_set_conv_nth)
    with step show ?case using edge_names [OF assms, of k j] by (blast intro: trancl_into_trancl)
  qed
  have "\<exists>i<length ?ids. ?ids ! i = a" if "(a, a) \<in> (needs_rel f)\<^sup>+" for a
    using that by (auto simp: needs_rel_def in_set_conv_nth dest!: tranclD)
  with up down show ?thesis unfolding acyclic_def by blast
qed

text \<open>\<open>checkCycles\<close> reports exactly when the needs relation of the file has a cycle, and reports one.\<close>

lemma checkCycles_correct:
  assumes "valid_file f" "compiles f c"
  shows "if acyclic (needs_rel f) then checkCycles c = c
    else \<exists>names. 2 \<le> length names \<and> hd names = last names \<and>
      successively (\<lambda>a b. (a, b) \<in> needs_rel f) names \<and>
      checkCycles c = fail_all [problem '''' ''dependency cycle: %s'' [AQuoted names]] c"
proof (cases rule: search_result [OF assms(2)])
  case (1 st)
  then show ?thesis by (simp add: acyclic_names [OF assms(1), symmetric] checkCycles_def)
next
  case (2 path k)
  let ?cyc = "cycle_from path k"
  have ne: "?cyc \<noteq> []" using 2(4) by auto
  have "successively (\<lambda>a b. (a, b) \<in> needs_rel f) (map (\<lambda>i. c_ids c ! i) ?cyc)"
    unfolding successively_map
    by (rule successively_mono [OF 2(5)]) (use edge_names [OF assms(1)] assms(2) in \<open>auto simp: compiles_def\<close>)
  with 2 ne show ?thesis
    by (auto simp: acyclic_names [OF assms(1), symmetric] checkCycles_def reportCycle_def
        hd_map last_map intro!: exI [of _ "map (\<lambda>i. c_ids c ! i) ?cyc"])
qed

end
