(* ===== verification/Plan.thy ===== *)
theory Plan
  imports Cycles
begin

text \<open>
  What a compiled plan promises the executor and the daemon. The plan builder is first put
  in closed form; then every check of \<open>Compile\<close> becomes a clause of \<open>plan_wf\<close> (structure),
  \<open>plan_typed\<close> (edge types) and \<open>trigger_wf\<close> (the trigger block).
\<close>

section \<open>The plan in closed form\<close>

definition deps_at :: "('c, 'w) compiler \<Rightarrow> nat \<Rightarrow> nat list" where
  "deps_at c i = (if isInput c i then [] else c_deps c ! i)"

definition offset_at :: "('c, 'w) compiler \<Rightarrow> nat \<Rightarrow> nat" where
  "offset_at c k = sum_list (map (\<lambda>i. length (deps_at c i)) [0..<k])"

definition retry_at :: "('c, 'w) compiler \<Rightarrow> nat \<Rightarrow> Retry" where
  "retry_at c i =
     (if isInput c i then DefaultRetry
      else (case map_of (f_Steps (c_file c)) (c_ids c ! i) of None \<Rightarrow> DefaultRetry | Some s \<Rightarrow> RetryPolicy s))"

definition raw_step :: "('c, 'w) compiler \<Rightarrow> nat \<Rightarrow> 'w CompiledStep" where
  "raw_step c i =
     \<lparr>cs_ID = c_ids c ! i, cs_Node = (if isInput c i then None else c_nodes c ! i), cs_Deps = deps_at c i,
      cs_Dependents = [], cs_InputOffset = offset_at c i, cs_Retry = retry_at c i\<rparr>"

definition raw_plan :: "string \<Rightarrow> ('c, 'w) compiler \<Rightarrow> nat \<Rightarrow> 'w ExecutionPlan" where
  "raw_plan name c k =
     \<lparr>p_Name = name, p_Steps = map (raw_step c) [0..<k],
      p_Inputs = map (\<lambda>i. \<lparr>pi_Name = c_ids c ! i, pi_Type = c_inputTypes c ! i, pi_Step = i\<rparr>)
                   (filter (isInput c) [0..<k]),
      p_Trigger = c_trigger c,
      p_Roots = filter (\<lambda>i. \<not> isInput c i \<and> deps_at c i = []) [0..<k],
      p_TotalInputs = offset_at c k\<rparr>"

lemma plan_step_raw: "plan_step c k (raw_plan name c k) = raw_plan name c (Suc k)"
  by (simp add: plan_step_def raw_plan_def raw_step_def deps_at_def offset_at_def retry_at_def Let_def)

lemma fold_plan_step:
  "fold (plan_step c) [0..<k]
     \<lparr>p_Name = name, p_Steps = [], p_Inputs = [], p_Trigger = c_trigger c, p_Roots = [], p_TotalInputs = 0\<rparr> =
   raw_plan name c k"
  by (induction k) (simp_all add: plan_step_raw, simp add: raw_plan_def offset_at_def)

text \<open>The reverse edges: \<open>i\<close> is listed once for each port of step \<open>i\<close> that \<open>j\<close> feeds.\<close>

definition rev_edges :: "'w CompiledStep list \<Rightarrow> nat \<Rightarrow> nat \<Rightarrow> nat list" where
  "rev_edges ss k j = concat (map (\<lambda>i. replicate (count_list (cs_Deps (ss ! i)) j) i) [0..<k])"

definition linked :: "'w CompiledStep list \<Rightarrow> nat \<Rightarrow> 'w CompiledStep list" where
  "linked ss k = map (\<lambda>j. (ss ! j)\<lparr>cs_Dependents := cs_Dependents (ss ! j) @ rev_edges ss k j\<rparr>) [0..<length ss]"

lemma length_add_dependents [simp]: "length (fold (add_dependent i) ds ss) = length ss"
  by (induction ds arbitrary: ss) (simp_all add: add_dependent_def)

lemma add_dependents_nth:
  "j < length ss \<Longrightarrow>
   fold (add_dependent i) ds ss ! j =
     (ss ! j)\<lparr>cs_Dependents := cs_Dependents (ss ! j) @ replicate (count_list ds j) i\<rparr>"
proof (induction ds arbitrary: ss)
  case Nil
  then show ?case by simp
next
  case (Cons d ds)
  then show ?case by (cases "d = j") (simp_all add: add_dependent_def)
qed

lemma link_step_linked:
  assumes "k < length ss"
  shows "link_step k (linked ss k) = linked ss (Suc k)"
proof (rule nth_equalityI)
  show "length (link_step k (linked ss k)) = length (linked ss (Suc k))"
    by (simp add: link_step_def linked_def)
  fix j assume "j < length (link_step k (linked ss k))"
  then have "j < length ss" by (simp add: link_step_def linked_def)
  with assms show "link_step k (linked ss k) ! j = linked ss (Suc k) ! j"
    by (simp add: link_step_def add_dependents_nth linked_def rev_edges_def)
qed

lemma fold_link_step: "k \<le> length ss \<Longrightarrow> fold link_step [0..<k] ss = linked ss k"
proof (induction k)
  case 0
  show ?case by (rule nth_equalityI) (simp_all add: linked_def rev_edges_def)
next
  case (Suc k)
  then show ?case by (simp add: link_step_linked)
qed

lemma plan_eq:
  "plan name c =
     (raw_plan name c (length (c_ids c)))
       \<lparr>p_Steps := linked (map (raw_step c) [0..<length (c_ids c)]) (length (c_ids c))\<rparr>"
  by (simp add: plan_def Let_def fold_plan_step) (simp add: raw_plan_def fold_link_step)

lemma plan_fields [compiler_simps]:
  "Plan_Len (plan name c) = length (c_ids c)"
  "length (p_Steps (plan name c)) = length (c_ids c)"
  "p_Name (plan name c) = name" "p_Trigger (plan name c) = c_trigger c"
  "p_Roots (plan name c) = filter (\<lambda>i. \<not> isInput c i \<and> deps_at c i = []) [0..<length (c_ids c)]"
  "p_TotalInputs (plan name c) = offset_at c (length (c_ids c))"
  "p_Inputs (plan name c) = map (\<lambda>i. \<lparr>pi_Name = c_ids c ! i, pi_Type = c_inputTypes c ! i, pi_Step = i\<rparr>)
     (filter (isInput c) [0..<length (c_ids c)])"
  by (simp_all add: Plan_Len_def plan_eq raw_plan_def linked_def)

lemma plan_step_fields [compiler_simps]:
  assumes "i < length (c_ids c)"
  shows "cs_ID (p_Steps (plan name c) ! i) = c_ids c ! i"
    "cs_Node (p_Steps (plan name c) ! i) = (if isInput c i then None else c_nodes c ! i)"
    "cs_Deps (p_Steps (plan name c) ! i) = deps_at c i"
    "cs_InputOffset (p_Steps (plan name c) ! i) = offset_at c i"
    "cs_Retry (p_Steps (plan name c) ! i) = retry_at c i"
    "cs_Dependents (p_Steps (plan name c) ! i) =
       concat (map (\<lambda>k. replicate (count_list (deps_at c k) i) k) [0..<length (c_ids c)])"
proof -
  have "rev_edges (map (raw_step c) [0..<length (c_ids c)]) (length (c_ids c)) i =
      concat (map (\<lambda>k. replicate (count_list (deps_at c k) i) k) [0..<length (c_ids c)])"
    unfolding rev_edges_def by (rule arg_cong [where f = concat], rule map_cong) (simp_all add: raw_step_def)
  then show "cs_Dependents (p_Steps (plan name c) ! i) =
       concat (map (\<lambda>k. replicate (count_list (deps_at c k) i) k) [0..<length (c_ids c)])"
    using assms by (simp add: plan_eq linked_def raw_step_def)
qed (use assms in \<open>simp_all add: plan_eq linked_def raw_step_def\<close>)

section \<open>What a compilation without problems established\<close>

definition agree :: "('c, 'w) compiler \<Rightarrow> ('c, 'w) compiler \<Rightarrow> bool" where
  "agree c c' \<longleftrightarrow> c_file c = c_file c' \<and> c_ids c = c_ids c' \<and> c_index c = c_index c' \<and>
     c_inputs c = c_inputs c' \<and> c_inputTypes c = c_inputTypes c' \<and> c_nodes c = c_nodes c'"

lemma agree_edges:
  assumes "agree c c'"
  shows "checkStepEdges c = checkStepEdges c'" "resolveRespondWith c = resolveRespondWith c'"
    "checkSupplied c = checkSupplied c'" "isInput c = isInput c'" "outputType c = outputType c'"
proof -
  have eqs: "c_file c = c_file c'" "c_ids c = c_ids c'" "c_index c = c_index c'" "c_inputs c = c_inputs c'"
    "c_inputTypes c = c_inputTypes c'" "c_nodes c = c_nodes c'"
    using assms by (simp_all add: agree_def)
  show inp: "isInput c = isInput c'" by (simp add: fun_eq_iff isInput_def eqs)
  show out: "outputType c = outputType c'" by (simp add: fun_eq_iff outputType_def inp eqs)
  have port: "checkPort c = checkPort c'" by (simp add: fun_eq_iff checkPort_def out inp eqs Let_def)
  have idx: "index_of c = index_of c'" by (simp add: fun_eq_iff index_of_def eqs)
  have dres: "dependenciesResolve c = dependenciesResolve c'" by (simp add: fun_eq_iff dependenciesResolve_def eqs)
  have needs: "resolveNeeds c = resolveNeeds c'"
    by (intro ext) (simp only: resolveNeeds_def resolveNamedNeeds_def idx)
  show "checkStepEdges c = checkStepEdges c'"
    by (intro ext) (simp only: checkStepEdges_def port needs dres inp eqs)
  show "resolveRespondWith c = resolveRespondWith c'"
    by (intro ext) (simp only: resolveRespondWith_def inp out eqs)
  show "checkSupplied c = checkSupplied c'" by (simp add: fun_eq_iff checkSupplied_def eqs Let_def)
qed

lemma agree_phases:
  "agree (checkEdges c) c" "agree (resolveTrigger c) c" "agree (checkCycles c) c" "agree (checkDependencies c) c"
  by (simp_all add: agree_def compiler_simps)

lemma agree_trans: "agree a b \<Longrightarrow> agree b c \<Longrightarrow> agree a c"
  by (simp add: agree_def)

text \<open>The phases whose problem lists are read below.\<close>

definition undeclared :: "('c, 'w) compiler \<Rightarrow> Problem list" where
  "undeclared c =
     concat (map (\<lambda>sid. concat (map (\<lambda>dep.
            if map_of (c_index c) dep = None
            then [problem sid ''needs %q, which is not a step in this pipeline'' [AStr dep]] else [])
          (needs_of (c_file c) sid))) (c_ids c))"

lemma undeclared_nil:
  assumes "undeclared c = []" "sid \<in> set (c_ids c)" "dep \<in> set (needs_of (c_file c) sid)"
  shows "map_of (c_index c) dep \<noteq> None"
  using assms(2,3) assms(1) [unfolded undeclared_def concat_map_nil_iff] by (auto dest!: bspec split: if_splits)

lemma clean_phases:
  assumes "c_problems (compile_phases c) = []"
  defines "c2 \<equiv> resolve (resolveInputs c)"
  defines "c4 \<equiv> checkCycles (checkDependencies c2)"
  shows "\<forall>name\<in>set (c_inputs c). fst (resolveInput c name) = []"
    "\<forall>i<length (c_ids c). fst (built (resolveInputs c) i) = []"
    "undeclared c2 = []" "c_problems c4 = c_problems (checkDependencies c2)"
    "\<forall>i<length (c_ids c). fst (checkStepEdges c4 i) = []"
    "c_problems (resolveTrigger (checkEdges c4)) = []" "c_problems (checkEdges c4) = []"
proof -
  show p6: "c_problems (resolveTrigger (checkEdges c4)) = []"
    using assms(1) by (simp add: compile_phases_def c2_def c4_def)
  show p5: "c_problems (checkEdges c4) = []"
    using p6 problems_mono(3) [of "checkEdges c4"] by auto
  then have p4: "c_problems c4 = []"
    and "concat (map (fst \<circ> checkStepEdges c4) [0..<length (c_ids c4)]) = []"
    by (simp_all add: compiler_simps)
  then show "\<forall>i<length (c_ids c). fst (checkStepEdges c4 i) = []"
    by (simp add: concat_map_nil_iff c4_def c2_def compiler_simps)
  have p3: "c_problems (checkDependencies c2) = []"
    using p4 problems_mono(2) [of "checkDependencies c2"] by (auto simp: c4_def)
  then show "c_problems c4 = c_problems (checkDependencies c2)" using p4 by simp
  have p2: "c_problems c2 = []" "undeclared c2 = []"
    using p3 by (simp_all add: checkDependencies_def undeclared_def fail_all_def)
  then show "undeclared c2 = []" by simp
  have "c_problems c2 = c_problems c @ concat (map (fst \<circ> resolveInput c) (c_inputs c)) @
      concat (map (fst \<circ> built (resolveInputs c)) [0..<length (c_ids c)])"
    by (simp add: c2_def compiler_simps)
  with p2(1) show "\<forall>name\<in>set (c_inputs c). fst (resolveInput c name) = []"
    "\<forall>i<length (c_ids c). fst (built (resolveInputs c) i) = []"
    by (auto simp: concat_map_nil_iff)
qed

text \<open>
  Everything a successful compilation checked, read off its phases. \<open>c\<close> is the compiler
  at the end; the plan is built from it.
\<close>

definition checked ::
  "type_table \<Rightarrow> 'c File \<Rightarrow> ('c, 'w) Registries \<Rightarrow> ('c, 'w) compiler \<Rightarrow> bool" where
  "checked tt f reg c \<longleftrightarrow>
     compiles f c \<and> c_inputs c = InputNames_of f \<and>
     (\<forall>i<length (InputNames_of f). map_of (f_Inputs f) (InputNames_of f ! i) = Some (c_inputTypes c ! i) \<and>
        LookupType tt (c_inputTypes c ! i) \<noteq> None) \<and>
     length (c_nodes c) = length (file_ids f) \<and>
     (\<forall>i<length (file_ids f). isInput c i \<longrightarrow> c_nodes c ! i = None) \<and>
     (\<forall>i<length (file_ids f). \<not> isInput c i \<longrightarrow>
        (\<exists>step def n. map_of (f_Steps f) (file_ids f ! i) = Some step \<and>
           Resolve (st_Uses step) (c_nodeReg (new_compiler tt f reg)) = Inr def \<and>
           call_New def (\<lambda>new. new (st_With step)) = Inr (Some n) \<and> c_nodes c ! i = Some n)) \<and>
     (\<forall>i<length (file_ids f). \<forall>dep\<in>set (needs_of f (file_ids f ! i)). dep \<in> set (file_ids f)) \<and>
     search c \<noteq> OutOfFuel \<and> (\<forall>path k. search c \<noteq> Cycle path k) \<and>
     (\<forall>i<length (file_ids f). fst (checkStepEdges c i) = [] \<and> c_deps c ! i = snd (checkStepEdges c i))"

lemma resolveInput_ok:
  assumes "fst (resolveInput c name) = []" "map_of (f_Inputs (c_file c)) name = Some ty"
  shows "snd (resolveInput c name) = ty" "LookupType (c_types c) ty \<noteq> None"
  using assms by (auto simp: resolveInput_def Let_def split: if_splits)

lemma resolveStep_ok:
  assumes "fst (resolveStep c sid) = []" "map_of (f_Steps (c_file c)) sid = Some step"
  obtains def n where "Resolve (st_Uses step) (c_nodeReg c) = Inr def"
    "call_New def (\<lambda>new. new (st_With step)) = Inr (Some n)" "snd (resolveStep c sid) = Some n"
  using assms by (auto simp: resolveStep_def split: sum.splits option.splits)

lemma InputNames_nth: "i < length (InputNames_of f) \<Longrightarrow> \<exists>ty. map_of (f_Inputs f) (InputNames_of f ! i) = Some ty"
  unfolding InputNames_of_def by (rule sorted_keys_nth_Some)

lemma file_ids_step:
  assumes "i < length (file_ids f)" "\<not> i < length (InputNames_of f)"
  shows "\<exists>step. map_of (f_Steps f) (file_ids f ! i) = Some step"
  using assms sorted_keys_nth_Some [of "i - length (InputNames_of f)" "f_Steps f"]
  by (simp add: file_ids_def nth_append StepIDs_def)

lemma search_agree: "agree c c' \<Longrightarrow> search c = search c'"
  by (simp add: search_def agree_def Let_def succs_of_def [abs_def])

lemma checkCycles_silent:
  "c_problems (checkCycles c) = c_problems c \<Longrightarrow> search c \<noteq> Cycle path k"
  by (auto simp: checkCycles_def fail_all_def)

lemma Compile_checked:
  assumes "Compile tt f reg name = Inr p"
  shows "p = plan name (compile_phases (new_compiler tt f reg)) \<and>
    c_problems (compile_phases (new_compiler tt f reg)) = [] \<and>
    checked tt f reg (compile_phases (new_compiler tt f reg))"
proof -
  define c where "c = new_compiler tt f reg"
  define c2 where "c2 = resolve (resolveInputs c)"
  define c4 where "c4 = checkCycles (checkDependencies c2)"
  define ce where "ce = compile_phases c"
  have p: "p = plan name ce" and clean: "c_problems (compile_phases c) = []"
    using assms by (auto simp: Compile_def Let_def c_def ce_def split: if_splits)
  note cl = clean_phases [OF clean, folded c2_def, folded c4_def]
  have ce: "ce = resolveTrigger (checkEdges c4)" by (simp add: ce_def compile_phases_def c4_def c2_def)
  have ag: "agree ce c4" unfolding ce by (rule agree_trans [OF agree_phases(2) agree_phases(1)])
  have ag2: "agree ce (checkDependencies c2)"
    unfolding c4_def by (rule agree_trans [OF ag [unfolded c4_def] agree_phases(3)])
  have comp: "compiles f ce" by (simp add: ce c4_def c2_def c_def compiler_simps)
  have fields: "c_ids c = file_ids f" "c_inputs c = InputNames_of f" "c_file c = f" "c_types c = tt"
    "c_index c = index_list (file_ids f)"
    by (simp_all add: c_def compiler_simps)
  have ce_in: "c_inputs ce = InputNames_of f" "c_nodes ce = map (snd \<circ> built (resolveInputs c)) [0..<length (file_ids f)]"
    "c_inputTypes ce = map (snd \<circ> resolveInput c) (InputNames_of f)"
    by (simp_all add: ce c4_def c2_def compiler_simps fields)
  have inp: "isInput ce i \<longleftrightarrow> i < length (InputNames_of f)" for i by (simp add: isInput_def ce_in)
  have A: "map_of (f_Inputs f) (InputNames_of f ! i) = Some (c_inputTypes ce ! i) \<and>
      LookupType tt (c_inputTypes ce ! i) \<noteq> None" if "i < length (InputNames_of f)" for i
  proof -
    obtain ty where ty: "map_of (f_Inputs f) (InputNames_of f ! i) = Some ty"
      using InputNames_nth \<open>i < length (InputNames_of f)\<close> by blast
    show ?thesis
      using resolveInput_ok [of c "InputNames_of f ! i" ty] cl(1) that ty by (simp add: ce_in fields)
  qed
  have B: "\<exists>step def n. map_of (f_Steps f) (file_ids f ! i) = Some step \<and>
      Resolve (st_Uses step) (c_nodeReg c) = Inr def \<and>
      call_New def (\<lambda>new. new (st_With step)) = Inr (Some n) \<and> c_nodes ce ! i = Some n"
    if i: "i < length (file_ids f)" "\<not> isInput ce i" for i
  proof -
    have b: "built (resolveInputs c) i = resolveStep (resolveInputs c) (file_ids f ! i)"
      using i by (simp add: built_def inp isInput_def [of "resolveInputs c"] compiler_simps fields)
    obtain step where step: "map_of (f_Steps f) (file_ids f ! i) = Some step"
      using file_ids_step [OF i(1)] i(2) inp by blast
    have "fst (resolveStep (resolveInputs c) (file_ids f ! i)) = []" 
      unfolding b [symmetric] using cl(2) i(1) by (simp add: fields)
    moreover have "map_of (f_Steps (c_file (resolveInputs c))) (file_ids f ! i) = Some step"
      using step by (simp add: compiler_simps fields)
    ultimately obtain def n where "Resolve (st_Uses step) (c_nodeReg c) = Inr def"
      "call_New def (\<lambda>new. new (st_With step)) = Inr (Some n)"
      "snd (resolveStep (resolveInputs c) (file_ids f ! i)) = Some n"
      by (rule resolveStep_ok) (simp add: compiler_simps)
    with step i(1) b show ?thesis by (simp add: ce_in)
  qed
  have C: "dep \<in> set (file_ids f)"
    if "i < length (file_ids f)" "dep \<in> set (needs_of f (file_ids f ! i))" for i dep
    using undeclared_nil [OF cl(3), of "file_ids f ! i" dep] that index_list_dom [of "file_ids f"]
    by (auto simp: c2_def compiler_simps fields)
  have D: "search ce \<noteq> Cycle path k" "search ce \<noteq> OutOfFuel" for path k
    using checkCycles_silent [OF cl(4) [unfolded c4_def]] search_agree [OF ag2]
    by (auto intro: search_result [OF comp])
  have E: "fst (checkStepEdges ce i) = [] \<and> c_deps ce ! i = snd (checkStepEdges ce i)"
    if "i < length (file_ids f)" for i
    using cl(5) that by (simp add: agree_edges(1) [OF ag] fields) (simp add: ce c4_def c2_def compiler_simps fields agree_edges(1))
  have F: "c_nodes ce ! i = None" if "i < length (file_ids f)" "isInput ce i" for i
    using that by (simp add: ce_in built_def inp isInput_def [of "resolveInputs c"] compiler_simps fields)
  have "checked tt f reg ce"
    unfolding checked_def using comp ce_in A B C D E F by (simp add: c_def)
  with p clean show ?thesis by (simp add: ce_def c_def)
qed

section \<open>Edges\<close>

text \<open>The step a port is bound to, by either form of needs.\<close>

definition bound_step :: "Needs \<Rightarrow> Descriptor \<Rightarrow> nat \<Rightarrow> string" where
  "bound_step nd desc k =
     (if nd_named nd then (case Needs_Port nd (pd_Name (d_Inputs desc ! k)) of None \<Rightarrow> '''' | Some dep \<Rightarrow> dep)
      else nd_order nd ! k)"

definition binds :: "Needs \<Rightarrow> Descriptor \<Rightarrow> bool" where
  "binds nd desc \<longleftrightarrow>
     (if nd_named nd then set (PortNames nd) = pd_Name ` set (d_Inputs desc)
      else length (nd_order nd) = Arity desc \<and> distinct (map pd_Type (d_Inputs desc)))"

lemma resolveNamedNeeds_clean:
  assumes "fst (resolveNamedNeeds c sid step desc) = []"
  shows "\<forall>p\<in>set (d_Inputs desc). Needs_Port (st_Needs step) (pd_Name p) \<noteq> None"
    "\<forall>name\<in>set (PortNames (st_Needs step)). name \<in> pd_Name ` set (d_Inputs desc)"
    "snd (resolveNamedNeeds c sid step desc) = Some (map (\<lambda>p. case Needs_Port (st_Needs step) (pd_Name p) of
        None \<Rightarrow> 0 | Some dep \<Rightarrow> index_of c dep) (d_Inputs desc))"
proof -
  let ?unbound = "concat (map (\<lambda>p. if Needs_Port (st_Needs step) (pd_Name p) = None
      then [problem sid ''input %q of node %q is not bound by needs (inputs: %s)''
              [AStr (pd_Name p), AStr (st_Uses step), InputNames desc]] else []) (d_Inputs desc))"
  let ?bound = "filter (\<lambda>name. Needs_Port (st_Needs step) name \<noteq> None) (map pd_Name (d_Inputs desc))"
  let ?unknown = "concat (map (\<lambda>name. if name \<notin> set ?bound
      then [problem sid ''needs binds %q, but node %q has no such input (inputs: %s)''
              [AStr name, AStr (st_Uses step), InputNames desc]] else []) (PortNames (st_Needs step)))"
  have both: "?unbound = []" "?unknown = []"
    using assms unfolding resolveNamedNeeds_def Let_def fst_conv append_is_Nil_conv by (rule conjunct1, rule conjunct2)
  show "\<forall>p\<in>set (d_Inputs desc). Needs_Port (st_Needs step) (pd_Name p) \<noteq> None"
    using both(1) [unfolded concat_map_nil_iff] by (auto split: if_splits)
  show "\<forall>name\<in>set (PortNames (st_Needs step)). name \<in> pd_Name ` set (d_Inputs desc)"
    using both(2) [unfolded concat_map_nil_iff] by (auto split: if_splits)
  show "snd (resolveNamedNeeds c sid step desc) = Some (map (\<lambda>p. case Needs_Port (st_Needs step) (pd_Name p) of
        None \<Rightarrow> 0 | Some dep \<Rightarrow> index_of c dep) (d_Inputs desc))"
    by (simp only: resolveNamedNeeds_def Let_def snd_conv both append_Nil if_True simp_thms)
qed

lemma resolveNeeds_clean:
  assumes "fst (resolveNeeds c sid step desc) = []"
  shows "binds (st_Needs step) desc"
    "snd (resolveNeeds c sid step desc) = Some (map (\<lambda>k. index_of c (bound_step (st_Needs step) desc k)) [0..<Arity desc])"
proof -
  have "binds (st_Needs step) desc \<and>
    snd (resolveNeeds c sid step desc) = Some (map (\<lambda>k. index_of c (bound_step (st_Needs step) desc k)) [0..<Arity desc])"
  proof (cases "nd_named (st_Needs step)")
    case True
    note n = resolveNamedNeeds_clean [of c sid step desc]
    have r: "resolveNeeds c sid step desc = resolveNamedNeeds c sid step desc" using True by (simp add: resolveNeeds_def)
    have "binds (st_Needs step) desc"
      using n(1,2) assms True unfolding r by (auto simp: binds_def PortNames_def Needs_Port_def)
    moreover have "map (\<lambda>p. case Needs_Port (st_Needs step) (pd_Name p) of None \<Rightarrow> 0 | Some dep \<Rightarrow> index_of c dep) (d_Inputs desc)
        = map (\<lambda>k. index_of c (bound_step (st_Needs step) desc k)) [0..<Arity desc]"
      using n(1) assms True unfolding r
      by (intro nth_equalityI) (auto simp: Arity_def bound_step_def split: option.splits dest!: bspec [OF _ nth_mem])
    ultimately show ?thesis using n(3) assms unfolding r by simp
  next
    case False
    with assms show ?thesis
      by (auto simp: resolveNeeds_def Let_def binds_def bound_step_def AmbiguousInputs_None_iff [symmetric]
          split: if_splits option.splits intro!: nth_equalityI)
  qed
  then show "binds (st_Needs step) desc"
    "snd (resolveNeeds c sid step desc) = Some (map (\<lambda>k. index_of c (bound_step (st_Needs step) desc k)) [0..<Arity desc])"
    by simp_all
qed

lemma bound_step_needs:
  assumes "binds nd desc" "k < Arity desc"
  shows "bound_step nd desc k \<in> set (Needs_Steps nd)"
proof (cases "nd_named nd")
  case True
  with assms have "pd_Name (d_Inputs desc ! k) \<in> set (PortNames nd)"
    by (simp add: binds_def Arity_def)
  then obtain dep where "map_of (nd_byPort nd) (pd_Name (d_Inputs desc ! k)) = Some dep"
    by (auto simp: PortNames_def)
  with True show ?thesis
    by (auto simp: bound_step_def Needs_Port_def set_Needs_Steps_named ran_def)
next
  case False
  with assms show ?thesis by (simp add: bound_step_def binds_def Needs_Steps_def)
qed

text \<open>A clean edge check: every port is bound, by a step that exists, to a value of its type.\<close>

lemma checkStepEdges_clean:
  assumes chk: "checked tt f reg c" and i: "i < length (file_ids f)" "\<not> isInput c i"
  obtains step n where "map_of (f_Steps f) (file_ids f ! i) = Some step" "c_nodes c ! i = Some n"
    "binds (st_Needs step) (rn_Descriptor n)" "length (c_deps c ! i) = Arity (rn_Descriptor n)"
    "\<And>k. k < Arity (rn_Descriptor n) \<Longrightarrow> c_deps c ! i ! k < length (file_ids f) \<and>
       file_ids f ! (c_deps c ! i ! k) = bound_step (st_Needs step) (rn_Descriptor n) k \<and>
       c_deps c ! i ! k \<in> set (graph_succs f i) \<and>
       outputType c (c_deps c ! i ! k) \<in> {'''', pd_Type (d_Inputs (rn_Descriptor n) ! k)}"
proof -
  have comp: "c_file c = f" "c_ids c = file_ids f" "c_index c = index_list (file_ids f)"
    using chk by (simp_all add: checked_def compiles_def)
  obtain step n where step: "map_of (f_Steps f) (file_ids f ! i) = Some step" and n: "c_nodes c ! i = Some n"
    using chk i unfolding checked_def by metis
  let ?desc = "rn_Descriptor n" and ?sid = "file_ids f ! i"
  have needs: "needs_of f ?sid = Needs_Steps (st_Needs step)" by (simp add: needs_of_def step)
  have declared: "dep \<in> dom (map_of (index_list (file_ids f)))" if "dep \<in> set (Needs_Steps (st_Needs step))" for dep
    using chk i that needs by (auto simp: checked_def index_list_dom)
  then have res: "dependenciesResolve c step" by (auto simp: dependenciesResolve_def comp)
  obtain ps r where nd: "resolveNeeds c ?sid step ?desc = (ps, r)" by fastforce
  have clean: "fst (checkStepEdges c i) = []" "c_deps c ! i = snd (checkStepEdges c i)"
    using chk i by (simp_all add: checked_def)
  have chkdef: "checkStepEdges c i = (case (ps, r) of (ps, None) \<Rightarrow> (ps, [])
      | (ps, Some deps) \<Rightarrow> (ps @ concat (map (\<lambda>(port, dep). checkPort c ?sid ?desc port dep) (enumerate 0 deps)), deps))"
    using i step n res nd by (simp add: checkStepEdges_def comp)
  have "ps = []" using clean(1) chkdef by (cases r) auto
  then have b: "binds (st_Needs step) ?desc"
    and r: "r = Some (map (\<lambda>k. index_of c (bound_step (st_Needs step) ?desc k)) [0..<Arity ?desc])"
    using resolveNeeds_clean [of c ?sid step ?desc] nd by simp_all
  define deps where "deps = map (\<lambda>k. index_of c (bound_step (st_Needs step) ?desc k)) [0..<Arity ?desc]"
  have ports: "\<forall>(port, dep)\<in>set (enumerate 0 deps). checkPort c ?sid ?desc port dep = []"
    and deps: "c_deps c ! i = deps"
    using clean chkdef r by (auto simp: deps_def [symmetric] concat_map_nil_iff)
  show ?thesis
  proof (rule that [OF step n b])
    show "length (c_deps c ! i) = Arity ?desc" by (simp add: deps deps_def)
    fix k assume k: "k < Arity ?desc"
    let ?dep = "bound_step (st_Needs step) ?desc k"
    have mem: "?dep \<in> set (Needs_Steps (st_Needs step))" by (rule bound_step_needs [OF b k])
    then obtain j where j: "map_of (index_list (file_ids f)) ?dep = Some j" using declared by blast
    then have dk: "deps ! k = j" using k by (simp add: deps_def index_of_def comp)
    have "(k, j) \<in> set (enumerate 0 deps)" using k dk by (force simp: in_set_enumerate_eq deps_def)
    then have "checkPort c ?sid ?desc k j = []" using ports by blast
    then have "outputType c j \<in> {'''', pd_Type (d_Inputs ?desc ! k)}"
      by (auto simp: checkPort_def Let_def split: if_splits)
    moreover have "j \<in> set (graph_succs f i)" using j mem needs by (auto simp: set_graph_succs)
    ultimately show "c_deps c ! i ! k < length (file_ids f) \<and> file_ids f ! (c_deps c ! i ! k) = ?dep \<and>
       c_deps c ! i ! k \<in> set (graph_succs f i) \<and> outputType c (c_deps c ! i ! k) \<in> {'''', pd_Type (d_Inputs ?desc ! k)}"
      using index_list_Some [OF j] by (simp add: deps dk)
  qed
qed

section \<open>The structure of a compiled plan\<close>

definition dep_rel :: "'w ExecutionPlan \<Rightarrow> (nat \<times> nat) set" where
  "dep_rel p = {(i, j). i < Plan_Len p \<and> j \<in> set (cs_Deps (p_Steps p ! i))}"

definition plan_wf :: "'w ExecutionPlan \<Rightarrow> bool" where
  "plan_wf p \<longleftrightarrow>
     length (p_Inputs p) \<le> Plan_Len p \<and> distinct (map cs_ID (p_Steps p)) \<and>
     (\<forall>i<length (p_Inputs p). pi_Step (p_Inputs p ! i) = i \<and> pi_Name (p_Inputs p ! i) = cs_ID (p_Steps p ! i)) \<and>
     (\<forall>i<Plan_Len p. IsInput (p_Steps p ! i) \<longleftrightarrow> i < length (p_Inputs p)) \<and>
     (\<forall>i<Plan_Len p. IsInput (p_Steps p ! i) \<longrightarrow> cs_Deps (p_Steps p ! i) = []) \<and>
     (\<forall>i<Plan_Len p. \<forall>n. cs_Node (p_Steps p ! i) = Some n \<longrightarrow>
        length (cs_Deps (p_Steps p ! i)) = Arity (rn_Descriptor n)) \<and>
     (\<forall>i<Plan_Len p. set (cs_Deps (p_Steps p ! i)) \<subseteq> {..<Plan_Len p}) \<and>
     (\<forall>i<Plan_Len p. cs_Dependents (p_Steps p ! i) =
        concat (map (\<lambda>k. replicate (count_list (cs_Deps (p_Steps p ! k)) i) k) [0..<Plan_Len p])) \<and>
     p_Roots p = filter (\<lambda>i. \<not> IsInput (p_Steps p ! i) \<and> cs_Deps (p_Steps p ! i) = []) [0..<Plan_Len p] \<and>
     (\<forall>i<Plan_Len p. cs_InputOffset (p_Steps p ! i) = (\<Sum>k<i. length (cs_Deps (p_Steps p ! k)))) \<and>
     p_TotalInputs p = (\<Sum>k<Plan_Len p. length (cs_Deps (p_Steps p ! k))) \<and>
     acyclic (dep_rel p) \<and>
     (\<forall>i<Plan_Len p. 1 \<le> rt_MaxAttempts (cs_Retry (p_Steps p ! i)) \<and>
        rt_MaxAttempts (cs_Retry (p_Steps p ! i)) \<le> MaxRetryAttempts)"

lemma filter_less_upt: "filter (\<lambda>i. i < m) [0..<n] = [0..<min m n]"
  by (induction n) (auto simp: min_def le_Suc_eq)

lemma offset_at_sum: "offset_at c k = (\<Sum>i<k. length (deps_at c i))"
  by (simp add: offset_at_def interv_sum_list_conv_sum_set_nat atLeast0LessThan)

lemma valid_retry:
  assumes "valid_file f" "c_file c = f"
  shows "1 \<le> rt_MaxAttempts (retry_at c i) \<and> rt_MaxAttempts (retry_at c i) \<le> MaxRetryAttempts"
  using assms
  by (auto simp: retry_at_def valid_file_def valid_step_def DefaultRetry_def MaxRetryAttempts_def split: option.splits)

lemma checked_inputs:
  assumes "checked tt f reg c"
  shows "p_Inputs (plan name c) = map (\<lambda>i. \<lparr>pi_Name = file_ids f ! i, pi_Type = c_inputTypes c ! i, pi_Step = i\<rparr>)
    [0..<length (InputNames_of f)]"
proof -
  have "isInput c i \<longleftrightarrow> i < length (InputNames_of f)" for i using assms by (simp add: isInput_def checked_def)
  moreover have "c_ids c = file_ids f" using assms by (simp add: checked_def compiles_def)
  moreover have "length (InputNames_of f) \<le> length (file_ids f)" by (simp add: file_ids_def)
  ultimately show ?thesis by (simp add: compiler_simps filter_less_upt min_absorb1 cong: filter_cong)
qed

lemma checked_plan_wf:
  assumes chk: "checked tt f reg c" and valid: "valid_file f"
  shows "plan_wf (plan name c)"
proof -
  have comp: "compiles f c" and comp': "c_file c = f" "c_ids c = file_ids f" and inp: "c_inputs c = InputNames_of f"
    using chk by (simp_all add: checked_def compiles_def)
  have isin: "isInput c i \<longleftrightarrow> i < length (InputNames_of f)" for i by (simp add: isInput_def inp)
  have le: "length (InputNames_of f) \<le> length (file_ids f)" by (simp add: file_ids_def)
  let ?n = "length (file_ids f)" and ?p = "plan name c"
  have len: "Plan_Len ?p = ?n" by (simp add: compiler_simps comp')
  note st = plan_step_fields [of _ c name, unfolded comp']
  have input: "IsInput (p_Steps ?p ! i) \<longleftrightarrow> i < length (InputNames_of f)" if "i < ?n" for i
    using chk that by (auto simp: IsInput_def st isin checked_def)
  have inputs: "p_Inputs ?p = map (\<lambda>i. \<lparr>pi_Name = file_ids f ! i, pi_Type = c_inputTypes c ! i, pi_Step = i\<rparr>)
      [0..<length (InputNames_of f)]"
    by (rule checked_inputs [OF chk])
  have deps: "set (deps_at c i) \<subseteq> set (graph_succs f i) \<and>
      (\<forall>nd. cs_Node (p_Steps ?p ! i) = Some nd \<longrightarrow> length (deps_at c i) = Arity (rn_Descriptor nd))" if "i < ?n" for i
  proof (cases "isInput c i")
    case True
    then show ?thesis using that by (simp add: deps_at_def st)
  next
    case False
    show ?thesis
      by (rule checkStepEdges_clean [OF chk that False])
        (auto simp: deps_at_def False st that in_set_conv_nth subset_iff)
  qed
  have range: "set (graph_succs f i) \<subseteq> {..<?n}" for i
    by (auto simp: set_graph_succs dest!: index_list_Some)
  have sub: "dep_rel ?p \<subseteq> needs_edges f"
    using deps unfolding dep_rel_def needs_edges_def len by (auto simp: st(3) subset_iff)
  have acyc: "acyclic (needs_edges f)"
    using chk by (cases rule: search_result [OF comp]) (simp_all add: checked_def)
  have ids: "map cs_ID (p_Steps ?p) = file_ids f"
    by (rule nth_equalityI) (simp_all add: compiler_simps comp' st)
  have sum: "(\<Sum>k<i. length (deps_at c k)) = (\<Sum>k<i. length (cs_Deps (p_Steps ?p ! k)))" if "i \<le> ?n" for i
    by (rule sum.cong) (use that in \<open>simp_all add: st\<close>)
  have roots: "p_Roots ?p = filter (\<lambda>i. \<not> IsInput (p_Steps ?p ! i) \<and> cs_Deps (p_Steps ?p ! i) = []) [0..<?n]"
    unfolding plan_fields comp' by (rule filter_cong) (simp_all add: input st isin)
  have rev: "cs_Dependents (p_Steps ?p ! i) =
      concat (map (\<lambda>k. replicate (count_list (cs_Deps (p_Steps ?p ! k)) i) k) [0..<?n])" if "i < ?n" for i
    unfolding st(6) [OF that] by (rule arg_cong [where f = concat], rule map_cong) (simp_all add: st)
  show ?thesis
    unfolding plan_wf_def len
  proof (intro conjI)
    show "acyclic (dep_rel ?p)" by (rule acyclic_subset [OF acyc sub])
    show "p_TotalInputs ?p = (\<Sum>k<?n. length (cs_Deps (p_Steps ?p ! k)))"
      using sum [of ?n] by (simp add: plan_fields comp' offset_at_sum)
    show "\<forall>i<?n. cs_InputOffset (p_Steps ?p ! i) = (\<Sum>k<i. length (cs_Deps (p_Steps ?p ! k)))"
      using sum by (simp add: st offset_at_sum)
    show "\<forall>i<?n. set (cs_Deps (p_Steps ?p ! i)) \<subseteq> {..<?n}"
      using deps range by (fastforce simp: st)
    show "\<forall>i<?n. \<forall>nd. cs_Node (p_Steps ?p ! i) = Some nd \<longrightarrow> length (cs_Deps (p_Steps ?p ! i)) = Arity (rn_Descriptor nd)"
      using deps by (simp add: st(3))
    show "\<forall>i<?n. IsInput (p_Steps ?p ! i) \<longrightarrow> cs_Deps (p_Steps ?p ! i) = []"
      by (simp add: input st deps_at_def isin)
    show "\<forall>i<?n. 1 \<le> rt_MaxAttempts (cs_Retry (p_Steps ?p ! i)) \<and> rt_MaxAttempts (cs_Retry (p_Steps ?p ! i)) \<le> MaxRetryAttempts"
      using valid_retry [OF valid comp'(1)] by (simp add: st)
  qed (use le roots rev ids distinct_ids [OF valid] in \<open>simp_all add: inputs input st\<close>)
qed

lemma Compile_plan_wf: "valid_file f \<Longrightarrow> Compile tt f reg name = Inr p \<Longrightarrow> plan_wf p"
  using Compile_checked [of tt f reg name p] checked_plan_wf by blast

section \<open>The types of a compiled plan\<close>

text \<open>
  A type table as the package initialisers leave it: consistent, and with no empty name
  (the empty TypeID is the compiler's sign for unknown). A sound registry builds only nodes
  that keep their descriptor's promise at registered types.
\<close>

definition good_types :: "type_table \<Rightarrow> bool" where
  "good_types tt \<longleftrightarrow> types_inv tt \<and> LookupType tt '''' = None"

lemma domain_good: "good_types domain_table"
proof -
  have "LookupType domain_table '''' = None" by code_simp
  then show ?thesis using domain_table_inv by (simp add: good_types_def)
qed

definition sound_nodes :: "type_table \<Rightarrow> ('c, 'w) NodeNew Registry \<Rightarrow> bool" where
  "sound_nodes tt R \<longleftrightarrow>
     (\<forall>name def new cfg n. Resolve name R = Inr def \<longrightarrow> def_New def = Some new \<longrightarrow> new cfg = Inr (Some n) \<longrightarrow>
        (\<exists>Is O'. node_sound tt Is O' n \<and> (\<forall>t\<in>set (O' # Is). registered tt t)))"

definition nodes_of :: "('c, 'w) Registries \<Rightarrow> ('c, 'w) NodeNew Registry" where
  "nodes_of reg = (case rg_Nodes reg of None \<Rightarrow> NewRegistry | Some R \<Rightarrow> R)"

definition triggers_of :: "('c, 'w) Registries \<Rightarrow> 'c TriggerNew Registry" where
  "triggers_of reg = (case rg_Triggers reg of None \<Rightarrow> trigger_NewRegistry | Some R \<Rightarrow> R)"

lemma new_compiler_regs:
  "c_nodeReg (new_compiler tt f reg) = nodes_of reg" "c_triggerReg (new_compiler tt f reg) = triggers_of reg"
  by (simp_all add: new_compiler_def withDefaults_def nodes_of_def triggers_of_def Let_def)

text \<open>
  A typing of a plan gives every step the Go type of its value; the edges into a node carry
  exactly the types it is sound for.
\<close>

definition plan_typed :: "type_table \<Rightarrow> 'w ExecutionPlan \<Rightarrow> (nat \<Rightarrow> gotype) \<Rightarrow> bool" where
  "plan_typed tt p ty \<longleftrightarrow>
     (\<forall>i<length (p_Inputs p). registered tt (ty i) \<and> pi_Type (p_Inputs p ! i) = TypeOf tt (ty i)) \<and>
     (\<forall>i<Plan_Len p. registered tt (ty i)) \<and>
     (\<forall>i<Plan_Len p. \<forall>n. cs_Node (p_Steps p ! i) = Some n \<longrightarrow>
        node_sound tt (map ty (cs_Deps (p_Steps p ! i))) (ty i) n)"

definition types_as :: "type_table \<Rightarrow> ('c, 'w) compiler \<Rightarrow> nat \<Rightarrow> gotype \<Rightarrow> bool" where
  "types_as tt c i t \<longleftrightarrow> registered tt t \<and> outputType c i = TypeOf tt t"

lemma TypeOf_nonempty: "good_types tt \<Longrightarrow> registered tt t \<Longrightarrow> TypeOf tt t \<noteq> ''''"
  using LookupType_TypeOf [of tt t] by (auto simp: good_types_def)

lemma checked_input_type:
  assumes "checked tt f reg c" "good_types tt" "i < length (InputNames_of f)"
  shows "\<exists>t. types_as tt c i t"
proof -
  have "isInput c i" using assms(1,3) by (simp add: checked_def isInput_def)
  moreover obtain t where "LookupType tt (c_inputTypes c ! i) = Some t"
    using assms(1,3) by (auto simp: checked_def)
  then have "map_of (byType tt) t = Some (c_inputTypes c ! i)"
    using assms(2) by (auto simp: good_types_def LookupType_def dest: types_invD2)
  ultimately show ?thesis by (auto simp: types_as_def registered_def TypeOf_def outputType_def)
qed

lemma sound_nodesD:
  assumes "sound_nodes tt R" "Resolve name R = Inr def" "call_New def (\<lambda>new. new cfg) = Inr (Some n)"
  shows "\<exists>Is O'. node_sound tt Is O' n \<and> (\<forall>t\<in>set (O' # Is). registered tt t)"
proof -
  obtain new where "def_New def = Some new" "new cfg = Inr (Some n)"
    using assms(3) by (auto simp: call_New_def split: option.splits)
  with assms(1,2) show ?thesis unfolding sound_nodes_def by blast
qed

lemma checked_node:
  assumes "checked tt f reg c" "i < length (file_ids f)" "\<not> isInput c i"
  obtains step def n where "map_of (f_Steps f) (file_ids f ! i) = Some step"
    "Resolve (st_Uses step) (nodes_of reg) = Inr def"
    "call_New def (\<lambda>new. new (st_With step)) = Inr (Some n)" "c_nodes c ! i = Some n"
  using assms unfolding checked_def new_compiler_regs by metis

lemma checked_node_sound:
  assumes "checked tt f reg c" "sound_nodes tt (nodes_of reg)" "i < length (file_ids f)" "\<not> isInput c i"
    "c_nodes c ! i = Some n"
  shows "\<exists>Is O'. node_sound tt Is O' n \<and> (\<forall>t\<in>set Is. registered tt t) \<and> types_as tt c i O'"
proof -
  obtain step def where "map_of (f_Steps f) (file_ids f ! i) = Some step" "Resolve (st_Uses step) (nodes_of reg) = Inr def"
    "call_New def (\<lambda>new. new (st_With step)) = Inr (Some n)"
    by (rule checked_node [OF assms(1,3,4)]) (use assms(5) in auto)
  then obtain Is O' where s: "node_sound tt Is O' n" "\<forall>t\<in>set (O' # Is). registered tt t"
    using sound_nodesD [OF assms(2)] by blast
  then have "pd_Type (d_Output (rn_Descriptor n)) = TypeOf tt O'" by (simp add: node_sound_def)
  with s assms(4,5) show ?thesis by (auto simp: types_as_def outputType_def)
qed

lemma checked_typed:
  assumes chk: "checked tt f reg c" and good: "good_types tt" and sound: "sound_nodes tt (nodes_of reg)"
  shows "\<exists>ty. (\<forall>i<length (file_ids f). types_as tt c i (ty i)) \<and> plan_typed tt (plan name c) ty"
proof -
  let ?n = "length (file_ids f)"
  have comp: "c_file c = f" "c_ids c = file_ids f" and inp: "c_inputs c = InputNames_of f"
    using chk by (simp_all add: checked_def compiles_def)
  have isin: "isInput c i \<longleftrightarrow> i < length (InputNames_of f)" for i by (simp add: isInput_def inp)
  have "\<exists>t. types_as tt c i t" if "i < ?n" for i
  proof (cases "isInput c i")
    case True
    then show ?thesis using checked_input_type [OF chk good] isin by blast
  next
    case False
    obtain n where "c_nodes c ! i = Some n" by (rule checked_node [OF chk \<open>i < ?n\<close> False])
    then show ?thesis using checked_node_sound [OF chk sound that False] by blast
  qed
  then obtain ty where ty: "\<And>i. i < ?n \<Longrightarrow> types_as tt c i (ty i)" by metis
  have edge: "node_sound tt (map ty (c_deps c ! i)) (ty i) n"
    if i: "i < ?n" "\<not> isInput c i" and n: "c_nodes c ! i = Some n" for i n
  proof -
    obtain Is O' where s: "node_sound tt Is O' n" "\<forall>t\<in>set Is. registered tt t" "types_as tt c i O'"
      using checked_node_sound [OF chk sound i n] by blast
    have "O' = ty i" using s(3) ty [OF i(1)] good
      by (auto simp: types_as_def good_types_def intro: TypeOf_registered_inj)
    obtain len: "length (c_deps c ! i) = Arity (rn_Descriptor n)" and
      out: "\<And>k. k < Arity (rn_Descriptor n) \<Longrightarrow> c_deps c ! i ! k < ?n \<and>
        outputType c (c_deps c ! i ! k) \<in> {'''', pd_Type (d_Inputs (rn_Descriptor n) ! k)}"
      by (rule checkStepEdges_clean [OF chk i]) (use n in auto)
    have ports: "map pd_Type (d_Inputs (rn_Descriptor n)) = map (TypeOf tt) Is"
      using s(1) by (simp add: node_sound_def)
    then have arity: "Arity (rn_Descriptor n) = length Is" by (metis Arity_def length_map)
    have "Is = map ty (c_deps c ! i)"
    proof (rule nth_equalityI)
      fix k assume k: "k < length Is"
      have "pd_Type (d_Inputs (rn_Descriptor n) ! k) = TypeOf tt (Is ! k)"
        using ports k by (metis length_map nth_map)
      moreover have d: "c_deps c ! i ! k < ?n" using out [of k] k arity by simp
      moreover have "outputType c (c_deps c ! i ! k) = TypeOf tt (ty (c_deps c ! i ! k))"
        "registered tt (ty (c_deps c ! i ! k))" using ty [OF d] by (simp_all add: types_as_def)
      ultimately have "TypeOf tt (Is ! k) = TypeOf tt (ty (c_deps c ! i ! k))"
        using out [of k] k arity TypeOf_nonempty [OF good] by auto
      then have "Is ! k = ty (c_deps c ! i ! k)"
        using good s(2) k ty [OF d] by (auto simp: good_types_def types_as_def intro: TypeOf_registered_inj)
      then show "Is ! k = map ty (c_deps c ! i) ! k" using k arity len by simp
    qed (use arity len in simp)
    with s(1) \<open>O' = ty i\<close> show ?thesis by simp
  qed
  have "registered tt (ty i) \<and> c_inputTypes c ! i = TypeOf tt (ty i)" if "i < length (InputNames_of f)" for i
    using ty [of i] that isin [of i] by (simp add: types_as_def outputType_def file_ids_def)
  moreover have "registered tt (ty i)" if "i < ?n" for i using ty [OF that] by (simp add: types_as_def)
  ultimately have "plan_typed tt (plan name c) ty"
    using edge
    unfolding plan_typed_def checked_inputs [OF chk] by (auto simp: compiler_simps comp deps_at_def split: if_splits)
  with ty show ?thesis by blast
qed

lemma Compile_typed:
  assumes "Compile tt f reg name = Inr p" "good_types tt" "sound_nodes tt (nodes_of reg)"
  shows "\<exists>ty. plan_typed tt p ty"
  using Compile_checked [OF assms(1)] checked_typed [OF _ assms(2,3)] by blast

text \<open>Every port of every step is fed by the step the file binds to it.\<close>

lemma Compile_binding:
  assumes "Compile tt f reg name = Inr p" "i < Plan_Len p" "cs_Node (p_Steps p ! i) = Some n"
  obtains step where "map_of (f_Steps f) (cs_ID (p_Steps p ! i)) = Some step"
    "binds (st_Needs step) (rn_Descriptor n)"
    "map (\<lambda>d. cs_ID (p_Steps p ! d)) (cs_Deps (p_Steps p ! i)) =
       map (bound_step (st_Needs step) (rn_Descriptor n)) [0..<Arity (rn_Descriptor n)]"
proof -
  define c where "c = compile_phases (new_compiler tt f reg)"
  have p: "p = plan name c" and chk: "checked tt f reg c"
    using Compile_checked [OF assms(1)] by (simp_all add: c_def)
  have comp: "c_file c = f" "c_ids c = file_ids f" using chk by (simp_all add: checked_def compiles_def)
  have i: "i < length (file_ids f)" using assms(2) by (simp add: p compiler_simps comp)
  have no: "\<not> isInput c i" "c_nodes c ! i = Some n"
    using assms(3) i by (auto simp: p compiler_simps comp split: if_splits)
  obtain step where step: "map_of (f_Steps f) (file_ids f ! i) = Some step"
    "binds (st_Needs step) (rn_Descriptor n)" "length (c_deps c ! i) = Arity (rn_Descriptor n)"
    "\<And>k. k < Arity (rn_Descriptor n) \<Longrightarrow> c_deps c ! i ! k < length (file_ids f) \<and>
       file_ids f ! (c_deps c ! i ! k) = bound_step (st_Needs step) (rn_Descriptor n) k"
    by (rule checkStepEdges_clean [OF chk i no(1)]) (use no(2) in auto)
  show ?thesis
  proof (rule that [OF _ step(2)])
    show "map_of (f_Steps f) (cs_ID (p_Steps p ! i)) = Some step"
      using step(1) i by (simp add: p compiler_simps comp)
    show "map (\<lambda>d. cs_ID (p_Steps p ! d)) (cs_Deps (p_Steps p ! i)) =
       map (bound_step (st_Needs step) (rn_Descriptor n)) [0..<Arity (rn_Descriptor n)]"
      by (rule nth_equalityI) (use step(3,4) i no in \<open>simp_all add: p compiler_simps comp deps_at_def\<close>)
  qed
qed

section \<open>The inputs of a compiled plan\<close>

text \<open>A plan's inputs are exactly the declared ones, each at the type the document gives it.\<close>

lemma Compile_inputs:
  assumes "Compile tt f reg name = Inr p"
  shows "map_of (f_Inputs f) x = Some ty \<longleftrightarrow> (\<exists>inp\<in>set (p_Inputs p). pi_Name inp = x \<and> pi_Type inp = ty)"
proof -
  define c where "c = compile_phases (new_compiler tt f reg)"
  have p: "p = plan name c" and chk: "checked tt f reg c" using Compile_checked [OF assms] by (simp_all add: c_def)
  have ty: "map_of (f_Inputs f) (InputNames_of f ! i) = Some (c_inputTypes c ! i)" if "i < length (InputNames_of f)" for i
    using chk that by (simp add: checked_def)
  have nth: "file_ids f ! i = InputNames_of f ! i" if "i < length (InputNames_of f)" for i
    using that by (simp add: file_ids_def nth_append)
  have "map_of (f_Inputs f) x = Some ty \<longleftrightarrow>
      (\<exists>i<length (InputNames_of f). InputNames_of f ! i = x \<and> c_inputTypes c ! i = ty)"
  proof
    assume a: "map_of (f_Inputs f) x = Some ty"
    then have "x \<in> set (InputNames_of f)" by (force simp: InputNames_of_def dest: map_of_SomeD)
    then obtain i where "i < length (InputNames_of f)" "InputNames_of f ! i = x" by (auto simp: in_set_conv_nth)
    with a ty show "\<exists>i<length (InputNames_of f). InputNames_of f ! i = x \<and> c_inputTypes c ! i = ty" by auto
  qed (use ty in auto)
  then show ?thesis unfolding p checked_inputs [OF chk] using nth by (auto simp: image_iff)
qed

section \<open>The trigger block of a compiled plan\<close>

definition trigger_wf :: "'w ExecutionPlan \<Rightarrow> TriggerBinding \<Rightarrow> bool" where
  "trigger_wf p tb \<longleftrightarrow>
     (\<forall>i<length (p_Inputs p).
        Provided (tr_Descriptor (tb_Trigger tb)) (pi_Name (p_Inputs p ! i)) = Some (pi_Type (p_Inputs p ! i))) \<and>
     (tr_HTTPDriven (tb_Trigger tb) \<noteq> None \<longrightarrow> sint (tb_Timeout tb) > 0) \<and>
     tb_Overlap tb \<in> {OverlapAllow, OverlapDrop} \<and>
     (tb_RespondStep tb = -1 \<or>
      (\<exists>i n h. tb_RespondStep tb = int i \<and> i < Plan_Len p \<and> cs_Node (p_Steps p ! i) = Some n \<and>
         tr_HTTPDriven (tb_Trigger tb) = Some h \<and> pd_Type (d_Output (rn_Descriptor n)) \<in> set (ht_ResponseTypes h)))"

lemma resolveTrigger_clean:
  assumes "c_problems (resolveTrigger c) = []" "f_Trigger (c_file c) = Some spec"
  obtains def t where "trigger_Resolve (ts_Uses spec) (c_triggerReg c) = Inr def"
    "call_New def (\<lambda>new. new (ts_With spec)) = Inr (Some t)"
    "\<forall>i<length (c_inputs c). checkSupplied c spec (tr_Descriptor t) i = []"
    "tr_HTTPDriven t \<noteq> None \<longrightarrow> sint (ts_Timeout spec) > 0"
    "fst (resolveRespondWith c spec (tr_HTTPDriven t)) = []"
    "c_trigger (resolveTrigger c) = Some \<lparr>tb_Uses = ts_Uses spec, tb_Trigger = t,
       tb_RespondStep = snd (resolveRespondWith c spec (tr_HTTPDriven t)), tb_Timeout = ts_Timeout spec,
       tb_Overlap = (if ts_OnOverlap spec = '''' then OverlapDefault t else ts_OnOverlap spec)\<rparr>"
  using assms
  by (auto simp: resolveTrigger_def fail_all_def Let_def concat_map_nil_iff not_le
      split: sum.splits option.splits if_splits)

lemma resolveRespondWith_clean:
  assumes "fst (resolveRespondWith c spec ans) = []"
  shows "snd (resolveRespondWith c spec ans) = -1 \<or>
    (\<exists>i h. snd (resolveRespondWith c spec ans) = int i \<and> ans = Some h \<and> \<not> isInput c i \<and>
       map_of (c_index c) (ts_RespondWith spec) = Some i \<and> outputType c i \<noteq> '''' \<and>
       outputType c i \<in> set (ht_ResponseTypes h))"
  using assms by (auto simp: resolveRespondWith_def Let_def split: option.splits if_splits)

lemma checkSupplied_clean:
  "checkSupplied c spec desc i = [] \<Longrightarrow> c_inputTypes c ! i \<noteq> '''' \<Longrightarrow>
   Provided desc (c_inputs c ! i) = Some (c_inputTypes c ! i)"
  by (auto simp: checkSupplied_def Let_def split: option.splits if_splits)

lemma checkEdges_trigger: "c_trigger (checkEdges (checkCycles (checkDependencies (resolve (resolveInputs c))))) = c_trigger c"
  by (simp add: compiler_simps)

lemma Compile_trigger:
  assumes "Compile tt f reg name = Inr p"
  shows "p_Trigger p = None \<longleftrightarrow> f_Trigger f = None"
    and "p_Trigger p = Some tb \<Longrightarrow> valid_file f \<Longrightarrow> LookupType tt '''' = None \<Longrightarrow> trigger_wf p tb"
    and "p_Trigger p = Some tb \<Longrightarrow> \<exists>spec def new. f_Trigger f = Some spec \<and>
      trigger_Resolve (ts_Uses spec) (triggers_of reg) = Inr def \<and> def_New def = Some new \<and>
      new (ts_With spec) = Inr (Some (tb_Trigger tb))"
proof -
  define c5 where "c5 = checkEdges (checkCycles (checkDependencies (resolve (resolveInputs (new_compiler tt f reg)))))"
  define c where "c = compile_phases (new_compiler tt f reg)"
  have p: "p = plan name c" and chk: "checked tt f reg c" and clean: "c_problems c = []"
    using Compile_checked [OF assms] by (simp_all add: c_def)
  have c: "c = resolveTrigger c5" by (simp add: c_def compile_phases_def c5_def)
  have ag: "agree c c5" unfolding c by (rule agree_phases)
  have c5: "c_file c5 = f" "c_trigger c5 = None" "c_triggerReg c5 = triggers_of reg" "c_ids c = file_ids f" "c_index c5 = c_index c"
    by (simp_all add: c5_def c_def compile_phases_def compiler_simps new_compiler_regs)
  note ag' = agree_edges [OF ag]
  have res: "\<exists>def t. trigger_Resolve (ts_Uses spec) (triggers_of reg) = Inr def \<and>
      call_New def (\<lambda>new. new (ts_With spec)) = Inr (Some t) \<and>
      (\<forall>i<length (c_inputs c). checkSupplied c spec (tr_Descriptor t) i = []) \<and>
      (tr_HTTPDriven t \<noteq> None \<longrightarrow> sint (ts_Timeout spec) > 0) \<and>
      fst (resolveRespondWith c spec (tr_HTTPDriven t)) = [] \<and>
      c_trigger c = Some \<lparr>tb_Uses = ts_Uses spec, tb_Trigger = t,
       tb_RespondStep = snd (resolveRespondWith c spec (tr_HTTPDriven t)), tb_Timeout = ts_Timeout spec,
       tb_Overlap = (if ts_OnOverlap spec = '''' then OverlapDefault t else ts_OnOverlap spec)\<rparr>"
    if "f_Trigger f = Some spec" for spec
    by (rule resolveTrigger_clean [of c5 spec])
      (use clean that ag in \<open>auto simp: c [symmetric] c5 ag' agree_def\<close>)
  have none: "c_trigger c = None" if "f_Trigger f = None"
    using that by (simp add: c resolveTrigger_def c5)
  show "p_Trigger p = None \<longleftrightarrow> f_Trigger f = None"
    using none res by (cases "f_Trigger f") (auto simp: p compiler_simps)
  show "\<exists>spec def new. f_Trigger f = Some spec \<and>
      trigger_Resolve (ts_Uses spec) (triggers_of reg) = Inr def \<and> def_New def = Some new \<and>
      new (ts_With spec) = Inr (Some (tb_Trigger tb))" if tb: "p_Trigger p = Some tb"
  proof (cases "f_Trigger f")
    case None
    with none tb show ?thesis by (simp add: p compiler_simps)
  next
    case (Some spec)
    with res [OF Some] tb show ?thesis
      by (auto simp: p compiler_simps call_New_def split: option.splits)
  qed
  show "trigger_wf p tb" if tb: "p_Trigger p = Some tb" and valid: "valid_file f" and blank: "LookupType tt '''' = None"
  proof -
    obtain spec where spec: "f_Trigger f = Some spec" using none tb by (cases "f_Trigger f") (auto simp: p compiler_simps)
    obtain t where t: "\<forall>i<length (c_inputs c). checkSupplied c spec (tr_Descriptor t) i = []"
      "tr_HTTPDriven t \<noteq> None \<longrightarrow> sint (ts_Timeout spec) > 0"
      "fst (resolveRespondWith c spec (tr_HTTPDriven t)) = []"
      "tb = \<lparr>tb_Uses = ts_Uses spec, tb_Trigger = t,
       tb_RespondStep = snd (resolveRespondWith c spec (tr_HTTPDriven t)), tb_Timeout = ts_Timeout spec,
       tb_Overlap = (if ts_OnOverlap spec = '''' then OverlapDefault t else ts_OnOverlap spec)\<rparr>"
      using res [OF spec] tb by (auto simp: p compiler_simps)
    have inp: "c_inputs c = InputNames_of f" "c_index c = index_list (file_ids f)"
      using chk by (simp_all add: checked_def compiles_def)
    have overlap: "tb_Overlap tb \<in> {OverlapAllow, OverlapDrop}"
      using valid spec by (auto simp: t(4) valid_file_def OverlapDefault_def)
    have "\<forall>i<length (InputNames_of f). c_inputTypes c ! i \<noteq> ''''" using chk blank by (auto simp: checked_def)
    then have supplied: "\<forall>i<length (InputNames_of f). Provided (tr_Descriptor t) (file_ids f ! i) = Some (c_inputTypes c ! i)"
      using t(1) checkSupplied_clean [of c spec "tr_Descriptor t"] by (simp add: inp file_ids_def nth_append)
    have respond: "tb_RespondStep tb = -1 \<or>
      (\<exists>i n h. tb_RespondStep tb = int i \<and> i < length (file_ids f) \<and> cs_Node (p_Steps p ! i) = Some n \<and>
         tr_HTTPDriven t = Some h \<and> pd_Type (d_Output (rn_Descriptor n)) \<in> set (ht_ResponseTypes h))"
      using resolveRespondWith_clean [OF t(3)]
    proof
      assume "\<exists>i h. snd (resolveRespondWith c spec (tr_HTTPDriven t)) = int i \<and> tr_HTTPDriven t = Some h \<and>
        \<not> isInput c i \<and> map_of (c_index c) (ts_RespondWith spec) = Some i \<and> outputType c i \<noteq> '''' \<and>
        outputType c i \<in> set (ht_ResponseTypes h)"
      then obtain i h where ih: "snd (resolveRespondWith c spec (tr_HTTPDriven t)) = int i" "tr_HTTPDriven t = Some h"
        "\<not> isInput c i" "map_of (index_list (file_ids f)) (ts_RespondWith spec) = Some i"
        "outputType c i \<noteq> ''''" "outputType c i \<in> set (ht_ResponseTypes h)" by (auto simp: inp)
      then have "i < length (file_ids f)" by (auto dest: index_list_Some)
      with ih show ?thesis
        by (auto simp: t(4) p compiler_simps c5 outputType_def split: option.splits)
    qed (simp add: t(4))
    show ?thesis
      unfolding trigger_wf_def p checked_inputs [OF chk]
      using overlap supplied respond t(2) by (simp add: p compiler_simps c5 t(4))
  qed
qed

section \<open>Cyclic files\<close>

text \<open>A cyclic file is refused, and among the problems reported is one of its cycles.\<close>

lemma checkEdges_mono: "\<exists>ps. c_problems (checkEdges c) = c_problems c @ ps"
  by (auto simp: checkEdges_def fail_all_def Let_def compiler_simps)

lemma Compile_cycle:
  assumes "valid_file f" "\<not> acyclic (needs_rel f)"
  shows "\<exists>ps names. Compile tt f reg name = Inl ps \<and>
    problem '''' ''dependency cycle: %s'' [AQuoted names] \<in> set ps \<and> 2 \<le> length names \<and> hd names = last names \<and>
    successively (\<lambda>a b. (a, b) \<in> needs_rel f) names"
proof -
  define c where "c = checkDependencies (resolve (resolveInputs (new_compiler tt f reg)))"
  have "compiles f c" by (simp add: c_def compiler_simps)
  then obtain names where names: "2 \<le> length names" "hd names = last names"
    "successively (\<lambda>a b. (a, b) \<in> needs_rel f) names"
    "checkCycles c = fail_all [problem '''' ''dependency cycle: %s'' [AQuoted names]] c"
    using checkCycles_correct [OF assms(1)] assms(2) by auto
  obtain ps qs where "c_problems (checkEdges (checkCycles c)) = c_problems (checkCycles c) @ ps"
    "c_problems (compile_phases (new_compiler tt f reg)) = c_problems (checkEdges (checkCycles c)) @ qs"
    using checkEdges_mono [of "checkCycles c"] problems_mono(3) [of "checkEdges (checkCycles c)"]
    by (auto simp: compile_phases_def c_def)
  then have "problem '''' ''dependency cycle: %s'' [AQuoted names] \<in> set (c_problems (compile_phases (new_compiler tt f reg)))"
    by (simp add: names(4) fail_all_def)
  with names(1-3) show ?thesis by (auto simp: Compile_def Let_def)
qed

end
