(* ===== verification/Executor.thy ===== *)
theory Executor
  imports Plan
begin

text \<open>
  What one run records (\<^verbatim>\<open>internal/runtime/state.go\<close>), how one step is executed under its
  retry policy (\<^verbatim>\<open>internal/runtime/executor.go\<close>) and the mutation guard
  (\<^verbatim>\<open>internal/runtime/mutation.go\<close>). The coordinator that runs many steps is the theory
  \<open>Scheduler\<close>.

  What a step's goroutine observes while it runs is an argument: for each attempt the world
  the node sees, how long it took, and when the run's context ends during the backoff.
\<close>

section \<open>Executions\<close>

datatype State = StatePending | StateRunning | StateSucceeded | StateFailed | StateCancelled | StateSkipped

fun State_String :: "State \<Rightarrow> string" where
  "State_String StatePending = ''pending''"
| "State_String StateRunning = ''running''"
| "State_String StateSucceeded = ''succeeded''"
| "State_String StateFailed = ''failed''"
| "State_String StateCancelled = ''cancelled''"
| "State_String StateSkipped = ''skipped''"

record StepResult =
  sr_ID :: string
  sr_State :: State
  sr_Value :: Value
  sr_Err :: "node_error option"
  sr_Meta :: ResultMeta

record MutationViolation =
  mv_Step :: string
  mv_Consumers :: "string list"
  mv_Before :: string
  mv_After :: string

record 'w Execution =
  ex_ID :: string
  ex_Plan :: "'w ExecutionPlan"
  ex_Steps :: "StepResult list"
  ex_FailedStep :: int
  ex_Cancelled :: bool
  ex_Abandoned :: nat
  ex_Mutations :: "MutationViolation list"

definition Execution_Failed :: "'w Execution \<Rightarrow> bool" where
  "Execution_Failed e \<longleftrightarrow> ex_FailedStep e \<ge> 0 \<or> ex_Cancelled e"

definition Execution_Err :: "'w Execution \<Rightarrow> node_error option" where
  "Execution_Err e =
     (if ex_FailedStep e \<ge> 0 then sr_Err (ex_Steps e ! nat (ex_FailedStep e))
      else if ex_Cancelled e
      then Some (Errf KindCancelled ''cancelled'' ''execution %q was cancelled'' [AStr (ex_ID e)])
      else None)"

definition Execution_Result :: "'w Execution \<Rightarrow> string \<Rightarrow> StepResult option" where
  "Execution_Result e stepID =
     (case StepIndex (ex_Plan e) stepID of None \<Rightarrow> None | Some i \<Rightarrow> Some (ex_Steps e ! i))"

text \<open>The execution \<open>Run\<close> allocates.\<close>

definition new_execution :: "string \<Rightarrow> 'w ExecutionPlan \<Rightarrow> 'w Execution" where
  "new_execution eid p =
     \<lparr>ex_ID = eid, ex_Plan = p,
      ex_Steps = map (\<lambda>s. \<lparr>sr_ID = cs_ID s, sr_State = StatePending, sr_Value = zero_value,
                          sr_Err = None, sr_Meta = zero_meta\<rparr>) (p_Steps p),
      ex_FailedStep = -1, ex_Cancelled = False, ex_Abandoned = 0, ex_Mutations = []\<rparr>"

definition supply_input :: "Value gomap \<Rightarrow> PlanInput \<Rightarrow> ResultValue" where
  "supply_input supplied inp =
     (case map_of supplied (pi_Name inp) of
        None \<Rightarrow> err_result (Errf KindInvalidInput ''input_missing'' ''input %q was not supplied'' [AStr (pi_Name inp)])
      | Some v \<Rightarrow>
          if v_typ v \<noteq> pi_Type inp
          then err_result (Errf KindInvalidInput ''input_type''
                 ''input %q is declared %s but the value supplied is %s''
                 [AStr (pi_Name inp), AStr (pi_Type inp), AStr (v_typ v)])
          else \<lparr>rv_Value = v, rv_Err = None, rv_Meta = zero_meta\<rparr>)"

record completion =
  cp_index :: nat
  cp_result :: ResultValue

text \<open>\<open>record\<close> stores a completion and reports whether it was a failure.\<close>

definition recorded :: "ResultValue \<Rightarrow> StepResult \<Rightarrow> StepResult" where
  "recorded r s =
     (case rv_Err r of
        Some e \<Rightarrow> s\<lparr>sr_Meta := rv_Meta r, sr_Err := Some e,
                     sr_State := (if err_Kind e = KindCancelled then StateCancelled else StateFailed)\<rparr>
      | None \<Rightarrow> s\<lparr>sr_Meta := rv_Meta r, sr_State := StateSucceeded, sr_Value := rv_Value r\<rparr>)"

definition record_completion :: "completion \<Rightarrow> 'w Execution \<Rightarrow> 'w Execution \<times> bool" where
  "record_completion c e =
     (e\<lparr>ex_Steps := (ex_Steps e)[cp_index c := recorded (cp_result c) (ex_Steps e ! cp_index c)]\<rparr>,
      rv_Err (cp_result c) \<noteq> None)"

section \<open>One step under its retry policy\<close>

definition invoke :: "'w RuntimeNode option \<Rightarrow> 'w \<Rightarrow> ExecutionContext \<Rightarrow> Value list \<Rightarrow> ResultValue" where
  "invoke n w ec inputs =
     (case (case n of None \<Rightarrow> Panics ''nil'' | Some m \<Rightarrow> rn_Execute m w ec inputs) of
        Returns r \<Rightarrow> r
      | Panics v \<Rightarrow>
          err_result (set_Cause (EFmt (Sprintf ''%s'' []))
            (Errf KindInternal ''panic'' ''node %q panicked: %v'' [AStr (ec_StepID ec), AStr v])))"

text \<open>
  A context ends with one of two errors. \<open>until\<close> is when it ends, in nanoseconds from the
  start of the wait, if it does; \<open>tie\<close> resolves a \<open>select\<close> with both arms ready.
\<close>

datatype ctx_err = Canceled | DeadlineExceeded

fun ctx_error :: "ctx_err \<Rightarrow> go_error" where
  "ctx_error Canceled = ECanceled"
| "ctx_error DeadlineExceeded = EDeadlineExceeded"

definition wait :: "(nat \<times> ctx_err) option \<Rightarrow> bool \<Rightarrow> duration \<Rightarrow> ctx_err option" where
  "wait until tie d =
     (case until of
        None \<Rightarrow> None
      | Some (t, e) \<Rightarrow>
          if sint d \<le> 0 then (if t = 0 then Some e else None)
          else if int t < sint d \<or> int t = sint d \<and> tie then Some e
          else None)"

record 'w attempt_obs =
  ao_world :: 'w
  ao_elapsed :: duration
  ao_until :: "(nat \<times> ctx_err) option"
  ao_tie :: bool

definition attempt_result ::
  "(int \<Rightarrow> 'w attempt_obs) \<Rightarrow> 'w CompiledStep \<Rightarrow> ExecutionContext \<Rightarrow> Value list \<Rightarrow> int \<Rightarrow> ResultValue" where
  "attempt_result obs step ec inputs attempt =
     (invoke (cs_Node step) (ao_world (obs attempt)) (ec\<lparr>ec_Attempt := attempt\<rparr>) inputs)
       \<lparr>rv_Meta := \<lparr>rm_Duration = ao_elapsed (obs attempt), rm_Attempt = attempt\<rparr>\<rparr>"

function runStep_from ::
  "(int \<Rightarrow> 'w attempt_obs) \<Rightarrow> 'w CompiledStep \<Rightarrow> ExecutionContext \<Rightarrow> Value list \<Rightarrow> int \<Rightarrow> duration \<Rightarrow> ResultValue" where
  "runStep_from obs step ec inputs attempt backoff =
     (let result = attempt_result obs step ec inputs attempt in
      case rv_Err result of
        None \<Rightarrow> result
      | Some e \<Rightarrow>
          if \<not> err_Retryable e \<or> attempt \<ge> rt_MaxAttempts (cs_Retry step) then result
          else
            (case wait (ao_until (obs attempt)) (ao_tie (obs attempt)) backoff of
               Some err \<Rightarrow> \<lparr>rv_Value = zero_value, rv_Err = Normalize (Some (ctx_error err)) ''cancelled'',
                            rv_Meta = rv_Meta result\<rparr>
             | None \<Rightarrow> runStep_from obs step ec inputs (attempt + 1) (backoff * 2)))"
  by pat_completeness auto
termination
  by (relation "measure (\<lambda>(obs, step, ec, inputs, attempt, backoff). nat (rt_MaxAttempts (cs_Retry step) - attempt))")
    auto

declare runStep_from.simps [simp del]

definition runStep ::
  "(int \<Rightarrow> 'w attempt_obs) \<Rightarrow> 'w CompiledStep \<Rightarrow> ExecutionContext \<Rightarrow> Value list \<Rightarrow> ResultValue" where
  "runStep obs step ec inputs = runStep_from obs step ec inputs 1 (rt_Backoff (cs_Retry step))"

section \<open>The mutation guard\<close>

text \<open>
  \<open>render\<close> prints what a reference points to, so it is a function of the heap: it is an
  argument, and may differ between the recording and the check.
\<close>

record mutationGuard =
  mg_enabled :: bool
  mg_snapshots :: "string list"
  mg_taken :: "bool list"

definition newMutationGuard :: "bool \<Rightarrow> nat \<Rightarrow> mutationGuard" where
  "newMutationGuard enabled steps =
     (if enabled
      then \<lparr>mg_enabled = True, mg_snapshots = replicate steps '''', mg_taken = replicate steps False\<rparr>
      else \<lparr>mg_enabled = False, mg_snapshots = [], mg_taken = []\<rparr>)"

definition guard_record :: "(Value \<Rightarrow> string) \<Rightarrow> nat \<Rightarrow> Value \<Rightarrow> mutationGuard \<Rightarrow> mutationGuard" where
  "guard_record render index v g =
     (if \<not> mg_enabled g \<or> IsZero v then g
      else g\<lparr>mg_snapshots := (mg_snapshots g)[index := render v], mg_taken := (mg_taken g)[index := True]\<rparr>)"

definition consumerNames :: "'w Execution \<Rightarrow> nat \<Rightarrow> string list" where
  "consumerNames e index = map (\<lambda>d. sr_ID (ex_Steps e ! d)) (cs_Dependents (p_Steps (ex_Plan e) ! index))"

definition guard_check_step :: "(Value \<Rightarrow> string) \<Rightarrow> mutationGuard \<Rightarrow> 'w Execution \<Rightarrow> nat \<Rightarrow> MutationViolation list" where
  "guard_check_step render g e i =
     (if \<not> mg_taken g ! i then []
      else
        let after = render (sr_Value (ex_Steps e ! i)) in
        if after = mg_snapshots g ! i then []
        else [\<lparr>mv_Step = sr_ID (ex_Steps e ! i), mv_Consumers = consumerNames e i,
               mv_Before = mg_snapshots g ! i, mv_After = after\<rparr>])"

definition guard_check :: "(Value \<Rightarrow> string) \<Rightarrow> mutationGuard \<Rightarrow> 'w Execution \<Rightarrow> MutationViolation list" where
  "guard_check render g e =
     (if \<not> mg_enabled g then []
      else concat (map (guard_check_step render g e) [0..<length (ex_Steps e)]))"

section \<open>What running a step guarantees\<close>

text \<open>
  The run stops at attempt \<open>k\<close>: every attempt before it failed retryably and was followed by
  an uninterrupted wait of the doubled backoff; attempt \<open>k\<close> succeeded, failed for good or was
  the last one allowed, or the wait after it was cut short.
\<close>

definition retries :: "(int \<Rightarrow> 'w attempt_obs) \<Rightarrow> 'w CompiledStep \<Rightarrow> ExecutionContext \<Rightarrow> Value list \<Rightarrow> int \<Rightarrow> bool" where
  "retries obs step ec inputs a \<longleftrightarrow>
     (\<exists>e. rv_Err (attempt_result obs step ec inputs a) = Some e \<and> err_Retryable e)"

definition waited :: "(int \<Rightarrow> 'w attempt_obs) \<Rightarrow> int \<Rightarrow> duration \<Rightarrow> ctx_err option" where
  "waited obs a d = wait (ao_until (obs a)) (ao_tie (obs a)) d"

lemma runStep_from_stops:
  "\<exists>k\<ge>a. (\<forall>j. a \<le> j \<and> j < k \<longrightarrow> retries obs step ec inputs j \<and>
        waited obs j (b * 2 ^ nat (j - a)) = None \<and> j < rt_MaxAttempts (cs_Retry step)) \<and>
     (let r = attempt_result obs step ec inputs k in
        (runStep_from obs step ec inputs a b = r \<and>
         (\<not> retries obs step ec inputs k \<or> k \<ge> rt_MaxAttempts (cs_Retry step))) \<or>
        (retries obs step ec inputs k \<and> k < rt_MaxAttempts (cs_Retry step) \<and>
         (\<exists>err. waited obs k (b * 2 ^ nat (k - a)) = Some err \<and>
            runStep_from obs step ec inputs a b =
              \<lparr>rv_Value = zero_value, rv_Err = Normalize (Some (ctx_error err)) ''cancelled'', rv_Meta = rv_Meta r\<rparr>)))"
proof (induction obs step ec inputs a b rule: runStep_from.induct)
  case (1 obs step ec inputs a b)
  let ?r = "attempt_result obs step ec inputs a"
  show ?case
  proof (cases "retries obs step ec inputs a \<and> a < rt_MaxAttempts (cs_Retry step) \<and> waited obs a b = None")
    case False
    then show ?thesis
      by (intro exI [of _ a])
        (auto simp: runStep_from.simps [of obs step ec inputs a b] retries_def waited_def Let_def
          split: option.splits)
  next
    case True
    then obtain e where e: "rv_Err ?r = Some e" "err_Retryable e" by (auto simp: retries_def)
    have eq: "runStep_from obs step ec inputs a b = runStep_from obs step ec inputs (a + 1) (b * 2)"
      using True e by (simp add: runStep_from.simps [of obs step ec inputs a b] waited_def Let_def)
    have shift: "b * 2 * 2 ^ nat (j - (a + 1)) = b * 2 ^ nat (j - a)" if "a + 1 \<le> j" for j
    proof -
      have "nat (j - a) = Suc (nat (j - (a + 1)))" using that by auto
      then show ?thesis by (simp add: mult.assoc)
    qed
    from 1 [OF refl e(1)] True e obtain k where
      k: "a + 1 \<le> k" "\<forall>j. a + 1 \<le> j \<and> j < k \<longrightarrow> retries obs step ec inputs j \<and>
        waited obs j (b * 2 * 2 ^ nat (j - (a + 1))) = None \<and> j < rt_MaxAttempts (cs_Retry step)"
      and res: "let r = attempt_result obs step ec inputs k in
        (runStep_from obs step ec inputs (a + 1) (b * 2) = r \<and>
         (\<not> retries obs step ec inputs k \<or> k \<ge> rt_MaxAttempts (cs_Retry step))) \<or>
        (retries obs step ec inputs k \<and> k < rt_MaxAttempts (cs_Retry step) \<and>
         (\<exists>err. waited obs k (b * 2 * 2 ^ nat (k - (a + 1))) = Some err \<and>
            runStep_from obs step ec inputs (a + 1) (b * 2) =
              \<lparr>rv_Value = zero_value, rv_Err = Normalize (Some (ctx_error err)) ''cancelled'', rv_Meta = rv_Meta r\<rparr>))"
      by (auto simp: waited_def)
    have "retries obs step ec inputs j \<and> waited obs j (b * 2 ^ nat (j - a)) = None \<and> j < rt_MaxAttempts (cs_Retry step)"
      if "a \<le> j" "j < k" for j
    proof (cases "j = a")
      case False
      then have "a + 1 \<le> j" using that by simp
      with k(2) that(2) show ?thesis using shift [of j] by metis
    qed (use True in simp)
    with k(1) res show ?thesis unfolding eq shift [OF k(1)] by (intro exI [of _ k]) auto
  qed
qed

lemma runStep_attempts_bounded:
  assumes "1 \<le> rt_MaxAttempts (cs_Retry step)"
  shows "1 \<le> rm_Attempt (rv_Meta (runStep obs step ec inputs))"
    "rm_Attempt (rv_Meta (runStep obs step ec inputs)) \<le> rt_MaxAttempts (cs_Retry step)"
proof -
  have m: "rm_Attempt (rv_Meta (attempt_result obs step ec inputs k)) = k" for k
    by (simp add: attempt_result_def)
  obtain k where "1 \<le> k" "\<forall>j. 1 \<le> j \<and> j < k \<longrightarrow> j < rt_MaxAttempts (cs_Retry step)"
    "rm_Attempt (rv_Meta (runStep obs step ec inputs)) = k"
    using runStep_from_stops [of 1 obs step ec inputs "rt_Backoff (cs_Retry step)"]
    unfolding runStep_def Let_def by (auto simp: m)
  moreover have "k \<le> rt_MaxAttempts (cs_Retry step)"
    using calculation(2) [rule_format, of "k - 1"] calculation(1) assms by (cases "k = 1") auto
  ultimately show "1 \<le> rm_Attempt (rv_Meta (runStep obs step ec inputs))"
    "rm_Attempt (rv_Meta (runStep obs step ec inputs)) \<le> rt_MaxAttempts (cs_Retry step)" by simp_all
qed

text \<open>A property every attempt has, and that the cancellation error has, is one the step has.\<close>

lemma runStep_cases:
  assumes "\<And>k. P (attempt_result obs step ec inputs k)"
    and "\<And>k err. P \<lparr>rv_Value = zero_value, rv_Err = Normalize (Some (ctx_error err)) ''cancelled'',
           rv_Meta = rv_Meta (attempt_result obs step ec inputs k)\<rparr>"
  shows "P (runStep obs step ec inputs)"
  using runStep_from_stops [of 1 obs step ec inputs "rt_Backoff (cs_Retry step)"] assms
  unfolding runStep_def Let_def by (metis (no_types, lifting))

lemma ctx_error_normal:
  "\<exists>ne. Normalize (Some (ctx_error err)) code = Some ne \<and> err_Kind ne = KindCancelled \<and> \<not> engine_error ne"
  by (cases err) (auto simp: engine_error_def)

lemma runStep_typed:
  assumes "node_sound tt Is O' n" "cs_Node step = Some n"
  shows "rv_Err (runStep obs step ec inputs) = None \<Longrightarrow> fits tt O' (rv_Value (runStep obs step ec inputs))"
    "list_all2 (fits tt) Is inputs \<Longrightarrow> rv_Err (runStep obs step ec inputs) = Some e \<Longrightarrow> \<not> engine_error e"
proof -
  let ?P = "\<lambda>r. (rv_Err r = None \<longrightarrow> fits tt O' (rv_Value r)) \<and>
    (list_all2 (fits tt) Is inputs \<longrightarrow> (\<forall>e. rv_Err r = Some e \<longrightarrow> \<not> engine_error e))"
  have inv: "?P (invoke (Some n) w ec inputs)" for w ec
    using assms(1) unfolding node_sound_def invoke_def
    by (cases "rn_Execute n w ec inputs") (auto simp: err_result_def engine_error_def)
  have "?P (runStep obs step ec inputs)"
  proof (rule runStep_cases)
    fix k err
    show "?P (attempt_result obs step ec inputs k)" using inv by (simp add: attempt_result_def assms(2))
    show "?P \<lparr>rv_Value = zero_value, rv_Err = Normalize (Some (ctx_error err)) ''cancelled'',
        rv_Meta = rv_Meta (attempt_result obs step ec inputs k)\<rparr>"
      using ctx_error_normal [of err "''cancelled''"] by auto
  qed
  then show "rv_Err (runStep obs step ec inputs) = None \<Longrightarrow> fits tt O' (rv_Value (runStep obs step ec inputs))"
    "list_all2 (fits tt) Is inputs \<Longrightarrow> rv_Err (runStep obs step ec inputs) = Some e \<Longrightarrow> \<not> engine_error e"
    by auto
qed

end
