(* ===== verification/Scheduler.thy ===== *)
theory Scheduler
  imports Executor
begin

text \<open>
  One run's coordinator (\<^verbatim>\<open>internal/runtime/scheduler.go\<close>, \<open>Run\<close> of
  \<^verbatim>\<open>internal/runtime/executor.go\<close>): its state, its operations, and the run as an
  event-driven transition system.

  The coordinator's own operations are functions on the record \<open>scheduler\<close>, named as in the
  source. Around them stands the part of the process they interact with: the goroutines that
  run steps (\<open>g_running\<close>, in \<open>runStep\<close>; \<open>g_releasing\<close>, past the send on \<open>done\<close> and about to
  return their slot), the shared slot pool with the other runs' share of it, the caller's
  context, and the heap as \<open>render\<close> sees it. An event is one atomic move of any of them, so
  every interleaving of the coordinator with its steps and with other runs is a sequence of
  events. The coordinator's program counter is at the top of \<open>loop\<close>, in its \<open>select\<close>, or
  past \<open>finalize\<close>.
\<close>

section \<open>Options and state\<close>

definition DefaultMaxConcurrency :: int where "DefaultMaxConcurrency = 256"
definition DefaultAbandonAfter :: duration where "DefaultAbandonAfter = 5000000000"

record Options =
  op_WorkflowID :: string
  op_Inputs :: "Value gomap"
  op_ExecutionID :: string
  op_MaxConcurrency :: int
  op_Slots :: bool
  op_AbandonAfter :: duration
  op_DetectMutation :: bool
  op_InlineSoloSteps :: bool

text \<open>The capacity of a new shared pool.\<close>

definition NewSlots :: "int \<Rightarrow> int call" where
  "NewSlots size' = (if size' \<le> 0 then Panics ''runtime: slot pool size must be positive'' else Returns size')"

datatype pc = AtTop | AtSelect | Returned

record 'w scheduler =
  s_ex :: "'w Execution"
  s_plan :: "'w ExecutionPlan"
  s_workflowID :: string
  s_maxConcurrency :: int
  s_abandonAfter :: duration
  s_inline :: bool
  s_cancelled :: bool
  s_inputs :: "Value list"
  s_contexts :: "ExecutionContext list"
  s_unmet :: "int list"
  s_done :: "completion list"
  s_ready :: "nat list"
  s_slots :: bool
  s_launched :: nat
  s_inflight :: int
  s_stopped :: bool
  s_abandonTimer :: bool
  s_guard :: mutationGuard
  s_callerDone :: bool
  s_pc :: pc
  g_running :: "nat list"
  g_releasing :: nat
  pool_cap :: nat
  pool_others :: nat
  ctx_done :: bool
  heap_render :: "Value \<Rightarrow> string"

definition zero_context :: ExecutionContext where
  "zero_context = \<lparr>ec_WorkflowID = '''', ec_ExecutionID = '''', ec_StepID = '''', ec_Attempt = 0\<rparr>"

text \<open>\<open>env\<close> is the surrounding process: pool capacity, the slots other runs hold, the heap.\<close>

record environment =
  en_cap :: nat
  en_others :: nat
  en_ctx_done :: bool
  en_render :: "Value \<Rightarrow> string"

definition newScheduler :: "environment \<Rightarrow> 'w Execution \<Rightarrow> 'w ExecutionPlan \<Rightarrow> Options \<Rightarrow> 'w scheduler" where
  "newScheduler env ex p opts =
     \<lparr>s_ex = ex, s_plan = p,
      s_workflowID = (if op_WorkflowID opts = '''' then p_Name p else op_WorkflowID opts),
      s_maxConcurrency = (if op_MaxConcurrency opts \<le> 0 then DefaultMaxConcurrency else op_MaxConcurrency opts),
      s_abandonAfter = (if sint (op_AbandonAfter opts) \<le> 0 then DefaultAbandonAfter else op_AbandonAfter opts),
      s_inline = op_InlineSoloSteps opts, s_cancelled = False,
      s_inputs = replicate (p_TotalInputs p) zero_value,
      s_contexts = replicate (length (p_Steps p)) zero_context,
      s_unmet = map (\<lambda>st. int (length (cs_Deps st))) (p_Steps p),
      s_done = [], s_ready = [], s_slots = op_Slots opts, s_launched = 0, s_inflight = 0,
      s_stopped = False, s_abandonTimer = False,
      s_guard = newMutationGuard (op_DetectMutation opts) (length (p_Steps p)),
      s_callerDone = True, s_pc = AtTop, g_running = [], g_releasing = 0,
      pool_cap = en_cap env, pool_others = en_others env, ctx_done = en_ctx_done env,
      heap_render = en_render env\<rparr>"

section \<open>The coordinator's operations\<close>

fun write_at :: "nat \<Rightarrow> 'a list \<Rightarrow> 'a list \<Rightarrow> 'a list" where
  "write_at o' [] buf = buf"
| "write_at o' (v # vs) buf = write_at (Suc o') vs (buf[o' := v])"

text \<open>The slice \<open>s.inputs[InputOffset : InputOffset+len(Deps)]\<close>, shared with the step's goroutine.\<close>

definition input_slice :: "'w scheduler \<Rightarrow> nat \<Rightarrow> Value list" where
  "input_slice s i = take (length (cs_Deps (p_Steps (s_plan s) ! i)))
                       (drop (cs_InputOffset (p_Steps (s_plan s) ! i)) (s_inputs s))"

definition prepare :: "nat \<Rightarrow> 'w scheduler \<Rightarrow> 'w scheduler" where
  "prepare i s =
     (let step = p_Steps (s_plan s) ! i in
      s\<lparr>s_inputs := write_at (cs_InputOffset step)
                      (map (\<lambda>dep. sr_Value (ex_Steps (s_ex s) ! dep)) (cs_Deps step)) (s_inputs s),
        s_contexts := (s_contexts s)[i := \<lparr>ec_WorkflowID = s_workflowID s, ec_ExecutionID = ex_ID (s_ex s),
                                           ec_StepID = cs_ID step, ec_Attempt = 0\<rparr>],
        s_ex := (s_ex s)\<lparr>ex_Steps := (ex_Steps (s_ex s))[i := (ex_Steps (s_ex s) ! i)\<lparr>sr_State := StateRunning\<rparr>]\<rparr>\<rparr>)"

text \<open>Every slot in use: the ones this run's goroutines hold, and the other runs'.\<close>

definition own_slots :: "'w scheduler \<Rightarrow> nat" where
  "own_slots s = (if s_slots s then length (g_running s) + g_releasing s else 0)"

definition pool_free :: "'w scheduler \<Rightarrow> bool" where
  "pool_free s \<longleftrightarrow> own_slots s + pool_others s < pool_cap s"

definition tryTake :: "'w scheduler \<Rightarrow> bool" where
  "tryTake s \<longleftrightarrow> \<not> s_slots s \<or> pool_free s"

definition launch :: "nat \<Rightarrow> 'w scheduler \<Rightarrow> 'w scheduler" where
  "launch i s =
     (let s1 = prepare i s in s1\<lparr>s_inflight := s_inflight s1 + 1, g_running := g_running s1 @ [i]\<rparr>)"

definition launch_next :: "'w scheduler \<Rightarrow> 'w scheduler" where
  "launch_next s = (let s1 = launch (s_ready s ! s_launched s) s in s1\<lparr>s_launched := s_launched s1 + 1\<rparr>)"

lemma launch_next_cursor [simp]:
  "s_launched (launch_next s) = s_launched s + 1" "s_ready (launch_next s) = s_ready s"
  by (simp_all add: launch_next_def launch_def prepare_def Let_def)

function pump :: "'w scheduler \<Rightarrow> 'w scheduler" where
  "pump s =
     (if s_launched s < length (s_ready s) \<and> s_inflight s < s_maxConcurrency s \<and> tryTake s
      then pump (launch_next s) else s)"
  by pat_completeness auto
termination
  by (relation "measure (\<lambda>s. length (s_ready s) - s_launched s)") auto

declare pump.simps [simp del]

definition windDown :: "'w scheduler \<Rightarrow> 'w scheduler" where
  "windDown s = s\<lparr>s_cancelled := True, s_abandonTimer := True\<rparr>"

definition unblock :: "nat \<Rightarrow> 'w scheduler \<Rightarrow> 'w scheduler" where
  "unblock d s =
     (let left = s_unmet s ! d - 1 in
      s\<lparr>s_unmet := (s_unmet s)[d := left],
        s_ready := (if left = 0 then s_ready s @ [d] else s_ready s)\<rparr>)"

definition handle :: "completion \<Rightarrow> 'w scheduler \<Rightarrow> 'w scheduler" where
  "handle c s =
     (let (ex1, failed) = record_completion c (s_ex s);
          s1 = (if failed \<and> \<not> s_stopped s
                then windDown (s\<lparr>s_ex := ex1\<lparr>ex_FailedStep := int (cp_index c)\<rparr>, s_stopped := True\<rparr>)
                else s\<lparr>s_ex := ex1\<rparr>);
          s2 = s1\<lparr>s_guard := guard_record (heap_render s1) (cp_index c)
                               (sr_Value (ex_Steps (s_ex s1) ! cp_index c)) (s_guard s1)\<rparr>
      in if s_stopped s2 then s2
         else fold unblock (cs_Dependents (p_Steps (s_plan s2) ! cp_index c)) s2)"

definition supply_one :: "Value gomap \<Rightarrow> PlanInput \<Rightarrow> 'w scheduler \<Rightarrow> 'w scheduler" where
  "supply_one supplied inp = handle \<lparr>cp_index = pi_Step inp, cp_result = supply_input supplied inp\<rparr>"

definition supplyInputs :: "Value gomap \<Rightarrow> 'w scheduler \<Rightarrow> 'w scheduler" where
  "supplyInputs supplied s =
     (let s1 = fold (supply_one supplied) (p_Inputs (s_plan s)) s in
      s1\<lparr>s_ready := s_ready s1 @ p_Roots (s_plan s1)\<rparr>)"

text \<open>A step's goroutine, or the inline call, running \<open>runStep\<close> to its end.\<close>

definition run_step :: "(int \<Rightarrow> 'w attempt_obs) \<Rightarrow> nat \<Rightarrow> 'w scheduler \<Rightarrow> ResultValue" where
  "run_step obs i s = runStep obs (p_Steps (s_plan s) ! i) (s_contexts s ! i) (input_slice s i)"

definition set_attempt :: "nat \<Rightarrow> ResultValue \<Rightarrow> 'w scheduler \<Rightarrow> 'w scheduler" where
  "set_attempt i r s =
     s\<lparr>s_contexts := (s_contexts s)[i := (s_contexts s ! i)\<lparr>ec_Attempt := rm_Attempt (rv_Meta r)\<rparr>]\<rparr>"

definition tryInline :: "(int \<Rightarrow> 'w attempt_obs) \<Rightarrow> 'w scheduler \<Rightarrow> 'w scheduler option" where
  "tryInline obs s =
     (if \<not> s_inline s \<or> s_stopped s \<or> s_inflight s \<noteq> 0 \<or> int (length (s_ready s)) - int (s_launched s) \<noteq> 1
      then None
      else if \<not> tryTake s then None
      else
        let i = s_ready s ! s_launched s;
            s1 = prepare i (s\<lparr>s_launched := s_launched s + 1\<rparr>);
            result = run_step obs i s1
        in Some (handle \<lparr>cp_index = i, cp_result = result\<rparr> (set_attempt i result s1)))"

text \<open>Whether the pool arm of the select is on; with no shared pool its channel is nil.\<close>

definition waitingOn :: "'w scheduler \<Rightarrow> bool" where
  "waitingOn s \<longleftrightarrow>
     \<not> s_stopped s \<and> s_launched s < length (s_ready s) \<and> s_inflight s < s_maxConcurrency s \<and> s_slots s"

definition abandonedErr :: "'w scheduler \<Rightarrow> nat \<Rightarrow> node_error" where
  "abandonedErr s i =
     (if HonoursCancellation (cs_Node (p_Steps (s_plan s) ! i))
      then Errf KindInternal ''broken_cancellation''
             ''step %q declared that it honours cancellation and was still running %s after the execution stopped, so that promise is wrong''
             [AStr (sr_ID (ex_Steps (s_ex s) ! i)), AInt (sint (s_abandonAfter s))]
      else Errf KindCancelled ''abandoned'' ''step %q was still running %s after the execution stopped''
             [AStr (sr_ID (ex_Steps (s_ex s) ! i)), AInt (sint (s_abandonAfter s))])"

definition abandon_step :: "nat \<Rightarrow> 'w scheduler \<Rightarrow> 'w scheduler" where
  "abandon_step i s =
     (if sr_State (ex_Steps (s_ex s) ! i) = StateRunning
      then s\<lparr>s_ex := (s_ex s)
              \<lparr>ex_Steps := (ex_Steps (s_ex s))[i := (ex_Steps (s_ex s) ! i)
                            \<lparr>sr_State := StateCancelled, sr_Err := Some (abandonedErr s i)\<rparr>],
               ex_Abandoned := ex_Abandoned (s_ex s) + 1\<rparr>\<rparr>
      else s)"

definition skip_step :: "StepResult \<Rightarrow> StepResult" where
  "skip_step r = (if sr_State r = StatePending then r\<lparr>sr_State := StateSkipped\<rparr> else r)"

definition finalize :: "bool \<Rightarrow> 'w scheduler \<Rightarrow> 'w scheduler" where
  "finalize abandoned s =
     (let s1 = (if abandoned
                then let s0 = fold abandon_step [0..<length (ex_Steps (s_ex s))] s
                     in if \<not> Execution_Failed (s_ex s0) then s0\<lparr>s_ex := (s_ex s0)\<lparr>ex_Cancelled := True\<rparr>\<rparr> else s0
                else s);
          s2 = s1\<lparr>s_ex := (s_ex s1)\<lparr>ex_Steps := map skip_step (ex_Steps (s_ex s1))\<rparr>\<rparr>
      in s2\<lparr>s_ex := (s_ex s2)\<lparr>ex_Mutations := guard_check (heap_render s2) (s_guard s2) (s_ex s2)\<rparr>\<rparr>)"

text \<open>\<open>finalize\<close>, then the deferred \<open>close\<close>, which cancels the run's context.\<close>

definition return_run :: "bool \<Rightarrow> 'w scheduler \<Rightarrow> 'w scheduler" where
  "return_run abandoned s = (finalize abandoned s)\<lparr>s_cancelled := True, s_pc := Returned\<rparr>"

section \<open>The run as a transition system\<close>

datatype 'w event =
    Top "int \<Rightarrow> 'w attempt_obs"
  | TakeSlot
  | ReceiveDone
  | CallerDone
  | Abandon
  | StepFinishes nat "int \<Rightarrow> 'w attempt_obs"
  | StepReleases
  | ContextEnds
  | OtherTakes
  | OtherReleases
  | HeapChanges "Value \<Rightarrow> string"

definition top_step :: "(int \<Rightarrow> 'w attempt_obs) \<Rightarrow> 'w scheduler \<Rightarrow> 'w scheduler" where
  "top_step obs s =
     (case tryInline obs s of
        Some s' \<Rightarrow> s'
      | None \<Rightarrow>
          let s1 = (if s_stopped s then s else pump s) in
          if s_inflight s1 = 0 \<and> \<not> waitingOn s1 then return_run False s1 else s1\<lparr>s_pc := AtSelect\<rparr>)"

fun sched_step :: "'w event \<Rightarrow> 'w scheduler \<Rightarrow> 'w scheduler option" where
  "sched_step (Top obs) s = (if s_pc s = AtTop then Some (top_step obs s) else None)"
| "sched_step TakeSlot s =
     (if s_pc s = AtSelect \<and> waitingOn s \<and> pool_free s then Some ((launch_next s)\<lparr>s_pc := AtTop\<rparr>) else None)"
| "sched_step ReceiveDone s =
     (if s_pc s \<noteq> AtSelect then None
      else (case s_done s of
              [] \<Rightarrow> None
            | c # cs \<Rightarrow> Some ((handle c (s\<lparr>s_done := cs, s_inflight := s_inflight s - 1\<rparr>))\<lparr>s_pc := AtTop\<rparr>)))"
| "sched_step CallerDone s =
     (if s_pc s = AtSelect \<and> s_callerDone s \<and> ctx_done s
      then Some ((windDown (if \<not> s_stopped s
                            then s\<lparr>s_callerDone := False, s_stopped := True, s_ex := (s_ex s)\<lparr>ex_Cancelled := True\<rparr>\<rparr>
                            else s\<lparr>s_callerDone := False\<rparr>))\<lparr>s_pc := AtTop\<rparr>)
      else None)"
| "sched_step Abandon s =
     (if s_pc s = AtSelect \<and> s_abandonTimer s then Some (return_run True s) else None)"
| "sched_step (StepFinishes i obs) s =
     (if i \<in> set (g_running s) \<and> length (s_done s) < length (p_Steps (s_plan s))
      then let r = run_step obs i s in
        Some ((set_attempt i r s)\<lparr>s_done := s_done s @ [\<lparr>cp_index = i, cp_result = r\<rparr>],
                                    g_running := remove1 i (g_running s),
                                    g_releasing := (if s_slots s then g_releasing s + 1 else g_releasing s)\<rparr>)
      else None)"
| "sched_step StepReleases s =
     (if g_releasing s > 0 then Some (s\<lparr>g_releasing := g_releasing s - 1\<rparr>) else None)"
| "sched_step ContextEnds s = Some (s\<lparr>ctx_done := True, s_cancelled := True\<rparr>)"
| "sched_step OtherTakes s =
     (if pool_free s then Some (s\<lparr>pool_others := pool_others s + 1\<rparr>) else None)"
| "sched_step OtherReleases s =
     (if pool_others s > 0 then Some (s\<lparr>pool_others := pool_others s - 1\<rparr>) else None)"
| "sched_step (HeapChanges r) s = Some (s\<lparr>heap_render := r\<rparr>)"

text \<open>\<open>Run\<close>, up to the start of \<open>loop\<close>; a plan without steps returns at once.\<close>

definition Run_start :: "environment \<Rightarrow> string \<Rightarrow> 'w ExecutionPlan \<Rightarrow> Options \<Rightarrow> 'w scheduler" where
  "Run_start env fresh p opts =
     (let ex = new_execution (if op_ExecutionID opts \<noteq> '''' then op_ExecutionID opts else fresh) p;
          s = newScheduler env ex p opts
      in if length (p_Steps p) = 0 then s\<lparr>s_pc := Returned\<rparr> else supplyInputs (op_Inputs opts) s)"

end
