(* ===== verification/Run_Invariant.thy ===== *)
theory Run_Invariant
  imports Scheduler
begin

text \<open>
  The coordinator's invariant. The scheduler relies on a plan only through the laws of the
  locale \<open>executable_plans\<close>, which \<open>plan_wf\<close> implements; inside it every operation of the
  coordinator is shown to keep the invariant \<open>core\<close>.
\<close>

section \<open>The contract between compiler and coordinator\<close>

abbreviation nsteps :: "'w ExecutionPlan \<Rightarrow> nat" where "nsteps p \<equiv> length (p_Steps p)"
abbreviation deps :: "'w ExecutionPlan \<Rightarrow> nat \<Rightarrow> nat list" where "deps p i \<equiv> cs_Deps (p_Steps p ! i)"
abbreviation is_input :: "'w ExecutionPlan \<Rightarrow> nat \<Rightarrow> bool" where "is_input p i \<equiv> IsInput (p_Steps p ! i)"
abbreviation offset :: "'w ExecutionPlan \<Rightarrow> nat \<Rightarrow> nat" where "offset p i \<equiv> cs_InputOffset (p_Steps p ! i)"

locale executable_plans =
  fixes wf :: "'w ExecutionPlan \<Rightarrow> bool"
  assumes input_iff: "wf p \<Longrightarrow> i < nsteps p \<Longrightarrow> is_input p i \<longleftrightarrow> i < length (p_Inputs p)"
    and inputs_le: "wf p \<Longrightarrow> length (p_Inputs p) \<le> nsteps p"
    and input_step: "wf p \<Longrightarrow> k < length (p_Inputs p) \<Longrightarrow> pi_Step (p_Inputs p ! k) = k"
    and input_deps: "wf p \<Longrightarrow> i < length (p_Inputs p) \<Longrightarrow> deps p i = []"
    and deps_range: "wf p \<Longrightarrow> i < nsteps p \<Longrightarrow> d \<in> set (deps p i) \<Longrightarrow> d < nsteps p"
    and dependents_range: "wf p \<Longrightarrow> j < nsteps p \<Longrightarrow> set (cs_Dependents (p_Steps p ! j)) \<subseteq> {..<nsteps p}"
    and dependents_count: "wf p \<Longrightarrow> j < nsteps p \<Longrightarrow> i < nsteps p \<Longrightarrow>
      count_list (cs_Dependents (p_Steps p ! j)) i = count_list (deps p i) j"
    and roots: "wf p \<Longrightarrow> distinct (p_Roots p) \<and> set (p_Roots p) = {i. i < nsteps p \<and> \<not> is_input p i \<and> deps p i = []}"
    and slices_fit: "wf p \<Longrightarrow> i < nsteps p \<Longrightarrow> offset p i + length (deps p i) \<le> p_TotalInputs p"
    and slices_disjoint: "wf p \<Longrightarrow> i < j \<Longrightarrow> j < nsteps p \<Longrightarrow> offset p i + length (deps p i) \<le> offset p j"
    and deps_acyclic: "wf p \<Longrightarrow> acyclic {(i, j). i < nsteps p \<and> j \<in> set (deps p i)}"

lemma count_concat_replicate:
  "count_list (concat (map (\<lambda>k. replicate (f k) k) [0..<n])) i = (if i < n then f i else 0)"
proof (induction n)
  case 0
  then show ?case by simp
next
  case (Suc n)
  have "count_list (replicate m k) i = (if k = i then m else 0)" for m k
    by (induction m) auto
  with Suc show ?case by auto
qed

lemma set_concat_replicate: "set (concat (map (\<lambda>k. replicate (f k) k) [0..<n])) \<subseteq> {..<n}"
  by auto

interpretation wf_plans: executable_plans plan_wf
proof
  fix p :: "'w ExecutionPlan" and i j d k
  assume wf: "plan_wf p"
  have n: "Plan_Len p = nsteps p" by (simp add: Plan_Len_def)
  note W = wf [unfolded plan_wf_def n]
  show "is_input p i \<longleftrightarrow> i < length (p_Inputs p)" if "i < nsteps p" using W that by blast
  show le: "length (p_Inputs p) \<le> nsteps p" using W by blast
  show "pi_Step (p_Inputs p ! k) = k" if "k < length (p_Inputs p)" using W that by blast
  show "deps p i = []" if "i < length (p_Inputs p)" using W that le by fastforce
  show "d < nsteps p" if "i < nsteps p" "d \<in> set (deps p i)" using W that by blast
  have rev: "cs_Dependents (p_Steps p ! j) =
      concat (map (\<lambda>k. replicate (count_list (deps p k) j) k) [0..<nsteps p])" if "j < nsteps p"
    using W that by blast
  show "set (cs_Dependents (p_Steps p ! j)) \<subseteq> {..<nsteps p}" if "j < nsteps p"
    unfolding rev [OF that] by (rule set_concat_replicate)
  show "count_list (cs_Dependents (p_Steps p ! j)) i = count_list (deps p i) j" if "j < nsteps p" "i < nsteps p"
    unfolding rev [OF that(1)] count_concat_replicate using that(2) by simp
  have "p_Roots p = filter (\<lambda>i. \<not> is_input p i \<and> deps p i = []) [0..<nsteps p]" using W by blast
  then show "distinct (p_Roots p) \<and> set (p_Roots p) = {i. i < nsteps p \<and> \<not> is_input p i \<and> deps p i = []}"
    by auto
  have off: "offset p i = (\<Sum>k<i. length (deps p k))" if "i < nsteps p" for i using W that by blast
  have total: "p_TotalInputs p = (\<Sum>k<nsteps p. length (deps p k))" using W by blast
  have mono: "(\<Sum>k<i. length (deps p k)) + length (deps p i) \<le> (\<Sum>k<m. length (deps p k))" if "i < m" for i m
  proof -
    have "(\<Sum>k<Suc i. length (deps p k)) \<le> (\<Sum>k<m. length (deps p k))"
      by (rule sum_mono2) (use that in auto)
    then show ?thesis by simp
  qed
  show "offset p i + length (deps p i) \<le> p_TotalInputs p" if "i < nsteps p"
    unfolding off [OF that] total by (rule mono [OF that])
  show "offset p i + length (deps p i) \<le> offset p j" if "i < j" "j < nsteps p"
    using mono [OF that(1)] off that by simp
  show "acyclic {(i, j). i < nsteps p \<and> j \<in> set (deps p i)}"
    using W unfolding dep_rel_def n by blast
qed

section \<open>The invariant\<close>

abbreviation st :: "'w scheduler \<Rightarrow> nat \<Rightarrow> State" where "st s i \<equiv> sr_State (ex_Steps (s_ex s) ! i)"
abbreviation val :: "'w scheduler \<Rightarrow> nat \<Rightarrow> Value" where "val s i \<equiv> sr_Value (ex_Steps (s_ex s) ! i)"

text \<open>Steps in flight: still running, or finished with the completion not yet received.\<close>

definition act :: "'w scheduler \<Rightarrow> nat list" where
  "act s = g_running s @ map cp_index (s_done s)"

definition started :: "'w scheduler \<Rightarrow> nat list" where
  "started s = take (s_launched s) (s_ready s)"

definition unmet_count :: "'w ExecutionPlan \<Rightarrow> 'w scheduler \<Rightarrow> nat \<Rightarrow> nat" where
  "unmet_count p s i = length (filter (\<lambda>d. st s d \<noteq> StateSucceeded) (deps p i))"

definition shape_ok :: "'w ExecutionPlan \<Rightarrow> 'w scheduler \<Rightarrow> bool" where
  "shape_ok p s \<longleftrightarrow>
     s_plan s = p \<and> ex_Plan (s_ex s) = p \<and> length (ex_Steps (s_ex s)) = nsteps p \<and> length (s_unmet s) = nsteps p \<and>
     length (s_contexts s) = nsteps p \<and> length (s_inputs s) = p_TotalInputs p \<and>
     (\<forall>i<nsteps p. sr_ID (ex_Steps (s_ex s) ! i) = cs_ID (p_Steps p ! i))"

definition queue_ok :: "'w ExecutionPlan \<Rightarrow> 'w scheduler \<Rightarrow> bool" where
  "queue_ok p s \<longleftrightarrow>
     distinct (s_ready s) \<and> s_launched s \<le> length (s_ready s) \<and>
     (\<forall>i\<in>set (s_ready s). i < nsteps p \<and> \<not> is_input p i \<and> (\<forall>d\<in>set (deps p i). st s d = StateSucceeded)) \<and>
     distinct (act s) \<and> set (act s) \<subseteq> set (started s) \<and> s_inflight s = int (length (act s)) \<and>
     s_inflight s \<le> s_maxConcurrency s \<and> 1 \<le> s_maxConcurrency s"

text \<open>\<open>X\<close> holds the steps in hand: about to be passed to \<open>handle\<close>.\<close>

definition states_ok :: "'w ExecutionPlan \<Rightarrow> nat set \<Rightarrow> 'w scheduler \<Rightarrow> bool" where
  "states_ok p X s \<longleftrightarrow>
     (\<forall>i\<in>X. i < nsteps p \<and> st s i \<in> {StatePending, StateRunning} \<and> i \<notin> set (act s) \<and>
        (is_input p i \<or> i \<in> set (started s))) \<and>
     (\<forall>i<nsteps p. i \<notin> X \<longrightarrow>
        (st s i = StateRunning \<longleftrightarrow> i \<in> set (act s)) \<and>
        (st s i = StatePending \<longleftrightarrow> \<not> is_input p i \<and> i \<notin> set (started s)) \<and> st s i \<noteq> StateSkipped) \<and>
     (\<forall>i<nsteps p. (sr_Err (ex_Steps (s_ex s) ! i) \<noteq> None \<longleftrightarrow> st s i \<in> {StateFailed, StateCancelled}) \<and>
        (st s i \<noteq> StateSucceeded \<longrightarrow> val s i = zero_value))"

definition stop_ok :: "'w ExecutionPlan \<Rightarrow> 'w scheduler \<Rightarrow> bool" where
  "stop_ok p s \<longleftrightarrow>
     s_stopped s = Execution_Failed (s_ex s) \<and> s_abandonTimer s = s_stopped s \<and> (s_stopped s \<longrightarrow> s_cancelled s) \<and>
     -1 \<le> ex_FailedStep (s_ex s) \<and>
     (ex_FailedStep (s_ex s) \<ge> 0 \<longrightarrow> ex_FailedStep (s_ex s) < int (nsteps p) \<and> \<not> ex_Cancelled (s_ex s) \<and>
        st s (nat (ex_FailedStep (s_ex s))) \<in> {StateFailed, StateCancelled})"

definition live_ok :: "'w ExecutionPlan \<Rightarrow> bool \<Rightarrow> 'w scheduler \<Rightarrow> bool" where
  "live_ok p rooted s \<longleftrightarrow>
     (\<not> s_stopped s \<longrightarrow>
        (\<forall>i<nsteps p. st s i \<in> {StatePending, StateRunning, StateSucceeded} \<and> s_unmet s ! i = int (unmet_count p s i) \<and>
           (\<not> is_input p i \<and> unmet_count p s i = 0 \<and> (rooted \<or> deps p i \<noteq> []) \<longrightarrow> i \<in> set (s_ready s)))) \<and>
     (\<not> rooted \<longrightarrow> (\<forall>i\<in>set (s_ready s). deps p i \<noteq> []))"

definition pool_ok :: "'w scheduler \<Rightarrow> bool" where
  "pool_ok s \<longleftrightarrow> own_slots s + pool_others s \<le> pool_cap s \<and>
     (if s_slots s then 0 < pool_cap s else g_releasing s = 0)"

definition core :: "'w ExecutionPlan \<Rightarrow> nat set \<Rightarrow> bool \<Rightarrow> 'w scheduler \<Rightarrow> bool" where
  "core p X rooted s \<longleftrightarrow>
     shape_ok p s \<and> queue_ok p s \<and> states_ok p X s \<and> stop_ok p s \<and> live_ok p rooted s \<and> pool_ok s"

section \<open>Effects of the operations\<close>

lemma launch_next_fields [sched_simps]:
  "s_plan (launch_next s) = s_plan s" "s_maxConcurrency (launch_next s) = s_maxConcurrency s"
  "s_cancelled (launch_next s) = s_cancelled s" "s_unmet (launch_next s) = s_unmet s"
  "s_done (launch_next s) = s_done s" "s_slots (launch_next s) = s_slots s"
  "s_inflight (launch_next s) = s_inflight s + 1" "s_stopped (launch_next s) = s_stopped s"
  "s_abandonTimer (launch_next s) = s_abandonTimer s" "s_callerDone (launch_next s) = s_callerDone s"
  "s_pc (launch_next s) = s_pc s" "g_running (launch_next s) = g_running s @ [s_ready s ! s_launched s]"
  "g_releasing (launch_next s) = g_releasing s" "pool_cap (launch_next s) = pool_cap s"
  "pool_others (launch_next s) = pool_others s" "s_inline (launch_next s) = s_inline s"
  "s_guard (launch_next s) = s_guard s" "heap_render (launch_next s) = heap_render s"
  "s_inputs (launch_next s) = s_inputs (prepare (s_ready s ! s_launched s) s)"
  "s_contexts (launch_next s) = s_contexts (prepare (s_ready s ! s_launched s) s)"
  "s_ex (launch_next s) = s_ex (prepare (s_ready s ! s_launched s) s)"
  by (simp_all add: launch_next_def launch_def prepare_def Let_def)

lemma length_write_at [simp]: "length (write_at o' vs buf) = length buf"
  by (induction vs arbitrary: o' buf) simp_all

lemma prepare_fields [sched_simps]:
  "s_plan (prepare i s) = s_plan s" "s_maxConcurrency (prepare i s) = s_maxConcurrency s"
  "s_cancelled (prepare i s) = s_cancelled s" "s_unmet (prepare i s) = s_unmet s"
  "s_done (prepare i s) = s_done s" "s_slots (prepare i s) = s_slots s" "s_launched (prepare i s) = s_launched s"
  "s_ready (prepare i s) = s_ready s"
  "s_inflight (prepare i s) = s_inflight s" "s_stopped (prepare i s) = s_stopped s"
  "s_abandonTimer (prepare i s) = s_abandonTimer s" "s_callerDone (prepare i s) = s_callerDone s"
  "s_pc (prepare i s) = s_pc s" "g_running (prepare i s) = g_running s"
  "g_releasing (prepare i s) = g_releasing s" "pool_cap (prepare i s) = pool_cap s"
  "pool_others (prepare i s) = pool_others s" "s_guard (prepare i s) = s_guard s"
  "heap_render (prepare i s) = heap_render s"
  "ex_Plan (s_ex (prepare i s)) = ex_Plan (s_ex s)" "ex_FailedStep (s_ex (prepare i s)) = ex_FailedStep (s_ex s)"
  "ex_Cancelled (s_ex (prepare i s)) = ex_Cancelled (s_ex s)" "ex_ID (s_ex (prepare i s)) = ex_ID (s_ex s)"
  "ex_Abandoned (s_ex (prepare i s)) = ex_Abandoned (s_ex s)"
  "ex_Steps (s_ex (prepare i s)) = (ex_Steps (s_ex s))[i := (ex_Steps (s_ex s) ! i)\<lparr>sr_State := StateRunning\<rparr>]"
  "length (s_contexts (prepare i s)) = length (s_contexts s)" "length (s_inputs (prepare i s)) = length (s_inputs s)"
  by (simp_all add: prepare_def Let_def)

text \<open>\<open>handle\<close>: the completion is recorded, and either the run is stopped or dependents are released.\<close>

definition handle_stops :: "completion \<Rightarrow> 'w scheduler \<Rightarrow> bool" where
  "handle_stops c s \<longleftrightarrow> s_stopped s \<or> rv_Err (cp_result c) \<noteq> None"

definition released :: "completion \<Rightarrow> 'w scheduler \<Rightarrow> nat list" where
  "released c s = (if handle_stops c s then [] else cs_Dependents (p_Steps (s_plan s) ! cp_index c))"

lemma unblock_fields [simp]:
  "s_plan (unblock d s) = s_plan s" "s_maxConcurrency (unblock d s) = s_maxConcurrency s"
  "s_cancelled (unblock d s) = s_cancelled s" "s_ex (unblock d s) = s_ex s"
  "s_done (unblock d s) = s_done s" "s_slots (unblock d s) = s_slots s" "s_launched (unblock d s) = s_launched s"
  "s_inflight (unblock d s) = s_inflight s" "s_stopped (unblock d s) = s_stopped s"
  "s_abandonTimer (unblock d s) = s_abandonTimer s" "s_callerDone (unblock d s) = s_callerDone s"
  "s_pc (unblock d s) = s_pc s" "g_running (unblock d s) = g_running s" "s_guard (unblock d s) = s_guard s"
  "g_releasing (unblock d s) = g_releasing s" "pool_cap (unblock d s) = pool_cap s"
  "pool_others (unblock d s) = pool_others s" "s_inputs (unblock d s) = s_inputs s"
  "s_contexts (unblock d s) = s_contexts s" "heap_render (unblock d s) = heap_render s"
  "s_inline (unblock d s) = s_inline s"
  by (simp_all add: unblock_def Let_def)

lemma handle_eq:
  "handle c s =
     fold unblock (released c s)
       (s\<lparr>s_ex := (s_ex s)\<lparr>ex_Steps := (ex_Steps (s_ex s))[cp_index c := recorded (cp_result c) (ex_Steps (s_ex s) ! cp_index c)],
            ex_FailedStep := (if rv_Err (cp_result c) \<noteq> None \<and> \<not> s_stopped s then int (cp_index c) else ex_FailedStep (s_ex s))\<rparr>,
          s_stopped := handle_stops c s,
          s_cancelled := (s_cancelled s \<or> rv_Err (cp_result c) \<noteq> None \<and> \<not> s_stopped s),
          s_abandonTimer := (s_abandonTimer s \<or> rv_Err (cp_result c) \<noteq> None \<and> \<not> s_stopped s),
          s_guard := guard_record (heap_render s) (cp_index c)
            (sr_Value ((ex_Steps (s_ex s))[cp_index c := recorded (cp_result c) (ex_Steps (s_ex s) ! cp_index c)] ! cp_index c))
            (s_guard s)\<rparr>)"
  by (auto simp: handle_def record_completion_def windDown_def released_def handle_stops_def Let_def
      intro!: arg_cong [where f = "fold unblock _"] scheduler.equality split: if_splits)

lemma handle_fields [sched_simps]:
  "s_plan (handle c s) = s_plan s" "s_maxConcurrency (handle c s) = s_maxConcurrency s"
  "s_cancelled (handle c s) = (s_cancelled s \<or> rv_Err (cp_result c) \<noteq> None \<and> \<not> s_stopped s)"
  "s_done (handle c s) = s_done s" "s_slots (handle c s) = s_slots s" "s_launched (handle c s) = s_launched s"
  "s_inflight (handle c s) = s_inflight s" "s_stopped (handle c s) = handle_stops c s"
  "s_abandonTimer (handle c s) = (s_abandonTimer s \<or> rv_Err (cp_result c) \<noteq> None \<and> \<not> s_stopped s)"
  "s_callerDone (handle c s) = s_callerDone s" "s_pc (handle c s) = s_pc s" "g_running (handle c s) = g_running s"
  "g_releasing (handle c s) = g_releasing s" "pool_cap (handle c s) = pool_cap s"
  "pool_others (handle c s) = pool_others s" "s_inputs (handle c s) = s_inputs s"
  "s_contexts (handle c s) = s_contexts s" "heap_render (handle c s) = heap_render s"
  "ex_Plan (s_ex (handle c s)) = ex_Plan (s_ex s)" "ex_Cancelled (s_ex (handle c s)) = ex_Cancelled (s_ex s)"
  "ex_Abandoned (s_ex (handle c s)) = ex_Abandoned (s_ex s)" "ex_ID (s_ex (handle c s)) = ex_ID (s_ex s)"
  "ex_FailedStep (s_ex (handle c s)) =
     (if rv_Err (cp_result c) \<noteq> None \<and> \<not> s_stopped s then int (cp_index c) else ex_FailedStep (s_ex s))"
  "ex_Steps (s_ex (handle c s)) =
     (ex_Steps (s_ex s))[cp_index c := recorded (cp_result c) (ex_Steps (s_ex s) ! cp_index c)]"
  "s_unmet (handle c s) = s_unmet (fold unblock (released c s) s)"
  "s_ready (handle c s) = s_ready (fold unblock (released c s) s)"
proof -
  have frame: "fld (fold unblock ds t) = fld t" if "\<And>d t. fld (unblock d t) = fld t"
    for fld :: "'a scheduler \<Rightarrow> 'b" and ds t
    by (rule fold_frame) (rule that)
  have cong: "s_unmet (fold unblock ds t) = s_unmet (fold unblock ds u) \<and> s_ready (fold unblock ds t) = s_ready (fold unblock ds u)"
    if "s_unmet t = s_unmet u" "s_ready t = s_ready u" for ds and t u :: "'a scheduler"
    using that by (induction ds arbitrary: t u) (simp_all add: unblock_def Let_def)
  show "s_unmet (handle c s) = s_unmet (fold unblock (released c s) s)"
    "s_ready (handle c s) = s_ready (fold unblock (released c s) s)"
    unfolding handle_eq by (rule cong [THEN conjunct1] cong [THEN conjunct2]; simp)+
qed (simp_all add: handle_eq fold_frame)

text \<open>Counting down: each dependent loses one per edge, and is queued once, on its last edge.\<close>

lemma fold_unblock:
  assumes "\<forall>j<length (s_unmet s). int (count_list ds j) \<le> s_unmet s ! j" "set ds \<subseteq> {..<length (s_unmet s)}"
  shows "length (s_unmet (fold unblock ds s)) = length (s_unmet s) \<and>
    (\<forall>j<length (s_unmet s). s_unmet (fold unblock ds s) ! j = s_unmet s ! j - int (count_list ds j)) \<and>
    (\<exists>ys. s_ready (fold unblock ds s) = s_ready s @ ys \<and> distinct ys \<and>
       set ys = {j \<in> set ds. s_unmet s ! j = int (count_list ds j)})"
  using assms
proof (induction ds arbitrary: s)
  case Nil
  then show ?case by simp
next
  case (Cons d ds)
  let ?s1 = "unblock d s"
  have d: "d < length (s_unmet s)" using Cons.prems(2) by simp
  have len: "length (s_unmet ?s1) = length (s_unmet s)"
    and u1: "s_unmet ?s1 ! j = s_unmet s ! j - (if j = d then 1 else 0)" if "j < length (s_unmet s)" for j
    using d that by (simp_all add: unblock_def Let_def)
  have len: "length (s_unmet ?s1) = length (s_unmet s)" by (simp add: unblock_def Let_def)
  have pre: "\<forall>j<length (s_unmet ?s1). int (count_list ds j) \<le> s_unmet ?s1 ! j"
  proof (intro allI impI)
    fix j assume "j < length (s_unmet ?s1)"
    then have j: "j < length (s_unmet s)" by (simp add: len)
    then have "int (count_list (d # ds) j) \<le> s_unmet s ! j" using Cons.prems(1) by blast
    then show "int (count_list ds j) \<le> s_unmet ?s1 ! j" by (simp add: u1 [OF j] split: if_splits)
  qed
  obtain ys where IH: "length (s_unmet (fold unblock ds ?s1)) = length (s_unmet s)"
    "\<forall>j<length (s_unmet s). s_unmet (fold unblock ds ?s1) ! j = s_unmet ?s1 ! j - int (count_list ds j)"
    "s_ready (fold unblock ds ?s1) = s_ready ?s1 @ ys" "distinct ys"
    "set ys = {j \<in> set ds. s_unmet ?s1 ! j = int (count_list ds j)}"
    using Cons.IH [OF pre] Cons.prems(2) by (auto simp: len)
  let ?zs = "if s_unmet s ! d = 1 then d # ys else ys"
  have last: "d \<notin> set ds" if "s_unmet s ! d = 1"
  proof -
    have "int (count_list (d # ds) d) \<le> 1" using Cons.prems(1) d that by metis
    then show ?thesis by (simp add: count_list_0_iff)
  qed
  have "s_ready (fold unblock (d # ds) s) = s_ready s @ ?zs"
    using IH(3) by (simp add: unblock_def Let_def)
  moreover have "distinct ?zs" using IH(4,5) last by auto
  moreover have "set ?zs = {j \<in> set (d # ds). s_unmet s ! j = int (count_list (d # ds) j)}"
  proof (rule set_eqI)
    fix j
    have range: "j \<in> set ds \<Longrightarrow> j < length (s_unmet s)" using Cons.prems(2) by auto
    show "j \<in> set ?zs \<longleftrightarrow> j \<in> {j \<in> set (d # ds). s_unmet s ! j = int (count_list (d # ds) j)}"
    proof (cases "j = d")
      case True
      have ys: "d \<in> set ys \<longleftrightarrow> d \<in> set ds \<and> s_unmet s ! d = int (count_list ds d) + 1"
        unfolding IH(5) using u1 [OF d] by auto
      have "s_unmet s ! d = 1 \<Longrightarrow> count_list ds d = 0" using last by (simp add: count_list_0_iff)
      moreover have "d \<notin> set ds \<Longrightarrow> count_list ds d = 0" by (simp add: count_list_0_iff)
      ultimately show ?thesis using ys True by (cases "s_unmet s ! d = 1") auto
    next
      case False
      have "j \<in> set ys \<longleftrightarrow> j \<in> set ds \<and> s_unmet s ! j = int (count_list ds j)"
        unfolding IH(5) using u1 [of j] range False by auto
      with False show ?thesis by auto
    qed
  qed
  moreover have "\<forall>j<length (s_unmet s). s_unmet (fold unblock (d # ds) s) ! j = s_unmet s ! j - int (count_list (d # ds) j)"
    using IH(2) u1 by auto
  ultimately show ?case using IH(1) by (simp del: count_list.simps)
qed

section \<open>The operations keep the invariant\<close>

lemma coreD:
  assumes "core p X rooted s"
  shows "shape_ok p s" "queue_ok p s" "states_ok p X s" "stop_ok p s" "live_ok p rooted s" "pool_ok s"
  using assms by (simp_all add: core_def)

lemma coreI:
  assumes "shape_ok p s" "queue_ok p s" "states_ok p X s" "stop_ok p s" "live_ok p rooted s" "pool_ok s"
  shows "core p X rooted s"
  using assms by (simp add: core_def)

text \<open>A step that leaves the queue: it was pending and everything it needs has succeeded.\<close>

lemma next_facts:
  assumes core: "core p {} rooted s" and next': "s_launched s < length (s_ready s)"
  defines "i \<equiv> s_ready s ! s_launched s"
  shows "i < nsteps p" "\<not> is_input p i" "\<forall>d\<in>set (deps p i). st s d = StateSucceeded"
    "i \<notin> set (started s)" "i \<notin> set (act s)" "st s i = StatePending" "i \<notin> set (deps p i)" "i \<in> set (s_ready s)"
    "take (Suc (s_launched s)) (s_ready s) = started s @ [i]"
proof -
  note Q = coreD(2) [OF core, unfolded queue_ok_def]
  show mem: "i \<in> set (s_ready s)" unfolding i_def using next' by simp
  then show i: "i < nsteps p" "\<not> is_input p i" and d: "\<forall>d\<in>set (deps p i). st s d = StateSucceeded"
    using Q by blast+
  show "take (Suc (s_launched s)) (s_ready s) = started s @ [i]"
    using next' by (simp add: started_def i_def take_Suc_conv_app_nth)
  have "distinct (take (Suc (s_launched s)) (s_ready s))" using Q by simp
  then show ns: "i \<notin> set (started s)"
    using next' by (simp add: started_def i_def take_Suc_conv_app_nth)
  then show "i \<notin> set (act s)" using Q by blast
  show p: "st s i = StatePending" using coreD(3) [OF core] i ns by (auto simp: states_ok_def)
  show "i \<notin> set (deps p i)" using d p by auto
qed

lemma prepare_st:
  "i < length (ex_Steps (s_ex s)) \<Longrightarrow> st (prepare i s) j = (if j = i then StateRunning else st s j)"
  by (simp add: sched_simps nth_list_update)

text \<open>Marking a pending step as running changes no count and no queue condition.\<close>

lemma unmet_count_cong:
  assumes "\<And>d. d \<in> set (deps p k) \<Longrightarrow> st s d = StateSucceeded \<longleftrightarrow> st s' d = StateSucceeded"
  shows "unmet_count p s k = unmet_count p s' k"
proof -
  have "filter (\<lambda>d. st s d \<noteq> StateSucceeded) (deps p k) = filter (\<lambda>d. st s' d \<noteq> StateSucceeded) (deps p k)"
    by (rule filter_cong) (simp_all add: assms)
  then show ?thesis by (simp add: unmet_count_def)
qed

definition begin_step :: "'w scheduler \<Rightarrow> 'w scheduler \<Rightarrow> bool" where
  "begin_step s s' \<longleftrightarrow>
     s_launched s < length (s_ready s) \<and> s_launched s' = s_launched s + 1 \<and> s_ready s' = s_ready s \<and> s_plan s' = s_plan s \<and>
     ex_Steps (s_ex s') = (ex_Steps (s_ex s))[s_ready s ! s_launched s :=
       (ex_Steps (s_ex s) ! (s_ready s ! s_launched s))\<lparr>sr_State := StateRunning\<rparr>] \<and>
     ex_Plan (s_ex s') = ex_Plan (s_ex s) \<and> ex_FailedStep (s_ex s') = ex_FailedStep (s_ex s) \<and>
     ex_Cancelled (s_ex s') = ex_Cancelled (s_ex s) \<and> s_stopped s' = s_stopped s \<and> s_cancelled s' = s_cancelled s \<and>
     s_abandonTimer s' = s_abandonTimer s \<and> s_unmet s' = s_unmet s \<and> s_maxConcurrency s' = s_maxConcurrency s \<and>
     length (s_contexts s') = length (s_contexts s) \<and> length (s_inputs s') = length (s_inputs s)"

lemma begin_step_kept:
  assumes core: "core p {} rooted s" and b: "begin_step s s'"
  shows "shape_ok p s'" "stop_ok p s'" "live_ok p rooted s'"
    "st s' j = (if j = s_ready s ! s_launched s then StateRunning else st s j)"
    "started s' = started s @ [s_ready s ! s_launched s]"
proof -
  let ?i = "s_ready s ! s_launched s"
  note F = next_facts [OF core] b [unfolded begin_step_def]
  have next': "s_launched s < length (s_ready s)" using b by (simp add: begin_step_def)
  have len: "length (ex_Steps (s_ex s)) = nsteps p" using coreD(1) [OF core] by (simp add: shape_ok_def)
  show ss: "st s' j = (if j = ?i then StateRunning else st s j)" for j
    using b next_facts(1) [OF core next'] len by (simp add: begin_step_def nth_list_update)
  show "started s' = started s @ [?i]"
    using b next_facts(9) [OF core next'] by (simp add: begin_step_def started_def)
  show "shape_ok p s'"
    using coreD(1) [OF core] b next_facts(1) [OF core next'] by (simp add: shape_ok_def begin_step_def nth_list_update)
  show "stop_ok p s'"
    using coreD(4) [OF core] b next_facts(6) [OF core next'] unfolding stop_ok_def ss
    by (auto simp: begin_step_def Execution_Failed_def)
  have uc: "unmet_count p s' k = unmet_count p s k" for k
    by (rule unmet_count_cong) (use next_facts(6) [OF core next'] in \<open>auto simp: ss\<close>)
  show "live_ok p rooted s'"
    using coreD(5) [OF core] b unfolding live_ok_def uc ss by (auto simp: begin_step_def)
qed

lemma begin_step_states:
  assumes core: "core p {} rooted s" and b: "begin_step s s'"
    and X: "set (act s') \<union> X = insert (s_ready s ! s_launched s) (set (act s))" "set (act s') \<inter> X = {}"
      "X \<subseteq> {s_ready s ! s_launched s}"
  shows "states_ok p X s'"
proof -
  let ?i = "s_ready s ! s_launched s"
  have next': "s_launched s < length (s_ready s)" using b by (simp add: begin_step_def)
  note F = next_facts [OF core next'] and K = begin_step_kept [OF core b]
  have S: "st s j = StateRunning \<longleftrightarrow> j \<in> set (act s)" "st s j = StatePending \<longleftrightarrow> \<not> is_input p j \<and> j \<notin> set (started s)"
    "st s j \<noteq> StateSkipped" if "j < nsteps p" for j
    using coreD(3) [OF core] that by (simp_all add: states_ok_def)
  have len: "length (ex_Steps (s_ex s)) = nsteps p" using coreD(1) [OF core] by (simp add: shape_ok_def)
  have R: "sr_Err (ex_Steps (s_ex s') ! j) = sr_Err (ex_Steps (s_ex s) ! j) \<and> val s' j = val s j" if "j < nsteps p" for j
    using b that len F(1) by (auto simp: begin_step_def nth_list_update)
  have R0: "(sr_Err (ex_Steps (s_ex s) ! j) \<noteq> None \<longleftrightarrow> st s j \<in> {StateFailed, StateCancelled}) \<and>
      (st s j \<noteq> StateSucceeded \<longrightarrow> val s j = zero_value)" if "j < nsteps p" for j
    using coreD(3) [OF core] that by (simp add: states_ok_def)
  show ?thesis
    unfolding states_ok_def
  proof (intro conjI allI impI ballI)
    fix j assume j: "j < nsteps p"
    show "(sr_Err (ex_Steps (s_ex s') ! j) \<noteq> None) = (st s' j \<in> {StateFailed, StateCancelled})"
      using R [OF j] R0 [OF j] F(6) unfolding K(4) by (cases "j = ?i") auto
    show "val s' j = zero_value" if "st s' j \<noteq> StateSucceeded"
      using R [OF j] R0 [OF j] F(6) that unfolding K(4) by (cases "j = ?i") auto
    assume jX: "j \<notin> X"
    then show "(st s' j = StateRunning) = (j \<in> set (act s'))"
      using S(1) [OF j] X unfolding K(4) by (cases "j = ?i") auto
    show "(st s' j = StatePending) = (\<not> is_input p j \<and> j \<notin> set (started s'))"
      using S(2) [OF j] F(2) unfolding K(4,5) by (cases "j = ?i") auto
    show "st s' j \<noteq> StateSkipped" using S(3) [OF j] unfolding K(4) by (cases "j = ?i") auto
  next
    fix j assume j: "j \<in> X"
    with X(3) have "j = ?i" by blast
    then show "j < nsteps p" "st s' j \<in> {StatePending, StateRunning}" "is_input p j \<or> j \<in> set (started s')"
      using F(1) unfolding K(4,5) by simp_all
    show "j \<notin> set (act s')" using j X(2) by blast
  qed
qed

lemma launch_next_core:
  assumes core: "core p {} rooted s" and next': "s_launched s < length (s_ready s)"
    and room: "s_inflight s < s_maxConcurrency s" "s_slots s \<Longrightarrow> pool_free s"
  shows "core p {} rooted (launch_next s)"
proof -
  let ?s = "launch_next s" and ?i = "s_ready s ! s_launched s"
  note F = next_facts [OF core next']
  have b: "begin_step s ?s"
    using next' by (simp add: begin_step_def sched_simps)
  note K = begin_step_kept [OF core b]
  have act': "act ?s = g_running s @ ?i # map cp_index (s_done s)" by (simp add: act_def sched_simps)
  then have set_act: "set (act ?s) = insert ?i (set (act s))" by (auto simp: act_def)
  show ?thesis
  proof (rule coreI [OF K(1) _ _ K(2) K(3)])
    have Q: "distinct (s_ready s)" "distinct (act s)" "set (act s) \<subseteq> set (started s)" "s_inflight s = int (length (act s))"
      "\<forall>i\<in>set (s_ready s). i < nsteps p \<and> \<not> is_input p i \<and> (\<forall>d\<in>set (deps p i). st s d = StateSucceeded)"
      "1 \<le> s_maxConcurrency s"
      using coreD(2) [OF core] by (simp_all add: queue_ok_def)
    have "distinct (act ?s)" using Q(2) F(5) unfolding act' by (auto simp: act_def)
    moreover have "length (act ?s) = Suc (length (act s))" unfolding act' by (simp add: act_def)
    moreover have "st ?s d = StateSucceeded" if "st s d = StateSucceeded" for d
      using that F(6) unfolding K(4) by auto
    ultimately show "queue_ok p ?s"
      unfolding queue_ok_def using Q next' room(1) K(5) set_act by (auto simp: sched_simps)
    show "states_ok p {} ?s" by (rule begin_step_states [OF core b]) (use set_act in auto)
    show "pool_ok ?s"
      using coreD(6) [OF core] room(2) by (auto simp: pool_ok_def own_slots_def pool_free_def sched_simps)
  qed
qed

lemma pump_core: "core p {} rooted s \<Longrightarrow> core p {} rooted (pump s)"
proof (induction s rule: pump.induct)
  case (1 s)
  show ?case
  proof (cases "s_launched s < length (s_ready s) \<and> s_inflight s < s_maxConcurrency s \<and> tryTake s")
    case True
    then have "core p {} rooted (launch_next s)"
      using 1(2) by (intro launch_next_core) (auto simp: tryTake_def)
    with 1(1) True show ?thesis by (subst pump.simps) simp
  next
    case False
    then show ?thesis using 1(2) by (subst pump.simps) (simp only: if_False)
  qed
qed

lemma length_filter_minus:
  "length (filter P xs) = length (filter (\<lambda>d. P d \<and> d \<noteq> i) xs) + (if P i then count_list xs i else 0)"
  by (induction xs) auto

lemma recorded_simps [simp]:
  "sr_ID (recorded r x) = sr_ID x"
  "sr_State (recorded r x) = (case rv_Err r of None \<Rightarrow> StateSucceeded
     | Some e \<Rightarrow> if err_Kind e = KindCancelled then StateCancelled else StateFailed)"
  "sr_Err (recorded r x) = (case rv_Err r of None \<Rightarrow> sr_Err x | Some e \<Rightarrow> Some e)"
  "sr_Value (recorded r x) = (case rv_Err r of None \<Rightarrow> rv_Value r | Some e \<Rightarrow> sr_Value x)"
  by (simp_all add: recorded_def split: option.splits)

lemma handle_st:
  "cp_index c < length (ex_Steps (s_ex s)) \<Longrightarrow>
   st (handle c s) j = (if j = cp_index c then
      (case rv_Err (cp_result c) of None \<Rightarrow> StateSucceeded
       | Some e \<Rightarrow> if err_Kind e = KindCancelled then StateCancelled else StateFailed) else st s j)"
  by (simp add: sched_simps nth_list_update)

lemma length_unmet_fold [simp]: "length (s_unmet (fold unblock ds s)) = length (s_unmet s)"
  by (induction ds arbitrary: s) (simp_all add: unblock_def Let_def)

context executable_plans
begin

text \<open>Succeeding takes one off every dependent's count, once per edge.\<close>

lemma unmet_after:
  assumes "i < nsteps p" "st s i \<noteq> StateSucceeded"
    and "\<And>d. st s' d = (if d = i then StateSucceeded else st s d)"
  shows "unmet_count p s j = unmet_count p s' j + count_list (deps p j) i"
proof -
  have "filter (\<lambda>d. st s d \<noteq> StateSucceeded \<and> d \<noteq> i) (deps p j) = filter (\<lambda>d. st s' d \<noteq> StateSucceeded) (deps p j)"
    by (rule filter_cong) (auto simp: assms(3))
  then show ?thesis
    unfolding unmet_count_def using length_filter_minus [of "\<lambda>d. st s d \<noteq> StateSucceeded" "deps p j" i] assms(2) by simp
qed

lemma handle_ready:
  assumes wf: "wf p" and core: "core p X rooted s" and X: "cp_index c \<in> X"
  defines "i \<equiv> cp_index c"
  shows "\<exists>ys. s_ready (handle c s) = s_ready s @ ys \<and> distinct (s_ready s @ ys) \<and>
    (handle_stops c s \<longrightarrow> ys = []) \<and>
    (\<not> handle_stops c s \<longrightarrow>
       set ys = {j. j < nsteps p \<and> i \<in> set (deps p j) \<and> unmet_count p (handle c s) j = 0} \<and>
       (\<forall>j<nsteps p. s_unmet (handle c s) ! j = int (unmet_count p (handle c s) j)))"
proof (cases "handle_stops c s")
  case True
  then show ?thesis using coreD(2) [OF core] by (auto simp: sched_simps released_def queue_ok_def)
next
  case False
  have i: "i < nsteps p" "st s i \<in> {StatePending, StateRunning}"
    using coreD(3) [OF core] X by (auto simp: states_ok_def i_def)
  have shape: "s_plan s = p" "length (ex_Steps (s_ex s)) = nsteps p" "length (s_unmet s) = nsteps p"
    using coreD(1) [OF core] by (simp_all add: shape_ok_def)
  have ss: "st (handle c s) d = (if d = i then StateSucceeded else st s d)" for d
    using False i shape by (simp add: handle_st i_def handle_stops_def)
  note after = unmet_after [OF i(1) _ ss]
  have ds: "released c s = cs_Dependents (p_Steps p ! i)" using False shape by (simp add: released_def i_def)
  have unmet: "s_unmet s ! j = int (unmet_count p (handle c s) j) + int (count_list (released c s) j)"
    if "j < nsteps p" for j
    using coreD(5) [OF core] False that i after [of j] dependents_count [OF wf i(1) that]
    by (auto simp: live_ok_def handle_stops_def ds)
  have mem: "j \<in> set (released c s) \<longleftrightarrow> j < nsteps p \<and> i \<in> set (deps p j)" for j
    using dependents_count [OF wf i(1), of j] dependents_range [OF wf i(1)]
    unfolding ds by (metis count_list_0_iff lessThan_iff subsetD)
  obtain ys where ys: "s_ready (fold unblock (released c s) s) = s_ready s @ ys" "distinct ys"
    "set ys = {j \<in> set (released c s). s_unmet s ! j = int (count_list (released c s) j)}"
    and un: "\<forall>j<nsteps p. s_unmet (fold unblock (released c s) s) ! j = s_unmet s ! j - int (count_list (released c s) j)"
    using fold_unblock [of s "released c s"] unmet mem shape by (auto simp: subset_iff)
  have "set ys = {j. j < nsteps p \<and> i \<in> set (deps p j) \<and> unmet_count p (handle c s) j = 0}"
    using ys(3) mem unmet by auto
  moreover have "set ys \<inter> set (s_ready s) = {}"
    using coreD(2) [OF core] i calculation by (fastforce simp: queue_ok_def)
  ultimately show ?thesis
    using ys(1,2) un unmet False coreD(2) [OF core] by (auto simp: sched_simps queue_ok_def)
qed

end

context executable_plans
begin

lemma handle_core:
  assumes wf: "wf p" and core: "core p X rooted s" and X: "cp_index c \<in> X"
  shows "core p (X - {cp_index c}) rooted (handle c s)"
proof -
  let ?i = "cp_index c" and ?s = "handle c s"
  have i: "?i < nsteps p" "st s ?i \<in> {StatePending, StateRunning}" "?i \<notin> set (act s)"
    "is_input p ?i \<or> ?i \<in> set (started s)"
    using coreD(3) [OF core] X by (auto simp: states_ok_def)
  have shape: "s_plan s = p" "length (ex_Steps (s_ex s)) = nsteps p" "length (s_unmet s) = nsteps p"
    using coreD(1) [OF core] by (simp_all add: shape_ok_def)
  have ss: "st ?s j = (if j = ?i then (case rv_Err (cp_result c) of None \<Rightarrow> StateSucceeded
       | Some e \<Rightarrow> if err_Kind e = KindCancelled then StateCancelled else StateFailed) else st s j)" for j
    using i shape by (simp add: handle_st)
  have final: "st ?s ?i \<notin> {StatePending, StateRunning, StateSkipped}" by (simp add: ss split: option.splits)
  obtain ys where ready: "s_ready ?s = s_ready s @ ys" "distinct (s_ready s @ ys)"
    and stops: "handle_stops c s \<Longrightarrow> ys = []"
    and goes: "\<not> handle_stops c s \<Longrightarrow>
       set ys = {j. j < nsteps p \<and> ?i \<in> set (deps p j) \<and> unmet_count p ?s j = 0} \<and>
       (\<forall>j<nsteps p. s_unmet ?s ! j = int (unmet_count p ?s j))"
    using handle_ready [OF wf core X] by auto
  have Q: "s_launched s \<le> length (s_ready s)" "distinct (act s)" "set (act s) \<subseteq> set (started s)"
    "s_inflight s = int (length (act s))" "s_inflight s \<le> s_maxConcurrency s" "1 \<le> s_maxConcurrency s"
    "\<And>j. j \<in> set (s_ready s) \<Longrightarrow> j < nsteps p \<and> \<not> is_input p j \<and> (\<forall>d\<in>set (deps p j). st s d = StateSucceeded)"
    using coreD(2) [OF core] by (auto simp: queue_ok_def)
  have act': "act ?s = act s" by (simp add: act_def sched_simps)
  have started': "started ?s = started s"
    unfolding started_def ready(1) using Q(1) by (simp add: handle_fields)
  have succ: "st ?s d = StateSucceeded" if "st s d = StateSucceeded" for d
    using that i(2) by (auto simp: ss)
  have zero: "st ?s d = StateSucceeded" if "unmet_count p ?s j = 0" "d \<in> set (deps p j)" for d j
    using that by (auto simp: unmet_count_def filter_empty_conv)
  have ys_ok: "j < nsteps p \<and> \<not> is_input p j \<and> (\<forall>d\<in>set (deps p j). st ?s d = StateSucceeded) \<and> deps p j \<noteq> []"
    if "j \<in> set ys" for j
  proof -
    have j: "j < nsteps p" "?i \<in> set (deps p j)" "unmet_count p ?s j = 0"
      using that stops goes by (cases "handle_stops c s"; auto)+
    then have "\<not> is_input p j" using input_deps [OF wf, of j] input_iff [OF wf, of j] by auto
    with j show ?thesis using zero by auto
  qed
  show ?thesis
  proof (rule coreI)
    show "shape_ok p ?s"
      using coreD(1) [OF core] i(1) by (simp add: shape_ok_def sched_simps nth_list_update)
    show "queue_ok p ?s"
      unfolding queue_ok_def ready(1) act' started' using ready(2) Q succ ys_ok by (auto simp: sched_simps)
    show "pool_ok ?s" using coreD(6) [OF core] by (auto simp: pool_ok_def own_slots_def sched_simps)
    show "stop_ok p ?s"
      using coreD(4) [OF core] i(1,2) unfolding stop_ok_def ss
      by (auto simp: handle_stops_def Execution_Failed_def handle_fields split: option.splits)
    show "live_ok p rooted ?s"
      unfolding live_ok_def
    proof (intro conjI impI allI)
      fix j assume ns: "\<not> s_stopped ?s" and j: "j < nsteps p"
      then have go: "\<not> handle_stops c s" "\<not> s_stopped s" by (simp_all add: sched_simps handle_stops_def)
      have L: "st s j \<in> {StatePending, StateRunning, StateSucceeded}" "s_unmet s ! j = int (unmet_count p s j)"
        "\<not> is_input p j \<and> unmet_count p s j = 0 \<and> (rooted \<or> deps p j \<noteq> []) \<Longrightarrow> j \<in> set (s_ready s)"
        using coreD(5) [OF core] go j by (auto simp: live_ok_def)
      show "st ?s j \<in> {StatePending, StateRunning, StateSucceeded}"
        using L(1) go by (auto simp: ss handle_stops_def split: option.splits)
      show "s_unmet ?s ! j = int (unmet_count p ?s j)" using goes [OF go(1)] j by blast
      assume r: "\<not> is_input p j \<and> unmet_count p ?s j = 0 \<and> (rooted \<or> deps p j \<noteq> [])"
      show "j \<in> set (s_ready ?s)"
      proof (cases "?i \<in> set (deps p j)")
        case True
        then show ?thesis using goes [OF go(1)] r j ready(1) by auto
      next
        case False
        then have "unmet_count p ?s j = unmet_count p s j" by (intro unmet_count_cong) (auto simp: ss)
        with r L(3) ready(1) show ?thesis by auto
      qed
    next
      assume "\<not> rooted"
      then show "\<forall>j\<in>set (s_ready ?s). deps p j \<noteq> []"
        using coreD(5) [OF core] ys_ok ready(1) by (auto simp: live_ok_def)
    qed
    show "states_ok p (X - {?i}) ?s"
      unfolding states_ok_def act' started'
    proof (intro conjI ballI allI impI)
      have S: "\<forall>j\<in>X. j < nsteps p \<and> st s j \<in> {StatePending, StateRunning} \<and> j \<notin> set (act s) \<and>
          (is_input p j \<or> j \<in> set (started s))"
        "\<And>j. j < nsteps p \<Longrightarrow> j \<notin> X \<Longrightarrow> (st s j = StateRunning \<longleftrightarrow> j \<in> set (act s)) \<and>
          (st s j = StatePending \<longleftrightarrow> \<not> is_input p j \<and> j \<notin> set (started s)) \<and> st s j \<noteq> StateSkipped"
        "\<And>j. j < nsteps p \<Longrightarrow> (sr_Err (ex_Steps (s_ex s) ! j) \<noteq> None \<longleftrightarrow> st s j \<in> {StateFailed, StateCancelled}) \<and>
          (st s j \<noteq> StateSucceeded \<longrightarrow> val s j = zero_value)"
        using coreD(3) [OF core] by (auto simp: states_ok_def)
      {
        fix j assume "j \<in> X - {?i}"
        then show "j < nsteps p" "st ?s j \<in> {StatePending, StateRunning}" "j \<notin> set (act s)"
          "is_input p j \<or> j \<in> set (started s)"
          using S(1) by (simp_all add: ss)
      next
        fix j assume j: "j < nsteps p"
        show "(sr_Err (ex_Steps (s_ex ?s) ! j) \<noteq> None) = (st ?s j \<in> {StateFailed, StateCancelled})"
          using S(3) [OF j] i shape j
          by (cases "j = ?i") (auto simp: sched_simps nth_list_update split: option.splits)
        show "val ?s j = zero_value" if "st ?s j \<noteq> StateSucceeded"
          using S(3) [OF j] i shape j that
          by (cases "j = ?i") (auto simp: sched_simps nth_list_update split: option.splits)
        assume "j \<notin> X - {?i}"
        then consider "j = ?i" | "j \<noteq> ?i" "j \<notin> X" by blast
        then have "(st ?s j = StateRunning \<longleftrightarrow> j \<in> set (act s)) \<and>
          (st ?s j = StatePending \<longleftrightarrow> \<not> is_input p j \<and> j \<notin> set (started s)) \<and> st ?s j \<noteq> StateSkipped"
        proof cases
          case 1
          then show ?thesis using final i by auto
        next
          case 2
          then show ?thesis using S(2) [OF j] by (simp add: ss)
        qed
        then show "(st ?s j = StateRunning) = (j \<in> set (act s))"
          "(st ?s j = StatePending) = (\<not> is_input p j \<and> j \<notin> set (started s))" "st ?s j \<noteq> StateSkipped" by auto
      }
    qed
  qed
qed

end

section \<open>Settling the states the loop could not\<close>

definition settle :: "bool \<Rightarrow> 'w scheduler \<Rightarrow> nat \<Rightarrow> StepResult" where
  "settle abandoned s j =
     (if abandoned \<and> st s j = StateRunning
      then (ex_Steps (s_ex s) ! j)\<lparr>sr_State := StateCancelled, sr_Err := Some (abandonedErr s j)\<rparr>
      else skip_step (ex_Steps (s_ex s) ! j))"

lemma abandon_step_frame:
  "s_plan (abandon_step i s) = s_plan s" "s_abandonAfter (abandon_step i s) = s_abandonAfter s"
  "ex_Plan (s_ex (abandon_step i s)) = ex_Plan (s_ex s)" "ex_FailedStep (s_ex (abandon_step i s)) = ex_FailedStep (s_ex s)"
  "ex_Cancelled (s_ex (abandon_step i s)) = ex_Cancelled (s_ex s)" "g_running (abandon_step i s) = g_running s"
  "s_done (abandon_step i s) = s_done s" "g_releasing (abandon_step i s) = g_releasing s"
  "s_slots (abandon_step i s) = s_slots s" "pool_cap (abandon_step i s) = pool_cap s"
  "pool_others (abandon_step i s) = pool_others s" "s_guard (abandon_step i s) = s_guard s"
  "heap_render (abandon_step i s) = heap_render s" "ex_ID (s_ex (abandon_step i s)) = ex_ID (s_ex s)"
  "s_callerDone (abandon_step i s) = s_callerDone s" "s_launched (abandon_step i s) = s_launched s"
  "s_ready (abandon_step i s) = s_ready s" "s_inputs (abandon_step i s) = s_inputs s"
  "s_contexts (abandon_step i s) = s_contexts s"
  by (simp_all add: abandon_step_def)

lemma fold_abandon:
  "k \<le> length (ex_Steps (s_ex s)) \<Longrightarrow>
   ex_Steps (s_ex (fold abandon_step [0..<k] s)) =
     map (\<lambda>j. if j < k \<and> st s j = StateRunning
              then (ex_Steps (s_ex s) ! j)\<lparr>sr_State := StateCancelled, sr_Err := Some (abandonedErr s j)\<rparr>
              else ex_Steps (s_ex s) ! j) [0..<length (ex_Steps (s_ex s))] \<and>
   ex_Abandoned (s_ex (fold abandon_step [0..<k] s)) =
     ex_Abandoned (s_ex s) + length (filter (\<lambda>j. st s j = StateRunning) [0..<k])"
proof (induction k)
  case 0
  show ?case by (simp add: map_nth)
next
  case (Suc k)
  let ?t = "fold abandon_step [0..<k] s"
  have fr: "fld ?t = fld s" if "\<And>i t. fld (abandon_step i t) = fld t" for fld :: "'a scheduler \<Rightarrow> 'b"
    by (rule fold_frame) (rule that)
  have k: "k < length (ex_Steps (s_ex s))" using Suc.prems by simp
  have IH: "ex_Steps (s_ex ?t) = map (\<lambda>j. if j < k \<and> st s j = StateRunning
      then (ex_Steps (s_ex s) ! j)\<lparr>sr_State := StateCancelled, sr_Err := Some (abandonedErr s j)\<rparr>
      else ex_Steps (s_ex s) ! j) [0..<length (ex_Steps (s_ex s))]"
    "ex_Abandoned (s_ex ?t) = ex_Abandoned (s_ex s) + length (filter (\<lambda>j. st s j = StateRunning) [0..<k])"
    using Suc by simp_all
  have at_k: "ex_Steps (s_ex ?t) ! k = ex_Steps (s_ex s) ! k" using k by (simp add: IH(1))
  have err: "abandonedErr ?t k = abandonedErr s k"
    by (simp add: abandonedErr_def at_k fr [of s_plan] fr [of s_abandonAfter] abandon_step_frame)
  have "ex_Steps (s_ex (abandon_step k ?t)) = map (\<lambda>j. if j < Suc k \<and> st s j = StateRunning
      then (ex_Steps (s_ex s) ! j)\<lparr>sr_State := StateCancelled, sr_Err := Some (abandonedErr s j)\<rparr>
      else ex_Steps (s_ex s) ! j) [0..<length (ex_Steps (s_ex s))]"
  proof (rule nth_equalityI)
    show "length (ex_Steps (s_ex (abandon_step k ?t))) = length (map (\<lambda>j. if j < Suc k \<and> st s j = StateRunning
      then (ex_Steps (s_ex s) ! j)\<lparr>sr_State := StateCancelled, sr_Err := Some (abandonedErr s j)\<rparr>
      else ex_Steps (s_ex s) ! j) [0..<length (ex_Steps (s_ex s))])"
      by (simp add: abandon_step_def IH(1))
    fix j assume "j < length (ex_Steps (s_ex (abandon_step k ?t)))"
    then have j: "j < length (ex_Steps (s_ex s))" by (simp add: abandon_step_def IH(1) split: if_splits)
    show "ex_Steps (s_ex (abandon_step k ?t)) ! j = map (\<lambda>j. if j < Suc k \<and> st s j = StateRunning
      then (ex_Steps (s_ex s) ! j)\<lparr>sr_State := StateCancelled, sr_Err := Some (abandonedErr s j)\<rparr>
      else ex_Steps (s_ex s) ! j) [0..<length (ex_Steps (s_ex s))] ! j"
      using j k by (cases "j = k") (auto simp: abandon_step_def at_k err IH(1) nth_list_update)
  qed
  moreover have "ex_Abandoned (s_ex (abandon_step k ?t)) =
      ex_Abandoned (s_ex s) + length (filter (\<lambda>j. st s j = StateRunning) [0..<Suc k])"
    by (simp add: abandon_step_def at_k IH(2))
  ultimately show ?case by simp
qed

lemma fold_abandon_ex:
  "ex_Plan (s_ex (fold abandon_step js s)) = ex_Plan (s_ex s)"
  "ex_FailedStep (s_ex (fold abandon_step js s)) = ex_FailedStep (s_ex s)"
  "ex_Cancelled (s_ex (fold abandon_step js s)) = ex_Cancelled (s_ex s)"
  "ex_ID (s_ex (fold abandon_step js s)) = ex_ID (s_ex s)"
  by (rule fold_frame [where fld = "\<lambda>s. ex_Plan (s_ex s)"] fold_frame [where fld = "\<lambda>s. ex_FailedStep (s_ex s)"]
      fold_frame [where fld = "\<lambda>s. ex_Cancelled (s_ex s)"] fold_frame [where fld = "\<lambda>s. ex_ID (s_ex s)"];
      simp add: abandon_step_frame)+

lemma finalize_fields [sched_simps]:
  "s_plan (finalize ab s) = s_plan s" "g_running (finalize ab s) = g_running s"
  "s_done (finalize ab s) = s_done s" "g_releasing (finalize ab s) = g_releasing s"
  "s_slots (finalize ab s) = s_slots s" "pool_cap (finalize ab s) = pool_cap s"
  "pool_others (finalize ab s) = pool_others s" "ex_Plan (s_ex (finalize ab s)) = ex_Plan (s_ex s)"
  "ex_FailedStep (s_ex (finalize ab s)) = ex_FailedStep (s_ex s)" "ex_ID (s_ex (finalize ab s)) = ex_ID (s_ex s)"
  "s_callerDone (finalize ab s) = s_callerDone s" "s_launched (finalize ab s) = s_launched s"
  "s_ready (finalize ab s) = s_ready s" "s_inputs (finalize ab s) = s_inputs s"
  "s_contexts (finalize ab s) = s_contexts s" "heap_render (finalize ab s) = heap_render s"
  by (simp_all add: finalize_def Let_def fold_frame abandon_step_frame fold_abandon_ex)

lemma finalize_outcome:
  "ex_Steps (s_ex (finalize ab s)) = map (settle ab s) [0..<length (ex_Steps (s_ex s))]"
  "ex_Abandoned (s_ex (finalize ab s)) = ex_Abandoned (s_ex s) +
     (if ab then length (filter (\<lambda>j. st s j = StateRunning) [0..<length (ex_Steps (s_ex s))]) else 0)"
  "ex_Cancelled (s_ex (finalize ab s)) = (ex_Cancelled (s_ex s) \<or> ab \<and> \<not> Execution_Failed (s_ex s))"
proof -
  let ?n = "length (ex_Steps (s_ex s))" and ?t = "fold abandon_step [0..<length (ex_Steps (s_ex s))] s"
  have fr: "ex_FailedStep (s_ex ?t) = ex_FailedStep (s_ex s)" "ex_Cancelled (s_ex ?t) = ex_Cancelled (s_ex s)"
    by (rule fold_abandon_ex)+
  have A: "ex_Steps (s_ex ?t) = map (\<lambda>j. if st s j = StateRunning
      then (ex_Steps (s_ex s) ! j)\<lparr>sr_State := StateCancelled, sr_Err := Some (abandonedErr s j)\<rparr>
      else ex_Steps (s_ex s) ! j) [0..<?n]"
    "ex_Abandoned (s_ex ?t) = ex_Abandoned (s_ex s) + length (filter (\<lambda>j. st s j = StateRunning) [0..<?n])"
    using fold_abandon [of ?n s] by (auto simp: cong: map_cong)
  show "ex_Steps (s_ex (finalize ab s)) = map (settle ab s) [0..<?n]"
    by (rule nth_equalityI) (auto simp: finalize_def Let_def A(1) settle_def skip_step_def)
  show "ex_Abandoned (s_ex (finalize ab s)) = ex_Abandoned (s_ex s) +
     (if ab then length (filter (\<lambda>j. st s j = StateRunning) [0..<?n]) else 0)"
    by (simp add: finalize_def Let_def A(2))
  show "ex_Cancelled (s_ex (finalize ab s)) = (ex_Cancelled (s_ex s) \<or> ab \<and> \<not> Execution_Failed (s_ex s))"
    by (simp add: finalize_def Let_def Execution_Failed_def fr)
qed

lemma settle_state:
  "sr_State (settle ab s j) =
     (if st s j = StateRunning then (if ab then StateCancelled else StateRunning)
      else if st s j = StatePending then StateSkipped else st s j)"
  "sr_Err (settle ab s j) = (if ab \<and> st s j = StateRunning then Some (abandonedErr s j) else sr_Err (ex_Steps (s_ex s) ! j))"
  "sr_Value (settle ab s j) = val s j" "sr_ID (settle ab s j) = sr_ID (ex_Steps (s_ex s) ! j)"
  by (auto simp: settle_def skip_step_def)

end
