(* ===== verification/Run.thy ===== *)
theory Run
  imports Run_Invariant
begin

text \<open>
  The run of a plan as a whole: every reachable state satisfies \<open>run_inv\<close>, whatever the
  interleaving of the coordinator, its steps, the caller and the other runs sharing the slot
  pool. From it follow the guarantees of \<open>Run\<close>: what a returned execution says, that a run
  is never stuck, and that it stops.
\<close>

section \<open>Starting a run\<close>

lemma new_core:
  assumes wf: "plan_wf p" and pool: "en_others env \<le> en_cap env" "op_Slots opts \<longrightarrow> 0 < en_cap env"
  shows "core p {..<length (p_Inputs p)} False (newScheduler env (new_execution eid p) p opts)"
proof -
  let ?s = "newScheduler env (new_execution eid p) p opts"
  have st0: "st ?s i = StatePending \<and> val ?s i = zero_value \<and> sr_Err (ex_Steps (s_ex ?s) ! i) = None \<and>
      sr_ID (ex_Steps (s_ex ?s) ! i) = cs_ID (p_Steps p ! i)" if "i < nsteps p" for i
    using that by (simp add: newScheduler_def new_execution_def)
  have fields: "act ?s = []" "started ?s = []" "s_ready ?s = []" "s_stopped ?s = False"
    by (simp_all add: newScheduler_def act_def started_def)
  have count: "unmet_count p ?s i = length (deps p i)" if "i < nsteps p" for i
  proof -
    have "filter (\<lambda>d. st ?s d \<noteq> StateSucceeded) (deps p i) = deps p i"
      using wf_plans.deps_range [OF wf that] st0 by (auto simp: filter_id_conv)
    then show ?thesis by (simp add: unmet_count_def)
  qed
  show ?thesis
  proof (rule coreI)
    show "shape_ok p ?s" using st0 by (simp add: shape_ok_def newScheduler_def new_execution_def)
    show "queue_ok p ?s" by (simp add: queue_ok_def fields) (simp add: newScheduler_def DefaultMaxConcurrency_def)
    show "states_ok p {..<length (p_Inputs p)} ?s"
      using st0 wf_plans.input_iff [OF wf] wf_plans.inputs_le [OF wf] by (auto simp: states_ok_def fields)
    show "stop_ok p ?s" by (simp add: stop_ok_def newScheduler_def new_execution_def Execution_Failed_def)
    show "live_ok p False ?s"
      using st0 count by (auto simp: live_ok_def fields) (simp add: newScheduler_def)
    show "pool_ok ?s" using pool by (simp add: pool_ok_def own_slots_def newScheduler_def)
  qed
qed

lemma supply_all_core:
  assumes wf: "plan_wf p" and start: "core p {..<length (p_Inputs p)} False s" and k: "k \<le> length (p_Inputs p)"
  shows "core p {k..<length (p_Inputs p)} False (fold (supply_one supplied) (take k (p_Inputs p)) s)"
  using k
proof (induction k)
  case 0
  then show ?case using start by (simp add: lessThan_atLeast0)
next
  case (Suc k)
  let ?t = "fold (supply_one supplied) (take k (p_Inputs p)) s" and ?in = "p_Inputs p ! k"
  have core: "core p {k..<length (p_Inputs p)} False ?t" using Suc by simp
  have k: "pi_Step ?in = k" using wf_plans.input_step [OF wf] Suc.prems by simp
  let ?c = "\<lparr>cp_index = k, cp_result = supply_input supplied ?in\<rparr>"
  have "fold (supply_one supplied) (take (Suc k) (p_Inputs p)) s = handle ?c ?t"
    using Suc.prems by (simp add: take_Suc_conv_app_nth supply_one_def k)
  moreover have "core p ({k..<length (p_Inputs p)} - {k}) False (handle ?c ?t)"
    using wf_plans.handle_core [OF wf core, of ?c] Suc.prems by simp
  moreover have "{k..<length (p_Inputs p)} - {k} = {Suc k..<length (p_Inputs p)}" by auto
  ultimately show ?case by simp
qed

lemma add_roots_core:
  assumes wf: "plan_wf p" and core: "core p {} False s"
  shows "core p {} True (s\<lparr>s_ready := s_ready s @ p_Roots (s_plan s)\<rparr>)"
proof -
  let ?s = "s\<lparr>s_ready := s_ready s @ p_Roots (s_plan s)\<rparr>"
  note D = coreD [OF core]
  have p: "s_plan s = p" using D(1) by (simp add: shape_ok_def)
  have R: "distinct (p_Roots p)" "\<And>i. i \<in> set (p_Roots p) \<longleftrightarrow> i < nsteps p \<and> \<not> is_input p i \<and> deps p i = []"
    using wf_plans.roots [OF wf] by auto
  have nonroot: "deps p i \<noteq> []" if "i \<in> set (s_ready s)" for i using D(5) that by (auto simp: live_ok_def)
  have le: "s_launched s \<le> length (s_ready s)" using D(2) by (simp add: queue_ok_def)
  have same: "act ?s = act s" "started ?s = started s" using le by (simp_all add: act_def started_def)
  have uc: "unmet_count p ?s i = unmet_count p s i" for i by (rule unmet_count_cong) simp
  show ?thesis
  proof (rule coreI)
    show "shape_ok p ?s" using D(1) by (simp add: shape_ok_def)
    show "queue_ok p ?s" using D(2) R nonroot unfolding queue_ok_def same by (auto simp: p)
    show "states_ok p {} ?s" using D(3) unfolding states_ok_def same by simp
    show "stop_ok p ?s" using D(4) by (simp add: stop_ok_def)
    show "live_ok p True ?s" using D(5) R(2) unfolding live_ok_def uc by (auto simp: p)
    show "pool_ok ?s" using D(6) by (auto simp: pool_ok_def own_slots_def)
  qed
qed

lemma supplyInputs_core:
  assumes wf: "plan_wf p" and pool: "en_others env \<le> en_cap env" "op_Slots opts \<longrightarrow> 0 < en_cap env"
  shows "core p {} True (supplyInputs supplied (newScheduler env (new_execution eid p) p opts))"
proof -
  let ?s = "newScheduler env (new_execution eid p) p opts"
  let ?t = "fold (supply_one supplied) (p_Inputs p) ?s"
  have "s_plan ?s = p" by (simp add: newScheduler_def)
  moreover have "core p {} False ?t"
    using supply_all_core [OF wf new_core [OF wf pool], of "length (p_Inputs p)"] by simp
  ultimately show ?thesis
    unfolding supplyInputs_def Let_def by (simp only:) (rule add_roots_core [OF wf])
qed

section \<open>The inline call\<close>

lemma core_cong:
  assumes "core p X r s" "s_plan s' = s_plan s" "s_ex s' = s_ex s" "s_unmet s' = s_unmet s" "length (s_contexts s') = length (s_contexts s)"
    "s_inputs s' = s_inputs s" "s_ready s' = s_ready s" "s_launched s' = s_launched s"
    "distinct (act s) \<Longrightarrow> distinct (act s')" "set (act s') = set (act s)" "length (act s') = length (act s)"
    "s_inflight s' = s_inflight s" "s_maxConcurrency s' = s_maxConcurrency s" "s_stopped s' = s_stopped s"
    "s_abandonTimer s' = s_abandonTimer s" "s_cancelled s \<Longrightarrow> s_cancelled s'" "pool_ok s'"
  shows "core p X r s'"
proof -
  have "started s' = started s" using assms by (simp add: started_def)
  moreover have "unmet_count p s' = unmet_count p s" by (rule ext, rule unmet_count_cong) (simp add: assms)
  ultimately show ?thesis
    using assms unfolding core_def shape_ok_def queue_ok_def states_ok_def stop_ok_def live_ok_def by auto
qed

lemma tryInline_Some:
  assumes "tryInline obs s = Some t"
  obtains i s1 r where "s_launched s < length (s_ready s)" "\<not> s_stopped s" "s_inflight s = 0" "tryTake s"
    "i = s_ready s ! s_launched s" "s1 = prepare i (s\<lparr>s_launched := s_launched s + 1\<rparr>)" "r = run_step obs i s1"
    "t = handle \<lparr>cp_index = i, cp_result = r\<rparr> (set_attempt i r s1)"
  using assms by (auto simp: tryInline_def Let_def split: if_splits)

lemma act_prepare: "act (prepare i s) = act s" "act (s\<lparr>s_launched := k\<rparr>) = act s"
  by (simp_all add: act_def sched_simps)

lemma inline_prepared_core:
  assumes core: "core p {} True s" and next': "s_launched s < length (s_ready s)"
  defines "i \<equiv> s_ready s ! s_launched s"
  shows "core p {i} True (prepare i (s\<lparr>s_launched := s_launched s + 1\<rparr>))"
proof -
  let ?s = "prepare i (s\<lparr>s_launched := s_launched s + 1\<rparr>)"
  have b: "begin_step s ?s" using next' by (simp add: begin_step_def sched_simps i_def)
  note K = begin_step_kept [OF core b] and F = next_facts [OF core next', folded i_def] and D = coreD [OF core]
  have act': "act ?s = act s" by (simp add: act_def sched_simps)
  have succ: "st ?s d = StateSucceeded" if "st s d = StateSucceeded" for d
    using that F(6) unfolding K(4) by (auto simp: i_def)
  show ?thesis
  proof (rule coreI [OF K(1) _ _ K(2) K(3)])
    show "states_ok p {i} ?s"
      by (rule begin_step_states [OF core b]) (use F(5) in \<open>auto simp: act_prepare i_def\<close>)
    show "queue_ok p ?s"
      using D(2) succ next' K(5) unfolding queue_ok_def act' by (auto simp: sched_simps)
    show "pool_ok ?s" using D(6) by (auto simp: pool_ok_def own_slots_def sched_simps)
  qed
qed

lemma set_attempt_core: "core p X r s \<Longrightarrow> core p X r (set_attempt i res s)"
  by (rule core_cong) (auto simp: set_attempt_def act_def core_def pool_ok_def own_slots_def)

lemma tryInline_core:
  assumes wf: "plan_wf p" and core: "core p {} True s" and t: "tryInline obs s = Some t"
  shows "core p {} True t \<and> s_pc t = s_pc s"
proof (rule tryInline_Some [OF t])
  fix i s1 r
  assume *: "s_launched s < length (s_ready s)" "i = s_ready s ! s_launched s"
    "s1 = prepare i (s\<lparr>s_launched := s_launched s + 1\<rparr>)"
    "t = handle \<lparr>cp_index = i, cp_result = r\<rparr> (set_attempt i r s1)"
  have "core p {i} True (set_attempt i r s1)"
    using set_attempt_core [OF inline_prepared_core [OF core *(1)]] *(2,3) by simp
  from wf_plans.handle_core [OF wf this, of "\<lparr>cp_index = i, cp_result = r\<rparr>"]
  show ?thesis using *(3,4) by (simp add: sched_simps set_attempt_def)
qed

section \<open>Nothing left to do means everything is done\<close>

lemma all_succeeded:
  assumes wf: "plan_wf p" and core: "core p {} True s" and live: "\<not> s_stopped s"
    and idle: "act s = []" "s_launched s = length (s_ready s)"
  shows "i < nsteps p \<Longrightarrow> st s i = StateSucceeded"
proof -
  let ?R = "{(i, j). i < nsteps p \<and> j \<in> set (deps p i)}"
  have "?R \<subseteq> {..<nsteps p} \<times> {..<nsteps p}" using wf_plans.deps_range [OF wf] by auto
  then have "finite ?R" by (rule finite_subset) simp
  then have "wf (?R\<inverse>)" using wf_plans.deps_acyclic [OF wf] by (rule finite_acyclic_wf_converse)
  then show "i < nsteps p \<Longrightarrow> st s i = StateSucceeded"
  proof (induction i rule: wf_induct_rule)
    case (less i)
    have L: "st s i \<in> {StatePending, StateRunning, StateSucceeded}"
      "\<not> is_input p i \<Longrightarrow> unmet_count p s i = 0 \<Longrightarrow> i \<in> set (s_ready s)"
      using coreD(5) [OF core] live less.prems by (auto simp: live_ok_def)
    have S: "st s i \<noteq> StateRunning" "st s i = StatePending \<longleftrightarrow> \<not> is_input p i \<and> i \<notin> set (s_ready s)"
      using coreD(3) [OF core] less.prems idle by (auto simp: states_ok_def started_def)
    have "st s d = StateSucceeded" if "d \<in> set (deps p i)" for d
      using less.IH [of d] that less.prems wf_plans.deps_range [OF wf less.prems] by auto
    then have "unmet_count p s i = 0" by (simp add: unmet_count_def filter_empty_conv)
    with L S show ?case by auto
  qed
qed

lemma pump_exhausted:
  "\<not> (s_launched (pump s) < length (s_ready (pump s)) \<and> s_inflight (pump s) < s_maxConcurrency (pump s) \<and> tryTake (pump s))"
proof (induction s rule: pump.induct)
  case (1 s)
  show ?case
  proof (cases "s_launched s < length (s_ready s) \<and> s_inflight s < s_maxConcurrency s \<and> tryTake s")
    case True
    then have "pump s = pump (launch_next s)" by (subst pump.simps) simp
    with 1 True show ?thesis by simp
  next
    case False
    then have "pump s = s" by (subst pump.simps) (simp only: if_False)
    with False show ?thesis by simp
  qed
qed

lemma pump_frame: "s_pc (pump s) = s_pc s" "s_stopped (pump s) = s_stopped s" "s_callerDone (pump s) = s_callerDone s"
  by (induction s rule: pump.induct, subst pump.simps, simp add: sched_simps)+

section \<open>Every reachable state\<close>

text \<open>What an execution says once \<open>Run\<close> has returned it.\<close>

definition outcome_ok :: "'w ExecutionPlan \<Rightarrow> 'w Execution \<Rightarrow> bool" where
  "outcome_ok p ex \<longleftrightarrow>
     ex_Plan ex = p \<and> length (ex_Steps ex) = nsteps p \<and>
     (\<forall>i<nsteps p. let r = ex_Steps ex ! i in
        sr_ID r = cs_ID (p_Steps p ! i) \<and>
        sr_State r \<in> {StateSucceeded, StateFailed, StateCancelled, StateSkipped} \<and>
        (sr_Err r \<noteq> None \<longleftrightarrow> sr_State r \<in> {StateFailed, StateCancelled}) \<and>
        (sr_State r \<noteq> StateSucceeded \<longrightarrow> sr_Value r = zero_value) \<and>
        (sr_State r \<noteq> StateSkipped \<longrightarrow> (\<forall>d\<in>set (deps p i). sr_State (ex_Steps ex ! d) = StateSucceeded))) \<and>
     -1 \<le> ex_FailedStep ex \<and> ex_FailedStep ex < int (nsteps p) \<and>
     (ex_FailedStep ex \<ge> 0 \<longrightarrow> \<not> ex_Cancelled ex \<and>
        sr_State (ex_Steps ex ! nat (ex_FailedStep ex)) \<in> {StateFailed, StateCancelled}) \<and>
     (\<not> Execution_Failed ex \<longrightarrow> ex_Abandoned ex = 0 \<and> (\<forall>i<nsteps p. sr_State (ex_Steps ex ! i) = StateSucceeded))"

definition run_inv :: "'w ExecutionPlan \<Rightarrow> 'w scheduler \<Rightarrow> bool" where
  "run_inv p s \<longleftrightarrow>
     s_plan s = p \<and>
     (if s_pc s = Returned
      then outcome_ok p (s_ex s) \<and> distinct (act s) \<and> set (act s) \<subseteq> set (started s) \<and> pool_ok s \<and>
        (\<forall>i\<in>set (started s). i < nsteps p \<and> \<not> is_input p i \<and> (\<forall>d\<in>set (deps p i). st s d = StateSucceeded))
      else core p {} True s \<and> ex_Abandoned (s_ex s) = 0 \<and>
        (s_pc s = AtSelect \<longrightarrow> s_inflight s \<noteq> 0 \<or> waitingOn s))"

lemma return_run_inv:
  assumes wf: "plan_wf p" and core: "core p {} True s" and ab0: "ex_Abandoned (s_ex s) = 0"
    and why: "if ab then s_stopped s else act s = [] \<and> (s_stopped s \<or> s_launched s = length (s_ready s))"
  shows "run_inv p (return_run ab s)"
proof -
  let ?s = "return_run ab s"
  note D = coreD [OF core]
  have shape: "s_plan s = p" "ex_Plan (s_ex s) = p" "length (ex_Steps (s_ex s)) = nsteps p"
    "\<And>i. i < nsteps p \<Longrightarrow> sr_ID (ex_Steps (s_ex s) ! i) = cs_ID (p_Steps p ! i)"
    using D(1) by (simp_all add: shape_ok_def)
  have S: "\<And>i. i < nsteps p \<Longrightarrow> (st s i = StateRunning \<longleftrightarrow> i \<in> set (act s)) \<and>
      (st s i = StatePending \<longleftrightarrow> \<not> is_input p i \<and> i \<notin> set (started s)) \<and> st s i \<noteq> StateSkipped"
    "\<And>i. i < nsteps p \<Longrightarrow> (sr_Err (ex_Steps (s_ex s) ! i) \<noteq> None \<longleftrightarrow> st s i \<in> {StateFailed, StateCancelled}) \<and>
      (st s i \<noteq> StateSucceeded \<longrightarrow> val s i = zero_value)"
    using D(3) by (auto simp: states_ok_def)
  have nth: "ex_Steps (s_ex ?s) ! i = settle ab s i" if "i < nsteps p" for i
    using that shape by (simp add: return_run_def finalize_outcome)
  have Q: "set (act s) \<subseteq> set (started s)" "distinct (act s)"
    "\<And>i. i \<in> set (s_ready s) \<Longrightarrow> i < nsteps p \<and> \<not> is_input p i \<and> (\<forall>d\<in>set (deps p i). st s d = StateSucceeded)"
    using D(2) by (auto simp: queue_ok_def)
  have sub: "set (started s) \<subseteq> set (s_ready s)" unfolding started_def by (rule set_take_subset)
  have not_run: "ab \<or> st s i \<noteq> StateRunning" if "i < nsteps p" for i
    using S(1) [OF that] why by (cases ab) auto
  have ex: "ex_FailedStep (s_ex ?s) = ex_FailedStep (s_ex s)" "ex_Cancelled (s_ex ?s) = ex_Cancelled (s_ex s)"
    "ex_Plan (s_ex ?s) = p" "Execution_Failed (s_ex ?s) = Execution_Failed (s_ex s)"
    "length (ex_Steps (s_ex ?s)) = nsteps p" "s_plan ?s = p" "s_pc ?s = Returned" "act ?s = act s" "pool_ok ?s = pool_ok s"
    using D(4) why shape
    by (auto simp: return_run_def finalize_outcome finalize_fields Execution_Failed_def stop_ok_def act_def
        pool_ok_def own_slots_def split: if_splits)
  have fin: "i < nsteps p \<Longrightarrow> let r = ex_Steps (s_ex ?s) ! i in
        sr_ID r = cs_ID (p_Steps p ! i) \<and>
        sr_State r \<in> {StateSucceeded, StateFailed, StateCancelled, StateSkipped} \<and>
        (sr_Err r \<noteq> None \<longleftrightarrow> sr_State r \<in> {StateFailed, StateCancelled}) \<and>
        (sr_State r \<noteq> StateSucceeded \<longrightarrow> sr_Value r = zero_value) \<and>
        (sr_State r \<noteq> StateSkipped \<longrightarrow> (\<forall>d\<in>set (deps p i). sr_State (ex_Steps (s_ex ?s) ! d) = StateSucceeded))" for i
  proof -
    assume i: "i < nsteps p"
    have "\<forall>d\<in>set (deps p i). sr_State (ex_Steps (s_ex ?s) ! d) = StateSucceeded" if "st s i \<noteq> StatePending"
    proof
      fix d assume d: "d \<in> set (deps p i)"
      then have "\<not> is_input p i" using wf_plans.input_deps [OF wf] wf_plans.input_iff [OF wf i] by auto
      then have "i \<in> set (s_ready s)" using that S(1) [OF i] sub by auto
      then have "st s d = StateSucceeded" "d < nsteps p" using Q(3) d wf_plans.deps_range [OF wf i] by auto
      then show "sr_State (ex_Steps (s_ex ?s) ! d) = StateSucceeded" by (simp add: nth settle_state)
    qed
    moreover have "sr_State (ex_Steps (s_ex ?s) ! i) \<in> {StateSucceeded, StateFailed, StateCancelled, StateSkipped}"
      using not_run [OF i] S(1) [OF i] unfolding nth [OF i] settle_state by (cases "st s i") auto
    moreover have "sr_Err (ex_Steps (s_ex ?s) ! i) \<noteq> None \<longleftrightarrow> sr_State (ex_Steps (s_ex ?s) ! i) \<in> {StateFailed, StateCancelled}"
      using not_run [OF i] S(2) [OF i] unfolding nth [OF i] settle_state by (cases "st s i") auto
    moreover have "sr_State (ex_Steps (s_ex ?s) ! i) \<noteq> StateSucceeded \<longrightarrow> sr_Value (ex_Steps (s_ex ?s) ! i) = zero_value"
      using not_run [OF i] S(2) [OF i] unfolding nth [OF i] settle_state by (cases "st s i") auto
    moreover have "sr_State (ex_Steps (s_ex ?s) ! i) \<noteq> StateSkipped \<longrightarrow> st s i \<noteq> StatePending"
      "sr_ID (ex_Steps (s_ex ?s) ! i) = cs_ID (p_Steps p ! i)"
      unfolding nth [OF i] settle_state using shape(4) [OF i] by auto
    ultimately show ?thesis unfolding Let_def by blast
  qed
  have failed: "ex_FailedStep (s_ex s) \<ge> 0 \<longrightarrow> ex_FailedStep (s_ex s) < int (nsteps p) \<and> \<not> ex_Cancelled (s_ex s) \<and>
      sr_State (ex_Steps (s_ex ?s) ! nat (ex_FailedStep (s_ex s))) \<in> {StateFailed, StateCancelled}" "-1 \<le> ex_FailedStep (s_ex s)"
    using D(4) by (auto simp: stop_ok_def nth settle_state)
  have good: "ex_Abandoned (s_ex ?s) = 0 \<and> (\<forall>i<nsteps p. sr_State (ex_Steps (s_ex ?s) ! i) = StateSucceeded)"
    if "\<not> Execution_Failed (s_ex s)"
  proof -
    have ns: "\<not> s_stopped s" using that D(4) by (simp add: stop_ok_def)
    then have "\<not> ab" "act s = []" "s_launched s = length (s_ready s)" using why by (auto split: if_splits)
    with ab0 show ?thesis
      using all_succeeded [OF wf core ns] shape(3) by (simp add: return_run_def finalize_outcome settle_state)
  qed
  have "outcome_ok p (s_ex ?s)"
    unfolding outcome_ok_def ex using fin failed good by auto
  moreover have "started ?s = started s" by (simp add: started_def return_run_def sched_simps)
  moreover have "st ?s d = StateSucceeded" if "d < nsteps p" "st s d = StateSucceeded" for d
    unfolding nth [OF that(1)] settle_state using that(2) by simp
  then have "\<forall>i\<in>set (started s). i < nsteps p \<and> \<not> is_input p i \<and> (\<forall>d\<in>set (deps p i). st ?s d = StateSucceeded)"
    using Q(3) sub wf_plans.deps_range [OF wf] by (meson subsetD)
  ultimately show ?thesis unfolding run_inv_def ex using Q(1,2) D(6) by simp
qed

lemma run_invD:
  assumes "run_inv p s" "s_pc s \<noteq> Returned"
  shows "core p {} True s" "ex_Abandoned (s_ex s) = 0" "s_pc s = AtSelect \<Longrightarrow> s_inflight s \<noteq> 0 \<or> waitingOn s"
  using assms by (auto simp: run_inv_def)

lemma run_inv_top:
  assumes "core p {} True s" "ex_Abandoned (s_ex s) = 0" "s_pc s = AtTop"
  shows "run_inv p s"
  using assms by (auto simp: run_inv_def core_def shape_ok_def)

lemma handle_Abandoned_pump: "ex_Abandoned (s_ex (pump s)) = ex_Abandoned (s_ex s)"
  by (induction s rule: pump.induct, subst pump.simps, simp add: sched_simps)

lemma core_set_pc: "core p {} True (s\<lparr>s_pc := x\<rparr>) \<longleftrightarrow> core p {} True s"
  by (simp add: core_def shape_ok_def queue_ok_def states_ok_def stop_ok_def live_ok_def pool_ok_def
      own_slots_def act_def started_def unmet_count_def)

lemma top_step_inv:
  assumes wf: "plan_wf p" and inv: "run_inv p s" and pc: "s_pc s = AtTop"
  shows "run_inv p (top_step obs s)"
proof -
  have core: "core p {} True s" and ab: "ex_Abandoned (s_ex s) = 0" using run_invD [OF inv] pc by auto
  show ?thesis
  proof (cases "tryInline obs s")
    case (Some t)
    have "ex_Abandoned (s_ex t) = 0"
      by (rule tryInline_Some [OF Some]) (simp add: ab sched_simps set_attempt_def)
    with Some tryInline_core [OF wf core Some] pc show ?thesis
      by (simp add: top_step_def run_inv_top)
  next
    case None
    let ?s1 = "if s_stopped s then s else pump s"
    have c1: "core p {} True ?s1" using core pump_core [of p True s] by simp
    have f1: "ex_Abandoned (s_ex ?s1) = 0" "s_stopped ?s1 = s_stopped s" "s_plan ?s1 = p"
      using ab c1 by (auto simp: handle_Abandoned_pump pump_frame core_def shape_ok_def)
    note Q = coreD(2) [OF c1, unfolded queue_ok_def]
    show ?thesis
    proof (cases "s_inflight ?s1 = 0 \<and> \<not> waitingOn ?s1")
      case True
      have "act ?s1 = []" using True Q by auto
      moreover have "s_launched ?s1 = length (s_ready ?s1)" if ns: "\<not> s_stopped s"
      proof -
        have "\<not> (s_launched (pump s) < length (s_ready (pump s)) \<and> tryTake (pump s))"
          using pump_exhausted [of s] Q True ns by auto
        moreover have "tryTake (pump s) \<or> s_slots (pump s)" by (simp add: tryTake_def)
        ultimately show ?thesis using True Q ns by (auto simp: waitingOn_def pump_frame)
      qed
      ultimately have "run_inv p (return_run False ?s1)"
        by (intro return_run_inv [OF wf c1 f1(1)]) (use f1(2) in auto)
      with True None show ?thesis by (simp add: top_step_def Let_def)
    next
      case False
      have "run_inv p (?s1\<lparr>s_pc := AtSelect\<rparr>)"
        unfolding run_inv_def using False c1 f1 by (auto simp: core_set_pc waitingOn_def)
      with False None show ?thesis by (auto simp: top_step_def Let_def)
    qed
  qed
qed

lemma receive_core:
  assumes inv: "run_inv p s" and pc: "s_pc s = AtSelect" and dn: "s_done s = c # cs"
  shows "core p {cp_index c} True (s\<lparr>s_done := cs, s_inflight := s_inflight s - 1\<rparr>)"
proof -
  let ?s = "s\<lparr>s_done := cs, s_inflight := s_inflight s - 1\<rparr>"
  have core: "core p {} True s" and ab: "ex_Abandoned (s_ex s) = 0" using run_invD [OF inv] pc by auto
  note D = coreD [OF core]
  have act': "act s = g_running s @ cp_index c # map cp_index cs" "act ?s = g_running s @ map cp_index cs"
    by (simp_all add: act_def dn)
  have Q: "distinct (act s)" "set (act s) \<subseteq> set (started s)" "s_inflight s = int (length (act s))"
    using D(2) by (simp_all add: queue_ok_def)
  have i: "cp_index c \<in> set (started s)" "cp_index c \<in> set (act s)" using Q(2) act' by auto
  then have n: "cp_index c < nsteps p"
    using D(2) set_take_subset [of "s_launched s" "s_ready s"] by (auto simp: queue_ok_def started_def)
  show ?thesis
  proof (rule coreI)
    show "shape_ok p ?s" using D(1) by (simp add: shape_ok_def)
    show "queue_ok p ?s"
      using D(2) Q unfolding queue_ok_def act' by (auto simp: started_def)
    show "states_ok p {cp_index c} ?s"
      using D(3) i n Q(1) unfolding states_ok_def act' by (auto simp: started_def)
    show "stop_ok p ?s" using D(4) by (simp add: stop_ok_def)
    show "live_ok p True ?s" using D(5) by (simp add: live_ok_def unmet_count_def)
    show "pool_ok ?s" using D(6) by (auto simp: pool_ok_def own_slots_def)
  qed
qed

lemma receive_inv:
  assumes wf: "plan_wf p" and inv: "run_inv p s" and pc: "s_pc s = AtSelect" and dn: "s_done s = c # cs"
  shows "run_inv p ((handle c (s\<lparr>s_done := cs, s_inflight := s_inflight s - 1\<rparr>))\<lparr>s_pc := AtTop\<rparr>)"
proof -
  have ab: "ex_Abandoned (s_ex s) = 0" using run_invD [OF inv] pc by auto
  from wf_plans.handle_core [OF wf receive_core [OF inv pc dn], of c]
  show ?thesis by (intro run_inv_top) (simp_all add: core_set_pc ab sched_simps)
qed

lemma finish_inv:
  assumes inv: "run_inv p s" and i: "i \<in> set (g_running s)"
    and t_def: "t = (set_attempt i r s)\<lparr>s_done := s_done s @ [\<lparr>cp_index = i, cp_result = r\<rparr>],
     g_running := remove1 i (g_running s), g_releasing := (if s_slots s then g_releasing s + 1 else g_releasing s)\<rparr>"
  shows "run_inv p t"
proof -
  have act': "distinct (act s) \<Longrightarrow> distinct (act t)" "set (act t) = set (act s)" "length (act t) = length (act s)"
    if "distinct (act s)"
  proof -
    have d: "distinct (g_running s)" using that by (simp add: act_def)
    then show "distinct (act t)" using that i by (auto simp: act_def t_def set_attempt_def)
    show "set (act t) = set (act s)" using d i by (auto simp: act_def t_def set_attempt_def set_remove1_eq)
    show "length (act t) = length (act s)"
      using i length_pos_if_in_set [OF i] by (auto simp: act_def t_def set_attempt_def length_remove1)
  qed
  have dist: "distinct (act s)" using inv by (auto simp: run_inv_def core_def queue_ok_def split: if_splits)
  have "length (g_running s) = Suc (length (remove1 i (g_running s)))"
    using length_pos_if_in_set [OF i] i by (simp add: length_remove1)
  then have pool: "pool_ok s \<Longrightarrow> pool_ok t"
    by (auto simp: pool_ok_def own_slots_def t_def set_attempt_def)
  have same: "s_pc t = s_pc s" "s_ex t = s_ex s" "s_plan t = s_plan s" "waitingOn t = waitingOn s" "s_inflight t = s_inflight s"
    "started t = started s"
    by (simp_all add: t_def set_attempt_def waitingOn_def started_def)
  have "core p {} True t" if "core p {} True s"
    by (rule core_cong [OF that])
      (use act' [OF dist] pool coreD(6) [OF that] in \<open>simp_all add: t_def set_attempt_def\<close>)
  with inv act' [OF dist] pool show ?thesis unfolding run_inv_def same by auto
qed

lemma callerDone_inv:
  assumes inv: "run_inv p s" and pc: "s_pc s = AtSelect"
  shows "run_inv p ((windDown (if \<not> s_stopped s
      then s\<lparr>s_callerDone := False, s_stopped := True, s_ex := (s_ex s)\<lparr>ex_Cancelled := True\<rparr>\<rparr>
      else s\<lparr>s_callerDone := False\<rparr>))\<lparr>s_pc := AtTop\<rparr>)"
proof -
  have core: "core p {} True s" and ab: "ex_Abandoned (s_ex s) = 0" using run_invD [OF inv] pc by auto
  note D = coreD [OF core]
  show ?thesis
  proof (cases "s_stopped s")
    case True
    have "core p {} True (windDown (s\<lparr>s_callerDone := False\<rparr>))"
      by (rule core_cong [OF core])
        (use True D(4,6) in \<open>auto simp: windDown_def act_def pool_ok_def own_slots_def stop_ok_def\<close>)
    with True ab show ?thesis by (auto intro!: run_inv_top simp: core_set_pc) (simp add: windDown_def)
  next
    case False
    let ?t = "windDown (s\<lparr>s_callerDone := False, s_stopped := True, s_ex := (s_ex s)\<lparr>ex_Cancelled := True\<rparr>\<rparr>)"
    have same: "act ?t = act s" "started ?t = started s" by (simp_all add: windDown_def act_def started_def)
    have "core p {} True ?t"
    proof (rule coreI)
      show "shape_ok p ?t" using D(1) by (simp add: shape_ok_def windDown_def)
      show "queue_ok p ?t" using D(2) unfolding queue_ok_def same by (simp add: windDown_def)
      show "states_ok p {} ?t" using D(3) unfolding states_ok_def same by (simp add: windDown_def)
      show "stop_ok p ?t" using D(4) False by (auto simp: stop_ok_def windDown_def Execution_Failed_def)
      show "live_ok p True ?t" by (simp add: live_ok_def windDown_def)
      show "pool_ok ?t" using D(6) by (auto simp: pool_ok_def own_slots_def windDown_def)
    qed
    with False ab show ?thesis by (auto intro!: run_inv_top simp: core_set_pc) (simp add: windDown_def)
  qed
qed

lemma environment_inv:
  assumes inv: "run_inv p s" and ex: "s_ex t = s_ex s" "s_plan t = s_plan s" "s_unmet t = s_unmet s"
    "s_contexts t = s_contexts s" "s_inputs t = s_inputs s" "s_ready t = s_ready s" "s_launched t = s_launched s"
    "act t = act s" "s_inflight t = s_inflight s" "s_maxConcurrency t = s_maxConcurrency s" "s_stopped t = s_stopped s"
    "s_abandonTimer t = s_abandonTimer s" "s_cancelled s \<Longrightarrow> s_cancelled t" "s_pc t = s_pc s" "s_slots t = s_slots s"
    and pool: "pool_ok s \<Longrightarrow> pool_ok t"
  shows "run_inv p t"
proof -
  have "core p {} True t" if "core p {} True s"
    by (rule core_cong [OF that]) (use ex pool coreD(6) [OF that] in simp_all)
  moreover have "waitingOn t = waitingOn s" "started t = started s" by (simp_all add: waitingOn_def started_def ex)
  ultimately show ?thesis using inv pool unfolding run_inv_def ex by auto
qed

lemma sched_step_inv:
  assumes wf: "plan_wf p" and inv: "run_inv p s" and step: "sched_step e s = Some t"
  shows "run_inv p t"
proof (cases e)
  case (Top obs)
  with step top_step_inv [OF wf inv] show ?thesis by (auto split: if_splits)
next
  case TakeSlot
  then have pc: "s_pc s = AtSelect" and w: "waitingOn s" "pool_free s" and t: "t = (launch_next s)\<lparr>s_pc := AtTop\<rparr>"
    using step by (auto split: if_splits)
  have core: "core p {} True s" and ab: "ex_Abandoned (s_ex s) = 0" using run_invD [OF inv] pc by auto
  have "core p {} True (launch_next s)"
    by (rule launch_next_core [OF core]) (use w in \<open>auto simp: waitingOn_def\<close>)
  with ab show ?thesis unfolding t by (intro run_inv_top) (simp_all add: core_set_pc sched_simps)
next
  case ReceiveDone
  with step receive_inv [OF wf inv] show ?thesis by (auto split: if_splits list.splits)
next
  case CallerDone
  with step callerDone_inv [OF inv] show ?thesis by (auto split: if_splits)
next
  case Abandon
  then have pc: "s_pc s = AtSelect" "s_abandonTimer s" and t: "t = return_run True s"
    using step by (auto split: if_splits)
  have core: "core p {} True s" and ab: "ex_Abandoned (s_ex s) = 0" using run_invD [OF inv] pc by auto
  show ?thesis unfolding t
    by (rule return_run_inv [OF wf core ab]) (use pc coreD(4) [OF core] in \<open>auto simp: stop_ok_def\<close>)
next
  case (StepFinishes i obs)
  with step finish_inv [OF inv] show ?thesis by (auto simp: Let_def split: if_splits)
qed (use step in \<open>auto split: if_splits simp: act_def pool_ok_def own_slots_def pool_free_def intro!: environment_inv [OF inv]\<close>)

section \<open>Runs, and that they stop\<close>

definition starts_run :: "'w ExecutionPlan \<Rightarrow> 'w scheduler \<Rightarrow> bool" where
  "starts_run p s \<longleftrightarrow>
     plan_wf p \<and> (\<exists>env fresh opts. en_others env \<le> en_cap env \<and> (op_Slots opts \<longrightarrow> 0 < en_cap env) \<and>
       s = Run_start env fresh p opts)"

lemma supplyInputs_frame:
  "s_pc (supplyInputs vs s) = s_pc s" "ex_Abandoned (s_ex (supplyInputs vs s)) = ex_Abandoned (s_ex s)"
  "s_callerDone (supplyInputs vs s) = s_callerDone s" "s_slots (supplyInputs vs s) = s_slots s"
  "pool_cap (supplyInputs vs s) = pool_cap s" "g_running (supplyInputs vs s) = g_running s"
  "s_done (supplyInputs vs s) = s_done s" "s_launched (supplyInputs vs s) = s_launched s"
  unfolding supplyInputs_def Let_def
  using fold_frame [where fld = "\<lambda>s. ex_Abandoned (s_ex s)" and f = "supply_one vs"]
  by (simp_all add: fold_frame supply_one_def sched_simps)

lemma starts_run_inv: "starts_run p s \<Longrightarrow> run_inv p s"
proof -
  assume "starts_run p s"
  then obtain env fresh opts where wf: "plan_wf p" and env: "en_others env \<le> en_cap env" "op_Slots opts \<longrightarrow> 0 < en_cap env"
    and s: "s = Run_start env fresh p opts" by (auto simp: starts_run_def)
  let ?ex = "new_execution (if op_ExecutionID opts \<noteq> '''' then op_ExecutionID opts else fresh) p"
  let ?s0 = "newScheduler env ?ex p opts"
  show ?thesis
  proof (cases "nsteps p = 0")
    case True
    then show ?thesis
      using env by (simp add: s Run_start_def Let_def run_inv_def outcome_ok_def newScheduler_def new_execution_def
          act_def started_def pool_ok_def own_slots_def)
  next
    case False
    then have "s = supplyInputs (op_Inputs opts) ?s0" by (simp add: s Run_start_def Let_def)
    with supplyInputs_core [OF wf env] show ?thesis
      by (intro run_inv_top) (simp_all add: supplyInputs_frame, simp_all add: newScheduler_def new_execution_def)
  qed
qed

fun pc_weight :: "pc \<Rightarrow> nat" where
  "pc_weight AtTop = 2" | "pc_weight AtSelect = 1" | "pc_weight Returned = 0"

text \<open>
  Five for a step not yet started, three for one running, two for a completion to receive,
  two for the caller's signal, and the coordinator's position.
\<close>

definition work :: "'w scheduler \<Rightarrow> nat" where
  "work s = 5 * (nsteps (s_plan s) - s_launched s) + 3 * length (g_running s) + 2 * length (s_done s) +
     (if s_callerDone s then 2 else 0) + pc_weight (s_pc s)"

fun run_event :: "'w event \<Rightarrow> bool" where
  "run_event (Top _) = True" | "run_event TakeSlot = True" | "run_event ReceiveDone = True"
| "run_event CallerDone = True" | "run_event Abandon = True" | "run_event (StepFinishes _ _) = True"
| "run_event _ = False"

lemma launched_less:
  assumes "core p {} True s" "s_launched s < length (s_ready s)"
  shows "s_launched s < nsteps p"
proof -
  have "distinct (s_ready s)" "set (s_ready s) \<subseteq> {..<nsteps p}"
    using coreD(2) [OF assms(1)] by (auto simp: queue_ok_def)
  then have "length (s_ready s) \<le> nsteps p" by (rule distinct_length_le)
  with assms(2) show ?thesis by simp
qed

lemma launch_next_work:
  assumes "core p {} True s" "s_launched s < length (s_ready s)"
  shows "work (launch_next s) + 2 = work s"
  using launched_less [OF assms] coreD(1) [OF assms(1)] by (simp add: work_def sched_simps shape_ok_def)

lemma pump_work: "core p {} True s \<Longrightarrow> work (pump s) \<le> work s"
proof (induction s rule: pump.induct)
  case (1 s)
  show ?case
  proof (cases "s_launched s < length (s_ready s) \<and> s_inflight s < s_maxConcurrency s \<and> tryTake s")
    case True
    have "core p {} True (launch_next s)"
      by (rule launch_next_core [OF 1(2)]) (use True in \<open>auto simp: tryTake_def\<close>)
    then have "work (pump (launch_next s)) \<le> work (launch_next s)" using 1(1) True by blast
    moreover have "pump s = pump (launch_next s)" using True by (subst pump.simps) simp
    ultimately show ?thesis using launch_next_work [OF 1(2)] True by simp
  next
    case False
    then have "pump s = s" by (subst pump.simps) (simp only: if_False)
    then show ?thesis by simp
  qed
qed

lemma return_run_work: "s_pc s \<noteq> Returned \<Longrightarrow> work (return_run ab s) < work s"
  by (cases "s_pc s") (simp_all add: work_def return_run_def sched_simps)

lemma top_step_work:
  assumes core: "core p {} True s" and pc: "s_pc s = AtTop"
  shows "work (top_step obs s) < work s"
proof (cases "tryInline obs s")
  case (Some t)
  have "work t < work s"
    by (rule tryInline_Some [OF Some])
      (use launched_less [OF core] coreD(1) [OF core] in \<open>simp add: work_def sched_simps set_attempt_def shape_ok_def\<close>)
  with Some show ?thesis by (simp add: top_step_def)
next
  case None
  let ?s1 = "if s_stopped s then s else pump s"
  have le: "work ?s1 \<le> work s" and pc1: "s_pc ?s1 = AtTop" using pump_work [OF core] pc by (auto simp: pump_frame)
  have "work (return_run False ?s1) < work ?s1" using return_run_work [of ?s1] pc1 by simp
  moreover have "work (?s1\<lparr>s_pc := AtSelect\<rparr>) < work ?s1" using pc1 by (simp add: work_def)
  ultimately show ?thesis using le None by (auto simp: top_step_def Let_def)
qed

lemma sched_step_work:
  assumes inv: "run_inv p s" and step: "sched_step e s = Some t"
  shows "work t + (if run_event e then 1 else 0) \<le> work s"
proof (cases e)
  case (Top obs)
  then show ?thesis using step top_step_work [OF run_invD(1) [OF inv]] by (auto simp: Suc_le_eq split: if_splits)
next
  case TakeSlot
  then have *: "s_pc s = AtSelect" "waitingOn s" "t = (launch_next s)\<lparr>s_pc := AtTop\<rparr>"
    using step by (auto split: if_splits)
  then have "work (launch_next s) + 2 = work s"
    using launch_next_work [OF run_invD(1) [OF inv]] by (simp add: waitingOn_def)
  with * TakeSlot show ?thesis by (simp add: work_def sched_simps)
next
  case Abandon
  then have "s_pc s = AtSelect" "t = return_run True s" using step by (auto split: if_splits)
  with Abandon return_run_work [of s True] show ?thesis by simp
next
  case (StepFinishes i obs)
  then have i: "i \<in> set (g_running s)" using step by (auto split: if_splits)
  have "length (g_running s) = Suc (length (remove1 i (g_running s)))"
    using length_pos_if_in_set [OF i] i by (simp add: length_remove1)
  with StepFinishes step show ?thesis by (auto simp: work_def set_attempt_def Let_def split: if_splits)
qed (use step in \<open>auto simp: work_def sched_simps windDown_def split: if_splits list.splits\<close>)

interpretation runs: terminating_system "starts_run p" sched_step "\<lambda>s. plan_wf p \<and> run_inv p s" work run_event for p
proof
  fix s t :: "'a scheduler" and e
  show "starts_run p s \<Longrightarrow> plan_wf p \<and> run_inv p s" 
    using starts_run_inv [of p s] unfolding starts_run_def by blast
  show "plan_wf p \<and> run_inv p s \<Longrightarrow> sched_step e s = Some t \<Longrightarrow> plan_wf p \<and> run_inv p t"
    using sched_step_inv by blast
  show "plan_wf p \<and> run_inv p s \<Longrightarrow> sched_step e s = Some t \<Longrightarrow> work t + (if run_event e then 1 else 0) \<le> work s"
    using sched_step_work by blast
qed

section \<open>A run is never stuck\<close>

lemma run_progress:
  assumes inv: "run_inv p s" and pc: "s_pc s \<noteq> Returned"
  shows "(\<exists>e t. sched_step e s = Some t \<and> run_event e) \<or> sched_step StepReleases s \<noteq> None \<or> sched_step OtherReleases s \<noteq> None"
proof -
  note core = run_invD(1) [OF inv pc]
  note D = coreD [OF core]
  have Q: "distinct (act s)" "set (act s) \<subseteq> set (started s)" "s_inflight s = int (length (act s))"
    using D(2) by (simp_all add: queue_ok_def)
  have "set (started s) \<subseteq> {..<nsteps p}"
    using D(2) set_take_subset [of "s_launched s" "s_ready s"] by (auto simp: queue_ok_def started_def)
  then have n: "length (act s) \<le> nsteps p" using distinct_length_le [OF Q(1)] Q(2) by blast
  have plan: "s_plan s = p" using inv by (simp add: run_inv_def)
  consider "s_pc s = AtTop" | "s_pc s = AtSelect" "g_running s \<noteq> []" | "s_pc s = AtSelect" "g_running s = []" "s_done s \<noteq> []"
    | "s_pc s = AtSelect" "act s = []"
    using pc by (cases "s_pc s"; cases "g_running s"; cases "s_done s") (auto simp: act_def)
  then show ?thesis
  proof cases
    case 1
    then have "sched_step (Top undefined) s = Some (top_step undefined s)" by simp
    then show ?thesis by (metis run_event.simps(1))
  next
    case 2
    then have i: "hd (g_running s) \<in> set (g_running s)" by simp
    let ?i = "hd (g_running s)"
    have "length (s_done s) < nsteps p"
      using n 2(2) by (cases "g_running s") (simp_all add: act_def)
    with i have "\<exists>t. sched_step (StepFinishes ?i undefined) s = Some t" by (simp add: plan Let_def)
    then show ?thesis by (metis run_event.simps(6))
  next
    case 3
    then have "\<exists>t. sched_step ReceiveDone s = Some t" by (auto simp: neq_Nil_conv)
    then show ?thesis by (metis run_event.simps(3))
  next
    case 4
    then have w: "waitingOn s" using run_invD(3) [OF inv pc] Q(3) by simp
    show ?thesis
    proof (cases "pool_free s")
      case True
      with 4 w have "\<exists>t. sched_step TakeSlot s = Some t" by simp
      then show ?thesis by (metis run_event.simps(2))
    next
      case False
      then have "0 < g_releasing s + pool_others s"
        using D(6) w 4(2) by (auto simp: pool_free_def pool_ok_def own_slots_def waitingOn_def act_def)
      then show ?thesis by auto
    qed
  qed
qed

section \<open>A run can always be finished\<close>

text \<open>
  While a run has not returned an own event is enabled, which costs work, or a slot can be
  released, which leaves fewer of them taken.
\<close>

lemma run_completes:
  "plan_wf p \<Longrightarrow> run_inv p s \<Longrightarrow> \<exists>es t. run_events sched_step es s = Some t \<and> s_pc t = Returned"
proof (induction "(work s, g_releasing s + pool_others s)" arbitrary: s
    rule: wf_induct_rule [OF wf_lex_prod [OF wf_less_than wf_less_than]])
  case (1 s)
  show ?case
  proof (cases "s_pc s = Returned")
    case True
    then show ?thesis by (intro exI [of _ "[]"] exI [of _ s]) simp
  next
    case False
    have extend: ?thesis if step: "sched_step e s = Some t"
      and less: "work t < work s \<or> work t \<le> work s \<and> g_releasing t + pool_others t < g_releasing s + pool_others s" for e t
    proof -
      have "run_inv p t" using sched_step_inv 1(2,3) step by blast
      moreover have "((work t, g_releasing t + pool_others t), (work s, g_releasing s + pool_others s)) \<in> less_than <*lex*> less_than"
        using less by auto
      ultimately obtain es u where "run_events sched_step es t = Some u" "s_pc u = Returned"
        using 1(1) [of t] 1(2) by blast
      with step show ?thesis by (intro exI [of _ "e # es"] exI [of _ u]) simp
    qed
    have work: "work t + (if run_event e then 1 else 0) \<le> work s" if "sched_step e s = Some t" for e t
      using sched_step_work 1(2,3) that by blast
    from run_progress [OF 1(3) False] consider (own) e t where "sched_step e s = Some t" "run_event e"
      | (release) t where "sched_step StepReleases s = Some t" | (other) t where "sched_step OtherReleases s = Some t"
      by auto
    then show ?thesis
    proof cases
      case own
      with work [OF own(1)] show ?thesis by (intro extend [OF own(1)]) simp
    next
      case release
      then have "g_releasing t + pool_others t < g_releasing s + pool_others s" by (auto split: if_splits)
      with work [OF release] show ?thesis by (intro extend [OF release]) simp
    next
      case other
      then have "g_releasing t + pool_others t < g_releasing s + pool_others s" by (auto split: if_splits)
      with work [OF other] show ?thesis by (intro extend [OF other]) simp
    qed
  qed
qed

end
