(* ===== verification/Run_Types.thy ===== *)
theory Run_Types
  imports Run
begin

text \<open>
  Type soundness of a run: in every reachable state of a typed plan, every value a step
  produced has the step's type, every step reads exactly its dependencies' values from the
  shared input buffer, and no step ever fails with one of the two errors the adapters report
  for an engine bug.
\<close>

section \<open>The input buffer\<close>

lemma write_at_nth:
  "o' + length vs \<le> length buf \<Longrightarrow>
   write_at o' vs buf ! k = (if o' \<le> k \<and> k < o' + length vs then vs ! (k - o') else buf ! k)"
proof (induction vs arbitrary: o' buf)
  case Nil
  then show ?case by auto
next
  case (Cons v vs)
  then show ?case by (auto simp: nth_list_update nth_Cons' Suc_diff_Suc not_less_eq_eq le_Suc_eq)
qed

lemma write_at_slice:
  assumes "o' + length vs \<le> length buf"
  shows "take (length vs) (drop o' (write_at o' vs buf)) = vs"
  by (rule nth_equalityI) (use assms in \<open>auto simp: write_at_nth\<close>)

lemma write_at_other:
  assumes "o' + length vs \<le> length buf" "a + m \<le> length buf" "a + m \<le> o' \<or> o' + length vs \<le> a"
  shows "take m (drop a (write_at o' vs buf)) = take m (drop a buf)"
  by (rule nth_equalityI) (use assms in \<open>auto simp: write_at_nth\<close>)

section \<open>The typing invariant\<close>

definition result_ok :: "type_table \<Rightarrow> gotype \<Rightarrow> ResultValue \<Rightarrow> bool" where
  "result_ok tt t r \<longleftrightarrow> (rv_Err r = None \<longrightarrow> fits tt t (rv_Value r)) \<and> (\<forall>e. rv_Err r = Some e \<longrightarrow> \<not> engine_error e)"

definition typed_inv :: "type_table \<Rightarrow> (nat \<Rightarrow> gotype) \<Rightarrow> 'w ExecutionPlan \<Rightarrow> 'w scheduler \<Rightarrow> bool" where
  "typed_inv tt ty p s \<longleftrightarrow>
     (\<forall>i<nsteps p. st s i = StateSucceeded \<longrightarrow> fits tt (ty i) (val s i)) \<and>
     (\<forall>i<nsteps p. \<forall>e. sr_Err (ex_Steps (s_ex s) ! i) = Some e \<longrightarrow> \<not> engine_error e) \<and>
     (\<forall>c\<in>set (s_done s). result_ok tt (ty (cp_index c)) (cp_result c)) \<and>
     (\<forall>i\<in>set (started s). input_slice s i = map (val s) (deps p i))"

definition good_values :: "type_table \<Rightarrow> Value gomap \<Rightarrow> bool" where
  "good_values tt vs \<longleftrightarrow> (\<forall>name v. map_of vs name = Some v \<longrightarrow> (\<exists>t. registered tt t \<and> fits tt t v))"

lemma supply_result_ok:
  assumes "types_inv tt" "good_values tt vs" "registered tt t" "pi_Type inp = TypeOf tt t"
  shows "result_ok tt t (supply_input vs inp)"
proof (cases "map_of vs (pi_Name inp)")
  case None
  then show ?thesis by (simp add: supply_input_def result_ok_def err_result_def engine_error_def)
next
  case (Some v)
  then obtain u where u: "registered tt u" "fits tt u v" using assms(2) by (auto simp: good_values_def)
  have "u = t" if "v_typ v = pi_Type inp"
    using TypeOf_registered_inj [OF assms(1) u(1) assms(3)] u(2) that assms(4) by (simp add: fits_def)
  with u Some show ?thesis by (auto simp: supply_input_def result_ok_def err_result_def engine_error_def)
qed

lemma typed_handle:
  assumes t: "typed_inv tt ty p s" and len: "length (ex_Steps (s_ex s)) = nsteps p"
    and i: "cp_index c < nsteps p" "st s (cp_index c) \<noteq> StateSucceeded"
    and ok: "result_ok tt (ty (cp_index c)) (cp_result c)"
    and started': "started (handle c s) = started s"
    and deps': "\<forall>k\<in>set (started s). \<forall>d\<in>set (deps p k). st s d = StateSucceeded"
  shows "typed_inv tt ty p (handle c s)"
proof -
  have "map (val (handle c s)) (deps p k) = map (val s) (deps p k)" if "k \<in> set (started s)" for k
    using deps' that i by (intro map_cong) (auto simp: sched_simps nth_list_update len)
  moreover have "input_slice (handle c s) k = input_slice s k" for k by (simp add: input_slice_def sched_simps)
  ultimately show ?thesis
    using t ok i unfolding typed_inv_def started'
    by (auto simp: sched_simps nth_list_update len result_ok_def split: option.splits if_splits)
qed

lemma typed_begin:
  assumes wf: "plan_wf p" and core: "core p {} r s" and t: "typed_inv tt ty p s" and b: "begin_step s s'"
    and inputs: "s_inputs s' = s_inputs (prepare (s_ready s ! s_launched s) s)" and dn: "s_done s' = s_done s"
  shows "typed_inv tt ty p s'"
proof -
  let ?i = "s_ready s ! s_launched s"
  have next': "s_launched s < length (s_ready s)" using b by (simp add: begin_step_def)
  note F = next_facts [OF core next'] and K = begin_step_kept [OF core b]
  have shape: "s_plan s = p" "s_plan s' = p" "length (ex_Steps (s_ex s)) = nsteps p" "length (s_inputs s) = p_TotalInputs p"
    using coreD(1) [OF core] K(1) by (simp_all add: shape_ok_def)
  have vals: "val s' j = val s j" and errs: "sr_Err (ex_Steps (s_ex s') ! j) = sr_Err (ex_Steps (s_ex s) ! j)" for j
    using b F(1) shape by (auto simp: begin_step_def nth_list_update)
  have buf: "s_inputs s' = write_at (offset p ?i) (map (val s) (deps p ?i)) (s_inputs s)"
    unfolding inputs by (simp add: prepare_def Let_def shape)
  have "input_slice s' k = map (val s) (deps p k)" if "k \<in> set (started s')" for k
  proof (cases "k = ?i")
    case True
    then show ?thesis
      using write_at_slice [of "offset p ?i" "map (val s) (deps p ?i)" "s_inputs s"] wf_plans.slices_fit [OF wf F(1)]
      by (simp add: input_slice_def shape buf)
  next
    case False
    then have k: "k \<in> set (started s)" using that K(5) by auto
    then have kn: "k < nsteps p"
      using coreD(2) [OF core] set_take_subset [of "s_launched s" "s_ready s"] by (auto simp: queue_ok_def started_def)
    have "offset p k + length (deps p k) \<le> offset p ?i \<or> offset p ?i + length (deps p ?i) \<le> offset p k"
      using wf_plans.slices_disjoint [OF wf] kn F(1) False by (metis linorder_neqE_nat)
    then have "input_slice s' k = input_slice s k"
      using write_at_other [of "offset p ?i" "map (val s) (deps p ?i)" "s_inputs s" "offset p k" "length (deps p k)"]
        wf_plans.slices_fit [OF wf] kn F(1) shape by (simp add: input_slice_def buf)
    then show ?thesis using t k by (simp add: typed_inv_def)
  qed
  then show ?thesis
    using t F(6) unfolding typed_inv_def vals errs K(4) dn by auto
qed

section \<open>Every reachable state is typed\<close>

text \<open>What the invariant is proved for: a well-formed typed plan and a consistent type table.\<close>

definition typed_plan :: "type_table \<Rightarrow> (nat \<Rightarrow> gotype) \<Rightarrow> 'w ExecutionPlan \<Rightarrow> bool" where
  "typed_plan tt ty p \<longleftrightarrow> plan_wf p \<and> types_inv tt \<and> plan_typed tt p ty"

lemma run_step_ok:
  assumes tp: "typed_plan tt ty p" and t: "typed_inv tt ty p s" and plan: "s_plan s = p"
    and i: "i \<in> set (started s)" "i < nsteps p" "\<not> is_input p i" "\<forall>d\<in>set (deps p i). st s d = StateSucceeded"
  shows "result_ok tt (ty i) (run_step obs i s)"
proof -
  obtain n where n: "cs_Node (p_Steps p ! i) = Some n" using i(3) by (auto simp: IsInput_def)
  have wf: "plan_wf p" using tp by (simp add: typed_plan_def)
  have sound: "node_sound tt (map ty (deps p i)) (ty i) n"
    using tp n i(2) by (auto simp: typed_plan_def plan_typed_def Plan_Len_def)
  have "input_slice s i = map (val s) (deps p i)" using t i(1) by (simp add: typed_inv_def)
  moreover have "fits tt (ty d) (val s d)" if "d \<in> set (deps p i)" for d
    using t i(4) that wf_plans.deps_range [OF wf i(2) that] by (simp add: typed_inv_def)
  ultimately have ins: "list_all2 (fits tt) (map ty (deps p i)) (input_slice s i)"
    by (simp add: list_all2_conv_all_nth)
  show ?thesis
    using runStep_typed [OF sound n] ins
    by (auto simp: result_ok_def run_step_def plan)
qed

lemma typed_launch_next:
  assumes "plan_wf p" "core p {} True s" "typed_inv tt ty p s" "s_launched s < length (s_ready s)"
  shows "typed_inv tt ty p (launch_next s)"
  by (rule typed_begin [OF assms(1-3)]) (use assms(4) in \<open>simp_all add: begin_step_def sched_simps\<close>)

lemma typed_pump:
  "plan_wf p \<Longrightarrow> core p {} True s \<Longrightarrow> typed_inv tt ty p s \<Longrightarrow> typed_inv tt ty p (pump s)"
proof (induction s rule: pump.induct)
  case (1 s)
  show ?case
  proof (cases "s_launched s < length (s_ready s) \<and> s_inflight s < s_maxConcurrency s \<and> tryTake s")
    case True
    have "core p {} True (launch_next s)"
      by (rule launch_next_core [OF 1(3)]) (use True in \<open>auto simp: tryTake_def\<close>)
    then have "typed_inv tt ty p (pump (launch_next s))"
      using 1 True typed_launch_next by blast
    with True show ?thesis by (subst pump.simps) simp
  next
    case False
    then show ?thesis using 1(4) by (subst pump.simps) (simp only: if_False)
  qed
qed

lemma typed_finalize:
  assumes "typed_inv tt ty p s" "length (ex_Steps (s_ex s)) = nsteps p" "plan_wf p"
    "\<forall>k\<in>set (started s). k < nsteps p"
  shows "typed_inv tt ty p (return_run ab s)"
proof -
  let ?t = "return_run ab s"
  have nth: "ex_Steps (s_ex ?t) ! i = settle ab s i" if "i < nsteps p" for i
    using that assms(2) by (simp add: return_run_def finalize_outcome)
  have same: "started ?t = started s" "s_done ?t = s_done s" "input_slice ?t k = input_slice s k" for k
    by (simp_all add: started_def input_slice_def return_run_def sched_simps)
  have "map (val ?t) (deps p k) = map (val s) (deps p k)" if "k \<in> set (started s)" for k
    using wf_plans.deps_range [OF assms(3)] assms(4) that by (intro map_cong) (auto simp: nth settle_state)
  moreover have "\<not> engine_error (abandonedErr s i)" for i by (simp add: abandonedErr_def engine_error_def)
  ultimately show ?thesis
    using assms(1) unfolding typed_inv_def same by (auto simp: nth settle_state split: if_splits)
qed

lemma typed_frame:
  assumes "typed_inv tt ty p s" "s_ex t = s_ex s" "s_done t = s_done s" "s_plan t = s_plan s" "s_inputs t = s_inputs s"
    "s_launched t = s_launched s" "s_ready t = s_ready s"
  shows "typed_inv tt ty p t"
proof -
  have "started t = started s" by (simp add: started_def assms)
  moreover have "input_slice t k = input_slice s k" for k by (simp add: input_slice_def assms)
  ultimately show ?thesis using assms(1) by (simp add: typed_inv_def assms(2,3))
qed

lemma started_facts:
  assumes "run_inv p s" "i \<in> set (started s)"
  shows "i < nsteps p" "\<not> is_input p i" "\<forall>d\<in>set (deps p i). st s d = StateSucceeded"
proof -
  have "i < nsteps p \<and> \<not> is_input p i \<and> (\<forall>d\<in>set (deps p i). st s d = StateSucceeded)"
  proof (cases "s_pc s = Returned")
    case False
    then show ?thesis
      using coreD(2) [OF run_invD(1) [OF assms(1)]] assms(2) set_take_subset [of "s_launched s" "s_ready s"]
      by (auto simp: queue_ok_def started_def)
  qed (use assms in \<open>auto simp: run_inv_def\<close>)
  then show "i < nsteps p" "\<not> is_input p i" "\<forall>d\<in>set (deps p i). st s d = StateSucceeded" by blast+
qed

lemma handle_started:
  assumes wf: "plan_wf p" and core: "core p X r s" and X: "cp_index c \<in> X"
  shows "started (handle c s) = started s"
proof -
  obtain ys where "s_ready (handle c s) = s_ready s @ ys" using wf_plans.handle_ready [OF wf core X] by blast
  then show ?thesis using coreD(2) [OF core] by (simp add: started_def handle_fields queue_ok_def)
qed

lemma typed_handle_core:
  assumes wf: "plan_wf p" and core: "core p X r s" and X: "cp_index c \<in> X" and t: "typed_inv tt ty p s"
    and ok: "result_ok tt (ty (cp_index c)) (cp_result c)"
  shows "typed_inv tt ty p (handle c s)"
proof (rule typed_handle [OF t _ _ _ ok handle_started [OF wf core X]])
  show "length (ex_Steps (s_ex s)) = nsteps p" using coreD(1) [OF core] by (simp add: shape_ok_def)
  show "cp_index c < nsteps p" "st s (cp_index c) \<noteq> StateSucceeded"
    using coreD(3) [OF core] X by (auto simp: states_ok_def)
  show "\<forall>k\<in>set (started s). \<forall>d\<in>set (deps p k). st s d = StateSucceeded"
    using coreD(2) [OF core] set_take_subset [of "s_launched s" "s_ready s"] by (auto simp: queue_ok_def started_def)
qed

lemma typed_inline:
  assumes tp: "typed_plan tt ty p" and core: "core p {} True s" and t: "typed_inv tt ty p s"
    and inl: "tryInline obs s = Some u"
  shows "typed_inv tt ty p u"
proof (rule tryInline_Some [OF inl])
  fix i s1 r
  assume *: "s_launched s < length (s_ready s)" "i = s_ready s ! s_launched s"
    "s1 = prepare i (s\<lparr>s_launched := s_launched s + 1\<rparr>)" "r = run_step obs i s1"
    "u = handle \<lparr>cp_index = i, cp_result = r\<rparr> (set_attempt i r s1)"
  have wf: "plan_wf p" using tp by (simp add: typed_plan_def)
  have b: "begin_step s s1" using *(1) by (simp add: *(2,3) begin_step_def sched_simps)
  have t1: "typed_inv tt ty p s1"
    by (rule typed_begin [OF wf core t b]) (simp_all add: *(2,3) sched_simps, simp add: prepare_def Let_def)
  note F = next_facts [OF core *(1), folded *(2)] and K = begin_step_kept [OF core b, folded *(2)]
  have "result_ok tt (ty i) r"
    unfolding *(4)
  proof (rule run_step_ok [OF tp t1])
    show "s_plan s1 = p" using K(1) by (simp add: shape_ok_def)
    show "i \<in> set (started s1)" using K(5) by simp
    show "\<forall>d\<in>set (deps p i). st s1 d = StateSucceeded" using F(3,7) unfolding K(4) by auto
  qed (use F in auto)
  moreover have c1: "core p {i} True (set_attempt i r s1)"
    using set_attempt_core [OF inline_prepared_core [OF core *(1)]] *(2,3) by simp
  moreover have "typed_inv tt ty p (set_attempt i r s1)" by (rule typed_frame [OF t1]) (simp_all add: set_attempt_def)
  ultimately show ?thesis unfolding *(5) by (intro typed_handle_core [OF wf c1]) simp_all
qed

lemma typed_step:
  assumes tp: "typed_plan tt ty p" and inv: "run_inv p s" and t: "typed_inv tt ty p s" and step: "sched_step e s = Some u"
  shows "typed_inv tt ty p u"
proof -
  have wf: "plan_wf p" using tp by (simp add: typed_plan_def)
  have plan: "s_plan s = p" using inv by (simp add: run_inv_def)
  have ret: "typed_inv tt ty p (return_run ab x)" if "core p {} True x" "typed_inv tt ty p x" for ab x
  proof (rule typed_finalize [OF that(2) _ wf])
    show "length (ex_Steps (s_ex x)) = nsteps p" using coreD(1) [OF that(1)] by (simp add: shape_ok_def)
    show "\<forall>k\<in>set (started x). k < nsteps p"
      using coreD(2) [OF that(1)] set_take_subset [of "s_launched x" "s_ready x"] by (auto simp: queue_ok_def started_def)
  qed
  show ?thesis
  proof (cases e)
    case (Top obs)
    then have pc: "s_pc s = AtTop" and u: "u = top_step obs s" using step by (auto split: if_splits)
    have core: "core p {} True s" using run_invD(1) [OF inv] pc by simp
    show ?thesis
    proof (cases "tryInline obs s")
      case (Some x)
      with typed_inline [OF tp core t Some] show ?thesis by (simp add: u top_step_def)
    next
      case None
      let ?s1 = "if s_stopped s then s else pump s"
      have c1: "core p {} True ?s1" using core pump_core [of p True s] by simp
      have t1: "typed_inv tt ty p ?s1" using t typed_pump [OF wf core t] by simp
      have "typed_inv tt ty p (?s1\<lparr>s_pc := AtSelect\<rparr>)" by (rule typed_frame [OF t1]) simp_all
      with None ret [OF c1 t1, of False] show ?thesis by (auto simp: u top_step_def Let_def)
    qed
  next
    case TakeSlot
    then have *: "s_pc s = AtSelect" "waitingOn s" and u: "u = (launch_next s)\<lparr>s_pc := AtTop\<rparr>"
      using step by (auto split: if_splits)
    have core: "core p {} True s" using run_invD(1) [OF inv] *(1) by simp
    have "typed_inv tt ty p (launch_next s)"
      by (rule typed_launch_next [OF wf core t]) (use * in \<open>simp add: waitingOn_def\<close>)
    then show ?thesis unfolding u by (rule typed_frame) simp_all
  next
    case ReceiveDone
    then obtain c cs where *: "s_pc s = AtSelect" "s_done s = c # cs"
      and u: "u = (handle c (s\<lparr>s_done := cs, s_inflight := s_inflight s - 1\<rparr>))\<lparr>s_pc := AtTop\<rparr>"
      using step by (auto split: if_splits list.splits)
    let ?s = "s\<lparr>s_done := cs, s_inflight := s_inflight s - 1\<rparr>"
    have core: "core p {cp_index c} True ?s" by (rule receive_core [OF inv *])
    have t0: "typed_inv tt ty p ?s" using t *(2) by (simp add: typed_inv_def started_def input_slice_def)
    have "typed_inv tt ty p (handle c ?s)"
      by (rule typed_handle_core [OF wf core _ t0]) (use t *(2) in \<open>simp_all add: typed_inv_def\<close>)
    then show ?thesis unfolding u by (rule typed_frame) simp_all
  next
    case CallerDone
    then have u: "u = (windDown (if \<not> s_stopped s
        then s\<lparr>s_callerDone := False, s_stopped := True, s_ex := (s_ex s)\<lparr>ex_Cancelled := True\<rparr>\<rparr>
        else s\<lparr>s_callerDone := False\<rparr>))\<lparr>s_pc := AtTop\<rparr>"
      using step by (auto split: if_splits)
    show ?thesis using t by (simp add: u windDown_def typed_inv_def started_def input_slice_def)
  next
    case Abandon
    then have "s_pc s = AtSelect" "u = return_run True s" using step by (auto split: if_splits)
    with ret [OF run_invD(1) [OF inv] t] show ?thesis by simp
  next
    case (StepFinishes i obs)
    then have i: "i \<in> set (g_running s)" and u: "u = (set_attempt i (run_step obs i s) s)\<lparr>
        s_done := s_done s @ [\<lparr>cp_index = i, cp_result = run_step obs i s\<rparr>],
        g_running := remove1 i (g_running s), g_releasing := (if s_slots s then g_releasing s + 1 else g_releasing s)\<rparr>"
      using step by (auto simp: Let_def split: if_splits)
    have st: "i \<in> set (started s)"
      using i inv by (auto simp: run_inv_def core_def queue_ok_def act_def split: if_splits)
    have "result_ok tt (ty i) (run_step obs i s)"
      by (rule run_step_ok [OF tp t plan st started_facts [OF inv st]])
    with t show ?thesis by (auto simp: u set_attempt_def typed_inv_def started_def input_slice_def)
  qed (use step in \<open>auto split: if_splits intro!: typed_frame [OF t]\<close>)
qed

section \<open>Typed runs\<close>

lemma typed_supply:
  assumes tp: "typed_plan tt ty p" and vs: "good_values tt vs"
    and start: "core p {..<length (p_Inputs p)} False s" "typed_inv tt ty p s" and k: "k \<le> length (p_Inputs p)"
  shows "typed_inv tt ty p (fold (supply_one vs) (take k (p_Inputs p)) s)"
  using k
proof (induction k)
  case 0
  then show ?case using start by simp
next
  case (Suc k)
  have wf: "plan_wf p" using tp by (simp add: typed_plan_def)
  let ?t = "fold (supply_one vs) (take k (p_Inputs p)) s" and ?c = "\<lparr>cp_index = k, cp_result = supply_input vs (p_Inputs p ! k)\<rparr>"
  have k: "pi_Step (p_Inputs p ! k) = k" using wf_plans.input_step [OF wf] Suc.prems by simp
  have core: "core p {k..<length (p_Inputs p)} False ?t" using supply_all_core [OF wf start(1)] Suc.prems by simp
  have "result_ok tt (ty k) (supply_input vs (p_Inputs p ! k))"
    using tp Suc.prems vs by (intro supply_result_ok) (auto simp: typed_plan_def plan_typed_def)
  then have "typed_inv tt ty p (handle ?c ?t)"
    using Suc by (intro typed_handle_core [OF wf core]) simp_all
  moreover have "supply_one vs (p_Inputs p ! k) ?t = handle ?c ?t" by (simp only: supply_one_def k)
  ultimately show ?case using Suc.prems by (simp add: take_Suc_conv_app_nth)
qed

definition starts_typed :: "type_table \<Rightarrow> 'w ExecutionPlan \<Rightarrow> 'w scheduler \<Rightarrow> bool" where
  "starts_typed tt p s \<longleftrightarrow>
     plan_wf p \<and> (\<exists>env fresh opts. en_others env \<le> en_cap env \<and> (op_Slots opts \<longrightarrow> 0 < en_cap env) \<and>
       good_values tt (op_Inputs opts) \<and> s = Run_start env fresh p opts)"

lemma starts_typed_run: "starts_typed tt p s \<Longrightarrow> starts_run p s"
  unfolding starts_typed_def starts_run_def by blast

lemma new_typed: "plan_wf p \<Longrightarrow> typed_inv tt ty p (newScheduler env (new_execution eid p) p opts)"
  by (simp add: typed_inv_def newScheduler_def new_execution_def started_def)

lemma starts_typed_inv:
  assumes tp: "typed_plan tt ty p" and s: "starts_typed tt p s"
  shows "typed_inv tt ty p s"
proof -
  obtain env fresh opts where env: "en_others env \<le> en_cap env" "op_Slots opts \<longrightarrow> 0 < en_cap env"
    and vs: "good_values tt (op_Inputs opts)" and s: "s = Run_start env fresh p opts"
    using s by (auto simp: starts_typed_def)
  have wf: "plan_wf p" using tp by (simp add: typed_plan_def)
  define eid where "eid = (if op_ExecutionID opts \<noteq> '''' then op_ExecutionID opts else fresh)"
  let ?s0 = "newScheduler env (new_execution eid p) p opts"
  let ?t = "fold (supply_one (op_Inputs opts)) (p_Inputs p) ?s0"
  note core0 = new_core [OF wf env]
  have plan: "s_plan ?s0 = p" by (simp add: newScheduler_def)
  have t: "typed_inv tt ty p ?t"
    using typed_supply [OF tp vs core0 new_typed [OF wf], of "length (p_Inputs p)"] by simp
  have "core p {} False ?t" using supply_all_core [OF wf core0, of "length (p_Inputs p)"] by simp
  then have le: "s_launched ?t \<le> length (s_ready ?t)" by (simp add: core_def queue_ok_def)
  have "typed_inv tt ty p (?t\<lparr>s_ready := s_ready ?t @ p_Roots (s_plan ?t)\<rparr>)"
    using t le by (simp add: typed_inv_def started_def input_slice_def)
  moreover have "typed_inv tt ty p (?s0\<lparr>s_pc := Returned\<rparr>)" by (rule typed_frame [OF new_typed [OF wf]]) simp_all
  ultimately show ?thesis
    unfolding s Run_start_def Let_def supplyInputs_def eid_def [symmetric] plan
    by (cases "nsteps p = 0") (simp_all only: if_True if_False refl)
qed

interpretation typed_runs: transition_system "\<lambda>s. typed_plan tt ty p \<and> starts_typed tt p s" sched_step
  "\<lambda>s. typed_plan tt ty p \<and> run_inv p s \<and> typed_inv tt ty p s" for tt ty p
proof
  fix s t :: "'a scheduler" and e
  show "typed_plan tt ty p \<and> starts_typed tt p s \<Longrightarrow> typed_plan tt ty p \<and> run_inv p s \<and> typed_inv tt ty p s"
    using starts_typed_inv starts_typed_run starts_run_inv by blast
  show "typed_plan tt ty p \<and> run_inv p s \<and> typed_inv tt ty p s \<Longrightarrow> sched_step e s = Some t \<Longrightarrow>
      typed_plan tt ty p \<and> run_inv p t \<and> typed_inv tt ty p t"
    using typed_step sched_step_inv by (meson typed_plan_def)
qed

end
