(* ===== verification/Run_Safety.thy ===== *)
theory Run_Safety
  imports Run_Types
begin

text \<open>
  Two further facts about runs. A run that stopped never starts another step. And the mutation
  guard raises no false alarm: when the heap stays as it is, a run reports no violation.
\<close>

section \<open>Stopping is final\<close>

definition halted :: "nat list \<Rightarrow> 'w scheduler \<Rightarrow> bool" where
  "halted xs s \<longleftrightarrow> (s_stopped s \<or> s_pc s = Returned) \<and> started s = xs"

lemma handle_stopped:
  assumes "s_stopped s"
  shows "s_stopped (handle c s)" "started (handle c s) = started s"
  using assms by (simp_all add: sched_simps handle_stops_def released_def started_def)

lemma top_step_stopped:
  assumes "s_stopped s"
  shows "started (top_step obs s) = started s" "s_stopped (top_step obs s) \<or> s_pc (top_step obs s) = Returned"
proof -
  have "tryInline obs s = None" using assms by (simp add: tryInline_def)
  then show "started (top_step obs s) = started s" "s_stopped (top_step obs s) \<or> s_pc (top_step obs s) = Returned"
    using assms by (simp_all add: top_step_def return_run_def Let_def started_def sched_simps)
qed

lemma halted_step:
  assumes h: "halted xs s" and step: "sched_step e s = Some t"
  shows "halted xs t"
proof (cases e)
  case (Top obs)
  with h step show ?thesis using top_step_stopped [of s obs] by (auto simp: halted_def split: if_splits)
next
  case ReceiveDone
  with h step have "s_stopped s" by (auto simp: halted_def split: if_splits)
  with h step ReceiveDone show ?thesis
    by (auto simp: halted_def started_def sched_simps handle_stops_def released_def split: if_splits list.splits)
next
  case Abandon
  with h step show ?thesis
    by (auto simp: halted_def return_run_def started_def sched_simps split: if_splits)
qed (use h step in \<open>auto simp: halted_def windDown_def started_def waitingOn_def set_attempt_def Let_def split: if_splits\<close>)

interpretation stopped_runs: transition_system "halted xs" sched_step "halted xs" for xs
  by unfold_locales (simp, erule (1) halted_step)

section \<open>The mutation guard\<close>

definition guard_ok :: "'w scheduler \<Rightarrow> bool" where
  "guard_ok s \<longleftrightarrow>
     (let n = length (ex_Steps (s_ex s)); g = s_guard s in
      mg_enabled g \<longrightarrow> length (mg_snapshots g) = n \<and> length (mg_taken g) = n \<and>
        (\<forall>i<n. mg_taken g ! i = (\<not> IsZero (val s i)) \<and>
           (mg_taken g ! i \<longrightarrow> mg_snapshots g ! i = heap_render s (val s i))))"

lemma handle_guard [sched_simps]:
  "s_guard (handle c s) = guard_record (heap_render s) (cp_index c)
     (sr_Value (ex_Steps (s_ex (handle c s)) ! cp_index c)) (s_guard s)"
  by (simp add: handle_eq fold_frame)

lemma guard_ok_cong:
  "map sr_Value (ex_Steps (s_ex t)) = map sr_Value (ex_Steps (s_ex s)) \<Longrightarrow> s_guard t = s_guard s \<Longrightarrow>
   heap_render t = heap_render s \<Longrightarrow> guard_ok s \<Longrightarrow> guard_ok t"
  unfolding guard_ok_def Let_def by (metis length_map nth_map)

lemma handle_guard_ok:
  assumes "guard_ok s" "cp_index c < length (ex_Steps (s_ex s))" "val s (cp_index c) = zero_value"
  shows "guard_ok (handle c s)"
  using assms
  by (auto simp: guard_ok_def Let_def sched_simps guard_record_def nth_list_update recorded_def split: option.splits)

lemma launch_next_guard_ok: "guard_ok s \<Longrightarrow> guard_ok (launch_next s)"
  by (rule guard_ok_cong [where s = s]) (simp_all add: sched_simps map_update)

lemma pump_guard_ok: "guard_ok s \<Longrightarrow> guard_ok (pump s)"
proof (induction s rule: pump.induct)
  case (1 s)
  then show ?case using launch_next_guard_ok [of s] by (subst pump.simps) simp
qed

text \<open>The check at the end compares each recorded rendering with the current one.\<close>

lemma settle_value: "sr_Value (settle ab s i) = val s i"
  by (simp add: settle_def skip_step_def)

lemma guard_check_frame: "guard_check render g (e\<lparr>ex_Mutations := m\<rparr>) = guard_check render g e"
proof -
  have "guard_check_step render g (e\<lparr>ex_Mutations := m\<rparr>) i = guard_check_step render g e i" for i
    by (simp add: guard_check_step_def consumerNames_def Let_def)
  then have "guard_check_step render g (e\<lparr>ex_Mutations := m\<rparr>) = guard_check_step render g e" by (rule ext)
  then show ?thesis by (simp add: guard_check_def)
qed

lemma finalize_mutations:
  "ex_Mutations (s_ex (finalize ab s)) = guard_check (heap_render s) (s_guard s) (s_ex (finalize ab s))"
proof -
  let ?f = "fold abandon_step [0..<length (ex_Steps (s_ex s))] s"
  have "s_guard ?f = s_guard s" "heap_render ?f = heap_render s"
    by (simp_all add: fold_frame abandon_step_frame)
  then show ?thesis
    by (cases ab; cases "Execution_Failed (s_ex ?f)") (simp_all add: finalize_def Let_def guard_check_frame)
qed

lemma guard_ok_no_mutations:
  assumes "guard_ok s"
  shows "ex_Mutations (s_ex (finalize ab s)) = []"
proof -
  let ?e = "s_ex (finalize ab s)"
  have "guard_check_step (heap_render s) (s_guard s) ?e i = []" if "i < length (ex_Steps ?e)" "mg_enabled (s_guard s)" for i
    using assms that by (auto simp: guard_check_step_def Let_def guard_ok_def finalize_outcome settle_value)
  then show ?thesis by (auto simp: finalize_mutations guard_check_def)
qed

section \<open>Runs with a still heap\<close>

fun still :: "'w event \<Rightarrow> bool" where
  "still (HeapChanges _) = False"
| "still _ = True"

definition still_step :: "'w event \<Rightarrow> 'w scheduler \<Rightarrow> 'w scheduler option" where
  "still_step e s = (if still e then sched_step e s else None)"

definition guarded :: "'w ExecutionPlan \<Rightarrow> 'w scheduler \<Rightarrow> bool" where
  "guarded p s \<longleftrightarrow> plan_wf p \<and> run_inv p s \<and> (if s_pc s = Returned then ex_Mutations (s_ex s) = [] else guard_ok s)"

lemma return_run_mutations: "guard_ok s \<Longrightarrow> ex_Mutations (s_ex (return_run ab s)) = []"
  by (simp add: return_run_def guard_ok_no_mutations)

lemma unfinished_zero: "core p X r s \<Longrightarrow> i < nsteps p \<Longrightarrow> st s i \<noteq> StateSucceeded \<Longrightarrow> val s i = zero_value"
  using coreD(3) [of p X r s] unfolding states_ok_def by blast

lemma active_running: "core p {} r s \<Longrightarrow> i \<in> set (act s) \<Longrightarrow> i < nsteps p \<Longrightarrow> st s i = StateRunning"
  using coreD(3) [of p "{}" r s] unfolding states_ok_def by blast

lemma tryInline_guard_ok:
  assumes core: "core p {} True s" and g: "guard_ok s" and t: "tryInline obs s = Some t"
  shows "guard_ok t"
proof (rule tryInline_Some [OF t])
  fix i s1 r
  assume *: "s_launched s < length (s_ready s)" "i = s_ready s ! s_launched s"
    "s1 = prepare i (s\<lparr>s_launched := s_launched s + 1\<rparr>)" "t = handle \<lparr>cp_index = i, cp_result = r\<rparr> (set_attempt i r s1)"
  have i: "i < nsteps p" "\<not> is_input p i" "i \<notin> set (started s)"
    using coreD(2) [OF core] * nth_mem [OF *(1)]
    by (auto simp: queue_ok_def started_def in_set_conv_nth nth_eq_iff_index_eq)
  then have "st s i = StatePending" using coreD(3) [OF core] unfolding states_ok_def by blast
  then have zero: "val s i = zero_value" using unfinished_zero [OF core i(1)] by simp
  have len: "length (ex_Steps (s_ex s)) = nsteps p" using coreD(1) [OF core] by (simp add: shape_ok_def)
  have "guard_ok (set_attempt i r s1)"
    by (rule guard_ok_cong [OF _ _ _ g]) (simp_all add: * set_attempt_def sched_simps map_update)
  then show ?thesis
    using i(1) len zero unfolding *(4) by (intro handle_guard_ok) (simp_all add: * set_attempt_def sched_simps)
qed

lemma guarded_step:
  assumes inv: "guarded p s" and step: "still_step e s = Some t"
  shows "guarded p t"
proof -
  have wf: "plan_wf p" and run: "run_inv p s" and e: "still e" "sched_step e s = Some t"
    using inv step by (auto simp: guarded_def still_step_def split: if_splits)
  have run': "run_inv p t" by (rule sched_step_inv [OF wf run e(2)])
  have "if s_pc t = Returned then ex_Mutations (s_ex t) = [] else guard_ok t"
  proof (cases "s_pc s = Returned")
    case True
    then show ?thesis
      using inv e by (cases e) (auto simp: guarded_def set_attempt_def Let_def guard_ok_def split: if_splits)
  next
    case False
    then have g: "guard_ok s" and core: "core p {} True s" using inv run by (auto simp: guarded_def run_inv_def)
    show ?thesis
    proof (cases e)
      case (Top obs)
      then have t: "t = top_step obs s" using e(2) by (simp split: if_splits)
      show ?thesis
      proof (cases "tryInline obs s")
        case (Some u)
        then show ?thesis
          using tryInline_guard_ok [OF core g Some] tryInline_core [OF wf core Some] False
          by (simp add: t top_step_def)
      next
        case None
        define u where "u = (if s_stopped s then s else pump s)"
        have u: "guard_ok u" using g pump_guard_ok [OF g] by (simp add: u_def)
        then have "guard_ok (u\<lparr>s_pc := AtSelect\<rparr>)" by (simp add: guard_ok_def)
        then show ?thesis
          using return_run_mutations [OF u, of False] None
          by (simp add: t top_step_def Let_def u_def [symmetric] return_run_def)
      qed
    next
      case TakeSlot
      then show ?thesis using e(2) launch_next_guard_ok [OF g] by (auto simp: guard_ok_def split: if_splits)
    next
      case ReceiveDone
      then obtain c cs where c: "s_done s = c # cs"
        "t = (handle c (s\<lparr>s_done := cs, s_inflight := s_inflight s - 1\<rparr>))\<lparr>s_pc := AtTop\<rparr>"
        using e(2) by (auto split: if_splits list.splits)
      have act: "cp_index c \<in> set (act s)" using c(1) by (simp add: act_def)
      then have i: "cp_index c < nsteps p" using coreD(2) [OF core] by (auto simp: queue_ok_def started_def dest: in_set_takeD)
      have "val s (cp_index c) = zero_value"
        using unfinished_zero [OF core i] active_running [OF core act i] by simp
      moreover have "length (ex_Steps (s_ex s)) = nsteps p" using coreD(1) [OF core] by (simp add: shape_ok_def)
      ultimately have "guard_ok (handle c (s\<lparr>s_done := cs, s_inflight := s_inflight s - 1\<rparr>))"
        using g i by (intro handle_guard_ok) (simp_all add: guard_ok_def)
      then show ?thesis by (simp add: c(2) guard_ok_def)
    next
      case Abandon
      then show ?thesis using e(2) g return_run_mutations by (auto simp: return_run_def split: if_splits)
    qed (use e g False in \<open>auto simp: guard_ok_def windDown_def set_attempt_def Let_def split: if_splits\<close>)
  qed
  with wf run' show ?thesis by (simp add: guarded_def)
qed

lemma new_guard_ok: "guard_ok (newScheduler env (new_execution eid p) p opts)"
  by (auto simp: guard_ok_def newScheduler_def new_execution_def newMutationGuard_def Let_def)

lemma supply_guard_ok:
  assumes wf: "plan_wf p" and core: "core p {..<length (p_Inputs p)} False s" and g: "guard_ok s" and k: "k \<le> length (p_Inputs p)"
  shows "guard_ok (fold (supply_one vs) (take k (p_Inputs p)) s)"
  using k
proof (induction k)
  case 0
  then show ?case using g by simp
next
  case (Suc k)
  let ?t = "fold (supply_one vs) (take k (p_Inputs p)) s"
  have c: "core p {k..<length (p_Inputs p)} False ?t" using supply_all_core [OF wf core] Suc.prems by simp
  have k: "pi_Step (p_Inputs p ! k) = k" "k < nsteps p"
    using wf_plans.input_step [OF wf] wf_plans.inputs_le [OF wf] Suc.prems by auto
  have "st ?t k \<in> {StatePending, StateRunning}"
    using coreD(3) [OF c] Suc.prems unfolding states_ok_def by simp
  then have "val ?t k = zero_value" using unfinished_zero [OF c k(2)] by auto
  moreover have "length (ex_Steps (s_ex ?t)) = nsteps p" using coreD(1) [OF c] by (simp add: shape_ok_def)
  ultimately have "guard_ok (supply_one vs (p_Inputs p ! k) ?t)"
    using Suc k unfolding supply_one_def by (intro handle_guard_ok) simp_all
  then show ?case using Suc.prems by (simp add: take_Suc_conv_app_nth)
qed

lemma starts_guarded:
  assumes s: "starts_run p s"
  shows "guarded p s"
proof -
  obtain env fresh opts where env: "en_others env \<le> en_cap env" "op_Slots opts \<longrightarrow> 0 < en_cap env"
    and s': "s = Run_start env fresh p opts" and wf: "plan_wf p"
    using s by (auto simp: starts_run_def)
  define eid where "eid = (if op_ExecutionID opts \<noteq> '''' then op_ExecutionID opts else fresh)"
  let ?s0 = "newScheduler env (new_execution eid p) p opts"
  have plan: "s_plan ?s0 = p" by (simp add: newScheduler_def)
  have "guard_ok (fold (supply_one (op_Inputs opts)) (p_Inputs p) ?s0)"
    using supply_guard_ok [OF wf new_core [OF wf env] new_guard_ok, of "length (p_Inputs p)"] by simp
  then have "guard_ok (supplyInputs (op_Inputs opts) ?s0)"
    by (simp add: supplyInputs_def Let_def plan guard_ok_def)
  moreover have "s_pc (supplyInputs (op_Inputs opts) ?s0) = AtTop" by (simp add: supplyInputs_frame newScheduler_def)
  ultimately have "if s_pc s = Returned then ex_Mutations (s_ex s) = [] else guard_ok s"
    unfolding s' Run_start_def Let_def eid_def [symmetric]
    by (cases "nsteps p = 0") (simp_all add: newScheduler_def new_execution_def)
  with wf starts_run_inv [OF s] show ?thesis by (simp add: guarded_def)
qed

interpretation still_runs: transition_system "starts_run p" still_step "guarded p" for p
  by unfold_locales (erule starts_guarded, erule (1) guarded_step)

section \<open>The steps in flight\<close>

lemma running_started:
  assumes "run_inv p s"
  shows "set (g_running s) \<subseteq> set (started s)"
proof -
  have "set (act s) \<subseteq> set (started s)"
  proof (cases "s_pc s = Returned")
    case True
    with assms show ?thesis by (simp add: run_inv_def)
  next
    case False
    with assms have "queue_ok p s" by (simp add: run_inv_def core_def)
    then show ?thesis by (simp add: queue_ok_def)
  qed
  then show ?thesis by (simp add: act_def)
qed

lemma in_flight:
  assumes core: "core p {} True s"
  shows "distinct (act s)" "int (length (act s)) \<le> s_maxConcurrency s" "own_slots s + pool_others s \<le> pool_cap s"
    and "i \<in> set (act s) \<Longrightarrow> i < nsteps p \<and> \<not> is_input p i \<and> st s i = StateRunning \<and>
       (\<forall>d\<in>set (deps p i). st s d = StateSucceeded)"
proof -
  note Q = coreD(2) [OF core, unfolded queue_ok_def]
  have q: "distinct (act s)" "set (act s) \<subseteq> set (started s)" "s_inflight s = int (length (act s))"
    "s_inflight s \<le> s_maxConcurrency s"
    using Q by blast+
  have ready: "\<forall>i\<in>set (s_ready s). i < nsteps p \<and> \<not> is_input p i \<and> (\<forall>d\<in>set (deps p i). st s d = StateSucceeded)"
    using Q by blast
  show "distinct (act s)" "int (length (act s)) \<le> s_maxConcurrency s" using q by simp_all
  show "own_slots s + pool_others s \<le> pool_cap s" using coreD(6) [OF core] by (simp add: pool_ok_def)
  assume i: "i \<in> set (act s)"
  then have "i \<in> set (s_ready s)" using q(2) by (auto simp: started_def dest: in_set_takeD)
  with ready active_running [OF core i] show "i < nsteps p \<and> \<not> is_input p i \<and> st s i = StateRunning \<and>
       (\<forall>d\<in>set (deps p i). st s d = StateSucceeded)" by simp
qed

lemma starts_work:
  assumes "starts_run p s"
  shows "work s \<le> 5 * nsteps p + 4"
proof -
  obtain env fresh opts where s: "s = Run_start env fresh p opts" using assms by (auto simp: starts_run_def)
  have "g_running s = []" "s_done s = []" "s_launched s = 0" "s_plan s = p"
    using starts_run_inv [OF assms]
    by (simp_all add: s Run_start_def Let_def supplyInputs_frame newScheduler_def run_inv_def)
  then show ?thesis by (cases "s_pc s") (simp_all add: work_def)
qed

end
