(* ===== verification/Load.thy ===== *)
theory Load
  imports Run_Types
begin

text \<open>
  Loading a directory of pipelines (\<^verbatim>\<open>internal/daemon/load.go\<close>). What the file system
  delivers is an argument: the entries in \<open>os.ReadDir\<close> order, the path of an entry, and what
  \<open>pipeline.ParseFile\<close> returns for a path. A pointer to a candidate is its position in the
  list of candidates, so two candidates are never the same pipeline.
\<close>

section \<open>Entries\<close>

record dir_entry =
  de_Name :: string
  de_IsDir :: bool

text \<open>\<open>filepath.Ext\<close>: the suffix from the last dot, empty without one.\<close>

definition Ext :: "string \<Rightarrow> string" where
  "Ext name =
     (if CHR ''.'' \<in> set name then CHR ''.'' # rev (takeWhile (\<lambda>c. c \<noteq> CHR ''.'') (rev name)) else [])"

definition TrimSuffix :: "string \<Rightarrow> string \<Rightarrow> string" where
  "TrimSuffix s suffix =
     (if length suffix \<le> length s \<and> drop (length s - length suffix) s = suffix
      then take (length s - length suffix) s else s)"

definition is_pipeline_entry :: "dir_entry \<Rightarrow> bool" where
  "is_pipeline_entry e \<longleftrightarrow> \<not> de_IsDir e \<and> (Ext (de_Name e) = ''.yaml'' \<or> Ext (de_Name e) = ''.yml'')"

record 'w Pipeline =
  pl_Name :: string
  pl_Path :: string
  pl_Plan :: "'w ExecutionPlan"

datatype load_error = ParseError go_error | CompileProblems "Problem list" | ClaimCollision Claim "string list"

record Rejection =
  rj_Path :: string
  rj_Err :: load_error

record 'w Loaded =
  ld_Served :: "'w Pipeline list"
  ld_Rejected :: "Rejection list"
  ld_Untriggered :: "string list"

definition pipeline_Trigger :: "'w Pipeline \<Rightarrow> Trigger" where
  "pipeline_Trigger p = (case p_Trigger (pl_Plan p) of Some tb \<Rightarrow> tb_Trigger tb
     | None \<Rightarrow> \<lparr>tr_Descriptor = \<lparr>td_Name = '''', td_Provides = []\<rparr>, tr_Claim = zero_claim, tr_HTTPDriven = None,
                tr_SelfDriven = None, tr_Authenticating = None\<rparr>)"

definition pipeline_Claim :: "'w Pipeline \<Rightarrow> Claim" where
  "pipeline_Claim p = tr_Claim (pipeline_Trigger p)"

section \<open>Claims\<close>

definition claimants :: "'w Pipeline list \<Rightarrow> Claim \<Rightarrow> 'w Pipeline list" where
  "claimants cs claim = (if Claim_IsZero claim then [] else filter (\<lambda>p. pipeline_Claim p = claim) cs)"

definition contested :: "'w Pipeline list \<Rightarrow> 'w Pipeline \<Rightarrow> bool" where
  "contested cs p \<longleftrightarrow> length (claimants cs (pipeline_Claim p)) \<ge> 2"

definition collision :: "'w Pipeline list \<Rightarrow> 'w Pipeline \<Rightarrow> Rejection" where
  "collision cs p =
     \<lparr>rj_Path = pl_Path p,
      rj_Err = ClaimCollision (pipeline_Claim p)
        (filter (\<lambda>s. s \<noteq> pl_Path p) (sort (map pl_Path (claimants cs (pipeline_Claim p)))))\<rparr>"

text \<open>The source ranges over a map of claims; the order it visits them in is an argument.\<close>

definition resolveClaims :: "Claim list \<Rightarrow> 'w Pipeline list \<Rightarrow> 'w Pipeline list \<times> Rejection list" where
  "resolveClaims order cs =
     (filter (\<lambda>p. \<not> contested cs p) cs,
      concat (map (\<lambda>claim. if length (claimants cs claim) < 2 then []
                           else map (collision cs) (claimants cs claim)) order))"

definition claim_order :: "Claim list \<Rightarrow> 'w Pipeline list \<Rightarrow> bool" where
  "claim_order order cs \<longleftrightarrow>
     distinct order \<and> set order = {pipeline_Claim p | p. p \<in> set cs \<and> \<not> Claim_IsZero (pipeline_Claim p)}"

section \<open>Load\<close>

datatype 'w entry_result =
    Rejects Rejection
  | HasNoTrigger string
  | Candidate "'w Pipeline"

definition load_entry ::
  "type_table \<Rightarrow> ('c, 'w) Registries \<Rightarrow> (string \<Rightarrow> string) \<Rightarrow> (string \<Rightarrow> go_error + 'c File) \<Rightarrow> dir_entry \<Rightarrow>
   'w entry_result" where
  "load_entry tt reg path_of ParseFile e =
     (let path = path_of (de_Name e) in
      case ParseFile path of
        Inl err \<Rightarrow> Rejects \<lparr>rj_Path = path, rj_Err = ParseError err\<rparr>
      | Inr f \<Rightarrow>
          let name = TrimSuffix (de_Name e) (Ext (de_Name e)) in
          (case Compile tt f reg name of
             Inl problems \<Rightarrow> Rejects \<lparr>rj_Path = path, rj_Err = CompileProblems problems\<rparr>
           | Inr p \<Rightarrow>
               (case p_Trigger p of
                  None \<Rightarrow> HasNoTrigger path
                | Some _ \<Rightarrow> Candidate \<lparr>pl_Name = name, pl_Path = path, pl_Plan = p\<rparr>)))"

definition rejections :: "'w entry_result list \<Rightarrow> Rejection list" where
  "rejections rs = List.map_filter (\<lambda>r. case r of Rejects x \<Rightarrow> Some x | _ \<Rightarrow> None) rs"

definition untriggered :: "'w entry_result list \<Rightarrow> string list" where
  "untriggered rs = List.map_filter (\<lambda>r. case r of HasNoTrigger x \<Rightarrow> Some x | _ \<Rightarrow> None) rs"

definition candidates :: "'w entry_result list \<Rightarrow> 'w Pipeline list" where
  "candidates rs = List.map_filter (\<lambda>r. case r of Candidate x \<Rightarrow> Some x | _ \<Rightarrow> None) rs"

definition Load ::
  "type_table \<Rightarrow> ('c, 'w) Registries \<Rightarrow> (string \<Rightarrow> string) \<Rightarrow> (string \<Rightarrow> go_error + 'c File) \<Rightarrow> Claim list \<Rightarrow>
   go_error + dir_entry list \<Rightarrow> go_error + 'w Loaded" where
  "Load tt reg path_of ParseFile order entries =
     (case entries of
        Inl err \<Rightarrow> Inl (EWrap (Sprintf ''reading pipeline directory: %w'' []) err)
      | Inr es \<Rightarrow>
          let rs = map (load_entry tt reg path_of ParseFile) (filter is_pipeline_entry es);
              (served, collisions) = resolveClaims order (candidates rs)
          in Inr \<lparr>ld_Served = served,
                   ld_Rejected = sort_key rj_Path (rejections rs @ collisions),
                   ld_Untriggered = untriggered rs\<rparr>)"

section \<open>What is served, and that nothing is lost\<close>

text \<open>No two served pipelines claim the same thing.\<close>

lemma served_claims_distinct:
  "distinct (map pipeline_Claim (filter (\<lambda>p. \<not> Claim_IsZero (pipeline_Claim p)) (fst (resolveClaims order cs))))"
proof -
  let ?ok = "\<lambda>p. \<not> contested cs p \<and> \<not> Claim_IsZero (pipeline_Claim p)"
  have "distinct (map pipeline_Claim (filter ?ok ds))"
    if "\<And>x. length (filter (\<lambda>p. pipeline_Claim p = x) ds) \<le> length (filter (\<lambda>p. pipeline_Claim p = x) cs)" for ds
    using that
  proof (induction ds)
    case Nil
    then show ?case by simp
  next
    case (Cons a ds)
    have "pipeline_Claim a \<notin> pipeline_Claim ` set (filter ?ok ds)" if ok: "?ok a"
    proof
      assume "pipeline_Claim a \<in> pipeline_Claim ` set (filter ?ok ds)"
      then obtain b where "b \<in> set (filter (\<lambda>p. pipeline_Claim p = pipeline_Claim a) ds)" by auto
      then have "0 < length (filter (\<lambda>p. pipeline_Claim p = pipeline_Claim a) ds)" by (rule length_pos_if_in_set)
      then have "2 \<le> length (filter (\<lambda>p. pipeline_Claim p = pipeline_Claim a) cs)"
        using Cons.prems [of "pipeline_Claim a"] by (simp del: length_greater_0_conv)
      with ok show False by (auto simp: contested_def claimants_def)
    qed
    moreover have "length (filter (\<lambda>p. pipeline_Claim p = x) ds) \<le> length (filter (\<lambda>p. pipeline_Claim p = x) cs)" for x
      using Cons.prems [of x] by (auto split: if_splits)
    ultimately show ?case using Cons.IH by auto
  qed
  from this [of cs] show ?thesis by (simp add: resolveClaims_def conj_commute)
qed

lemma claimants_two:
  "length (claimants cs (pipeline_Claim p)) \<ge> 2 \<Longrightarrow> p \<in> set cs \<Longrightarrow> \<not> Claim_IsZero (pipeline_Claim p)"
  by (auto simp: claimants_def split: if_splits)

lemma contested_pair:
  assumes "p \<in> set cs" "q \<in> set cs" "pl_Path p \<noteq> pl_Path q" "pipeline_Claim p = pipeline_Claim q"
    "\<not> Claim_IsZero (pipeline_Claim p)"
  shows "contested cs p"
proof -
  let ?xs = "claimants cs (pipeline_Claim p)"
  have "p \<noteq> q" using assms(3) by blast
  then have "card {p, q} = 2" by simp
  moreover have "{p, q} \<subseteq> set ?xs" using assms by (auto simp: claimants_def)
  ultimately have "2 \<le> card (set ?xs)" by (metis List.finite_set card_mono)
  then show ?thesis unfolding contested_def using card_length [of ?xs] by linarith
qed

lemma set_collisions:
  assumes "claim_order order cs"
  shows "set (snd (resolveClaims order cs)) = collision cs ` {p \<in> set cs. contested cs p}"
proof -
  have mem: "p \<in> set (claimants cs x) \<longleftrightarrow> p \<in> set cs \<and> pipeline_Claim p = x \<and> \<not> Claim_IsZero x" for p x
    by (auto simp: claimants_def)
  show ?thesis
  proof (intro set_eqI iffI)
    fix r assume "r \<in> set (snd (resolveClaims order cs))"
    then obtain x p where "2 \<le> length (claimants cs x)" "p \<in> set (claimants cs x)" "r = collision cs p"
      by (auto simp: resolveClaims_def not_less split: if_splits)
    then show "r \<in> collision cs ` {p \<in> set cs. contested cs p}" by (auto simp: mem contested_def)
  next
    fix r assume "r \<in> collision cs ` {p \<in> set cs. contested cs p}"
    then obtain p where p: "p \<in> set cs" "2 \<le> length (claimants cs (pipeline_Claim p))" "r = collision cs p"
      by (auto simp: contested_def)
    then have "pipeline_Claim p \<in> set order" "p \<in> set (claimants cs (pipeline_Claim p))"
      using claimants_two [OF p(2,1)] assms by (auto simp: claim_order_def mem)
    with p show "r \<in> set (snd (resolveClaims order cs))" by (force simp: resolveClaims_def)
  qed
qed

lemma set_map_filter_case:
  "set (List.map_filter f xs) = {y. \<exists>x\<in>set xs. f x = Some y}"
  by (force simp: map_filter_def)

lemma entry_result_selectors:
  "(case r of Rejects x \<Rightarrow> Some x | _ \<Rightarrow> None) = Some y \<longleftrightarrow> r = Rejects y"
  "(case r of HasNoTrigger x \<Rightarrow> Some x | _ \<Rightarrow> None) = Some z \<longleftrightarrow> r = HasNoTrigger z"
  "(case r of Candidate x \<Rightarrow> Some x | _ \<Rightarrow> None) = Some c \<longleftrightarrow> r = Candidate c"
  by (cases r; simp)+

lemma load_results:
  "set (rejections rs) = {x. Rejects x \<in> set rs}" "set (untriggered rs) = {x. HasNoTrigger x \<in> set rs}"
  "set (candidates rs) = {x. Candidate x \<in> set rs}"
  by (simp_all add: rejections_def untriggered_def candidates_def set_map_filter_case entry_result_selectors)

lemma load_entry_Candidate:
  assumes "load_entry tt reg path_of ParseFile e = Candidate p"
  obtains f tb where "ParseFile (pl_Path p) = Inr f" "Compile tt f reg (pl_Name p) = Inr (pl_Plan p)"
    "p_Trigger (pl_Plan p) = Some tb" "pl_Path p = path_of (de_Name e)"
  using assms by (auto simp: load_entry_def Let_def split: sum.splits option.splits)

text \<open>The pipelines that compete for claims: the files that parse, compile and declare a trigger.\<close>

definition load_candidates ::
  "type_table \<Rightarrow> ('c, 'w) Registries \<Rightarrow> (string \<Rightarrow> string) \<Rightarrow> (string \<Rightarrow> go_error + 'c File) \<Rightarrow> dir_entry list \<Rightarrow>
   'w Pipeline list" where
  "load_candidates tt reg path_of ParseFile es =
     candidates (map (load_entry tt reg path_of ParseFile) (filter is_pipeline_entry es))"

lemma Load_Inr:
  assumes "Load tt reg path_of ParseFile order (Inr es) = Inr L"
  shows "ld_Served L = filter (\<lambda>p. \<not> contested (load_candidates tt reg path_of ParseFile es) p)
           (load_candidates tt reg path_of ParseFile es)"
    and "set (ld_Rejected L) =
           {r. \<exists>e\<in>set es. is_pipeline_entry e \<and> load_entry tt reg path_of ParseFile e = Rejects r} \<union>
           set (snd (resolveClaims order (load_candidates tt reg path_of ParseFile es)))"
    and "set (ld_Untriggered L) =
           {x. \<exists>e\<in>set es. is_pipeline_entry e \<and> load_entry tt reg path_of ParseFile e = HasNoTrigger x}"
proof -
  let ?rs = "map (load_entry tt reg path_of ParseFile) (filter is_pipeline_entry es)"
  have L: "L = \<lparr>ld_Served = fst (resolveClaims order (candidates ?rs)),
      ld_Rejected = sort_key rj_Path (rejections ?rs @ snd (resolveClaims order (candidates ?rs))),
      ld_Untriggered = untriggered ?rs\<rparr>"
    using assms by (simp add: Load_def Let_def split: prod.splits)
  show "ld_Served L = filter (\<lambda>p. \<not> contested (load_candidates tt reg path_of ParseFile es) p)
      (load_candidates tt reg path_of ParseFile es)"
    by (simp add: L resolveClaims_def load_candidates_def)
  show "set (ld_Rejected L) =
      {r. \<exists>e\<in>set es. is_pipeline_entry e \<and> load_entry tt reg path_of ParseFile e = Rejects r} \<union>
      set (snd (resolveClaims order (load_candidates tt reg path_of ParseFile es)))"
    by (auto simp: L load_results load_candidates_def) (metis imageI mem_Collect_eq)+
  show "set (ld_Untriggered L) =
      {x. \<exists>e\<in>set es. is_pipeline_entry e \<and> load_entry tt reg path_of ParseFile e = HasNoTrigger x}"
    by (auto simp: L load_results) (metis imageI mem_Collect_eq)+
qed

lemma set_load_candidates:
  "p \<in> set (load_candidates tt reg path_of ParseFile es) \<longleftrightarrow>
     (\<exists>e\<in>set es. is_pipeline_entry e \<and> load_entry tt reg path_of ParseFile e = Candidate p)"
  by (auto simp: load_candidates_def load_results image_iff)

lemma load_entry_path:
  "load_entry tt reg path_of ParseFile e = Candidate p \<Longrightarrow> pl_Path p = path_of (de_Name e)"
  "load_entry tt reg path_of ParseFile e = Rejects r \<Longrightarrow> rj_Path r = path_of (de_Name e)"
  "load_entry tt reg path_of ParseFile e = HasNoTrigger x \<Longrightarrow> x = path_of (de_Name e)"
  by (auto simp: load_entry_def Let_def split: sum.splits option.splits)

text \<open>Every file that looks like a pipeline is served, rejected or reported as untriggered.\<close>

lemma Load_accounts:
  assumes L: "Load tt reg path_of ParseFile order (Inr es) = Inr L"
    and order: "claim_order order (load_candidates tt reg path_of ParseFile es)"
    and e: "e \<in> set es" "is_pipeline_entry e"
  shows "path_of (de_Name e) \<in> pl_Path ` set (ld_Served L) \<union> rj_Path ` set (ld_Rejected L) \<union> set (ld_Untriggered L)"
proof (cases "load_entry tt reg path_of ParseFile e")
  case (Rejects r)
  then show ?thesis using e load_entry_path(2) [OF Rejects] by (force simp: Load_Inr(2) [OF L])
next
  case (HasNoTrigger x)
  then show ?thesis using e load_entry_path(3) [OF HasNoTrigger] by (force simp: Load_Inr(3) [OF L])
next
  case (Candidate p)
  let ?cs = "load_candidates tt reg path_of ParseFile es"
  have p: "p \<in> set ?cs" using Candidate e by (auto simp: set_load_candidates)
  show ?thesis
  proof (cases "contested ?cs p")
    case True
    then have "collision ?cs p \<in> set (ld_Rejected L)"
      using p by (auto simp: Load_Inr(2) [OF L] set_collisions [OF order])
    moreover have "rj_Path (collision ?cs p) = path_of (de_Name e)"
      using load_entry_path(1) [OF Candidate] by (simp add: collision_def)
    ultimately show ?thesis by (metis UnI1 UnI2 imageI)
  next
    case False
    then have "p \<in> set (ld_Served L)" using p by (simp add: Load_Inr(1) [OF L])
    then show ?thesis using load_entry_path(1) [OF Candidate] by (metis UnI1 imageI)
  qed
qed

text \<open>A served file is not also rejected or untriggered, since entries have different paths.\<close>

lemma Load_served_once:
  assumes L: "Load tt reg path_of ParseFile order (Inr es) = Inr L"
    and order: "claim_order order (load_candidates tt reg path_of ParseFile es)"
    and paths: "inj_on (path_of \<circ> de_Name) (set es)"
    and p: "p \<in> set (ld_Served L)"
  shows "pl_Path p \<notin> rj_Path ` set (ld_Rejected L)" "pl_Path p \<notin> set (ld_Untriggered L)"
proof -
  let ?cs = "load_candidates tt reg path_of ParseFile es"
  from p have pc: "p \<in> set ?cs" "\<not> contested ?cs p" by (auto simp: Load_Inr(1) [OF L])
  from pc(1) obtain e where e: "e \<in> set es" "load_entry tt reg path_of ParseFile e = Candidate p"
    by (auto simp: set_load_candidates)
  have same: "e' = e" if "e' \<in> set es" "path_of (de_Name e') = pl_Path p" for e'
    using that e paths load_entry_path(1) [OF e(2)] by (auto simp: inj_on_def)
  show "pl_Path p \<notin> set (ld_Untriggered L)"
    using same e by (fastforce simp: Load_Inr(3) [OF L] dest: load_entry_path(3))
  show "pl_Path p \<notin> rj_Path ` set (ld_Rejected L)"
  proof
    assume "pl_Path p \<in> rj_Path ` set (ld_Rejected L)"
    then obtain r where r: "r \<in> set (ld_Rejected L)" "rj_Path r = pl_Path p" by auto
    from r(1) consider (entry) e' where "e' \<in> set es" "load_entry tt reg path_of ParseFile e' = Rejects r"
      | (claim) q where "q \<in> set ?cs" "contested ?cs q" "r = collision ?cs q"
      by (auto simp: Load_Inr(2) [OF L] set_collisions [OF order])
    then show False
    proof cases
      case entry
      then show False using same [of e'] e(2) r(2) load_entry_path(2) [OF entry(2)] by simp
    next
      case claim
      from claim(1) obtain e' where e': "e' \<in> set es" "load_entry tt reg path_of ParseFile e' = Candidate q"
        by (auto simp: set_load_candidates)
      moreover have "path_of (de_Name e') = pl_Path p"
        using load_entry_path(1) [OF e'(2)] claim(3) r(2) by (simp add: collision_def)
      ultimately have "q = p" using same [of e'] e(2) by simp
      then show False using claim(2) pc(2) by simp
    qed
  qed
qed

text \<open>What is served compiled from its own file and declares a trigger.\<close>

lemma Load_served:
  assumes L: "Load tt reg path_of ParseFile order (Inr es) = Inr L" and p: "p \<in> set (ld_Served L)"
  obtains f tb where "ParseFile (pl_Path p) = Inr f" "Compile tt f reg (pl_Name p) = Inr (pl_Plan p)"
    "p_Trigger (pl_Plan p) = Some tb"
proof -
  from p obtain e where "load_entry tt reg path_of ParseFile e = Candidate p"
    by (auto simp: Load_Inr(1) [OF L] set_load_candidates)
  then show thesis by (rule load_entry_Candidate) (rule that)
qed

lemma Load_claims_distinct:
  assumes "Load tt reg path_of ParseFile order (Inr es) = Inr L"
  shows "distinct (map pipeline_Claim (filter (\<lambda>p. \<not> Claim_IsZero (pipeline_Claim p)) (ld_Served L)))"
  using served_claims_distinct [of order "load_candidates tt reg path_of ParseFile es"]
  by (simp add: Load_Inr(1) [OF assms] resolveClaims_def)

end
