(* ===== verification/Daemon.thy ===== *)
theory Daemon
  imports Load
begin

text \<open>
  The daemon's construction (\<open>New\<close> of \<^verbatim>\<open>internal/daemon/daemon.go\<close>), and the admission,
  execution and bookkeeping of runs under concurrent events (\<^verbatim>\<open>internal/daemon/run.go\<close>,
  \<open>drainRuns\<close>).

  Every call of the callback \<open>fire\<close> is a thread with a program counter, and one step of a
  thread is one atomic operation of the source: an atomic load, add or compare-and-swap, or
  taking the read lock. What \<open>runtime.Run\<close> returned is part of the event. The write lock of
  \<open>drainRuns\<close> is available when no thread holds the read lock. The atomic counters are
  integers: they count runs, and wrap only after \<open>2 ^ 63\<close> of them.
\<close>

section \<open>Construction\<close>

definition DefaultAddr :: string where "DefaultAddr = '':8080''"
definition DefaultAdminAddr :: string where "DefaultAdminAddr = ''127.0.0.1:8081''"
definition daemon_DefaultMaxConcurrency :: int where "daemon_DefaultMaxConcurrency = 256"
definition DefaultDrainTimeout :: duration where "DefaultDrainTimeout = 30000000000"
definition DefaultReadTimeout :: duration where "DefaultReadTimeout = 30000000000"
definition DefaultIdleTimeout :: duration where "DefaultIdleTimeout = 120000000000"
definition DefaultMaxRunsPerPipeline :: int where "DefaultMaxRunsPerPipeline = 64"
definition AdminDisabled :: string where "AdminDisabled = ''-''"

record DaemonOptions =
  do_Addr :: string
  do_AdminAddr :: string
  do_MaxConcurrency :: int
  do_DrainTimeout :: duration
  do_AbandonAfter :: duration
  do_MaxRunsPerPipeline :: int
  do_ReadTimeout :: duration
  do_IdleTimeout :: duration
  do_WriteTimeout :: duration

text \<open>The fields of \<open>Daemon\<close> that never change; a pipeline is named by its position.\<close>

record 'w Daemon =
  dm_pipelines :: "'w Pipeline list"
  dm_slots_cap :: int
  dm_addr :: string
  dm_adminAddr :: string
  dm_drain :: duration
  dm_abandon :: duration
  dm_maxRuns :: int
  dm_readTimeout :: duration
  dm_idleTimeout :: duration
  dm_writeTimeout :: duration
  dm_routes :: "nat gomap"

definition orDefault :: "duration \<Rightarrow> duration \<Rightarrow> duration" where
  "orDefault d fallback = (if sint d \<le> 0 then fallback else d)"

definition routes_of :: "'w Pipeline list \<Rightarrow> nat gomap" where
  "routes_of served =
     fold (\<lambda>(i, p) rs. if tr_HTTPDriven (pipeline_Trigger p) \<noteq> None then put (cl_Key (pipeline_Claim p)) i rs else rs)
       (enumerate 0 served) []"

definition maxRuns_of :: "int \<Rightarrow> int" where
  "maxRuns_of m = (if m < 0 then 0 else if m = 0 then DefaultMaxRunsPerPipeline else m)"

definition New :: "'w Pipeline list \<Rightarrow> DaemonOptions \<Rightarrow> 'w Daemon" where
  "New served opts =
     \<lparr>dm_pipelines = served,
      dm_slots_cap = (if do_MaxConcurrency opts \<le> 0 then daemon_DefaultMaxConcurrency else do_MaxConcurrency opts),
      dm_addr = (if do_Addr opts = '''' then DefaultAddr else do_Addr opts),
      dm_adminAddr = (if do_AdminAddr opts = '''' then DefaultAdminAddr else do_AdminAddr opts),
      dm_drain = (if sint (do_DrainTimeout opts) \<le> 0 then DefaultDrainTimeout else do_DrainTimeout opts),
      dm_abandon = do_AbandonAfter opts,
      dm_maxRuns = maxRuns_of (do_MaxRunsPerPipeline opts),
      dm_readTimeout = orDefault (do_ReadTimeout opts) DefaultReadTimeout,
      dm_idleTimeout = orDefault (do_IdleTimeout opts) DefaultIdleTimeout,
      dm_writeTimeout = do_WriteTimeout opts,
      dm_routes = routes_of served\<rparr>"

section \<open>Mutable state\<close>

definition codeOverlapped :: string where "codeOverlapped = ''overlapped''"
definition codeQuarantined :: string where "codeQuarantined = ''quarantined''"
definition codeDraining :: string where "codeDraining = ''draining''"
definition codeAtCapacity :: string where "codeAtCapacity = ''at_capacity''"
definition QuarantineAfter :: int where "QuarantineAfter = 3"

record pstate =
  ps_inflight :: int
  ps_consecutiveAbandoned :: int
  ps_abandonedRuns :: int
  ps_quarantined :: bool
  ps_runs :: int
  ps_failures :: int

text \<open>
  The program counter of one call of \<open>fire\<close>, named after the operation it does next. From
  \<open>F_Claim\<close> to \<open>F_Unlock\<close> it holds the read lock.
\<close>

datatype 'w fire_pc =
    F_Entry
  | F_Lock
  | F_Claim
  | F_Swap int
  | F_Register
  | F_Count
  | F_Unlock "node_error option"
  | F_Start
  | F_Running
  | F_Abandoned "'w Execution"
  | F_Streak "'w Execution"
  | F_Quarantine "'w Execution" int
  | F_Reset "'w Execution"
  | F_Failures "'w Execution"
  | F_Release Outcome
  | F_Uncount Outcome
  | F_Done Outcome
  | F_Refused node_error
  | F_Returned Outcome

record 'w daemon_state =
  ds_draining :: bool
  ds_wg :: int
  ds_inflight :: int
  ds_pipes :: "pstate list"
  ds_fires :: "(nat \<times> 'w fire_pc) list"
  ds_finished :: bool

definition new_pstate :: pstate where
  "new_pstate = \<lparr>ps_inflight = 0, ps_consecutiveAbandoned = 0, ps_abandonedRuns = 0, ps_quarantined = False,
                 ps_runs = 0, ps_failures = 0\<rparr>"

definition daemon_start :: "'w Daemon \<Rightarrow> 'w daemon_state" where
  "daemon_start d = \<lparr>ds_draining = False, ds_wg = 0, ds_inflight = 0,
                     ds_pipes = map (\<lambda>_. new_pstate) (dm_pipelines d), ds_fires = [], ds_finished = False\<rparr>"

section \<open>Admission, execution, release\<close>

definition binding_of :: "'w Pipeline \<Rightarrow> TriggerBinding" where
  "binding_of p = the (p_Trigger (pl_Plan p))"

definition drops :: "'w Pipeline \<Rightarrow> bool" where
  "drops p \<longleftrightarrow> tb_Overlap (binding_of p) = OverlapDrop"

definition refuse_quarantined :: "'w Pipeline \<Rightarrow> node_error" where
  "refuse_quarantined p = Errf KindPermanent codeQuarantined
     ''pipeline %q is quarantined after %d consecutive runs left a step running'' [AStr (pl_Name p), AInt QuarantineAfter]"

definition refuse_draining :: node_error where
  "refuse_draining = Errf KindTransient codeDraining ''the daemon is shutting down'' []"

definition refuse_busy :: "int \<Rightarrow> 'w Pipeline \<Rightarrow> node_error" where
  "refuse_busy maxRuns p =
     (if drops p
      then Errf KindTransient codeOverlapped ''a run of %q is already in progress and its policy is %s''
             [AStr (pl_Name p), AStr OverlapDrop]
      else Errf KindTransient codeAtCapacity ''pipeline %q already has %d runs in progress, which is its ceiling''
             [AStr (pl_Name p), AInt maxRuns])"

text \<open>\<open>claimSlot\<close>, one atomic operation at a time: the next program counter, and the counter.\<close>

definition claimSlot :: "'w Pipeline \<Rightarrow> int \<Rightarrow> 'w fire_pc \<Rightarrow> pstate \<Rightarrow> 'w fire_pc \<times> pstate" where
  "claimSlot p cap pc s =
     (case pc of
        F_Swap running \<Rightarrow>
          if ps_inflight s = running then (F_Register, s\<lparr>ps_inflight := running + 1\<rparr>) else (F_Claim, s)
      | _ \<Rightarrow>
          if drops p
          then (if ps_inflight s = 0 then (F_Register, s\<lparr>ps_inflight := 1\<rparr>)
                else (F_Unlock (Some (refuse_busy cap p)), s))
          else let running = ps_inflight s in
               if cap > 0 \<and> running \<ge> cap then (F_Unlock (Some (refuse_busy cap p)), s)
               else (F_Swap running, s))"

definition outcomeOf :: "'w Execution \<Rightarrow> int \<Rightarrow> Outcome" where
  "outcomeOf ex respondStep =
     (if Execution_Failed ex then \<lparr>oc_Err = Execution_Err ex, oc_Value = zero_value\<rparr>
      else if respondStep < 0 then \<lparr>oc_Err = None, oc_Value = zero_value\<rparr>
      else \<lparr>oc_Err = None, oc_Value = sr_Value (ex_Steps ex ! nat respondStep)\<rparr>)"

text \<open>\<open>record\<close>, after the run returned; \<open>after_streak\<close> is its second half.\<close>

definition after_streak :: "Outcome \<Rightarrow> 'w Execution \<Rightarrow> 'w fire_pc" where
  "after_streak out ex = (if Execution_Failed ex then F_Failures ex else F_Release out)"

definition record_step :: "Outcome \<Rightarrow> 'w fire_pc \<Rightarrow> pstate \<Rightarrow> 'w fire_pc \<times> pstate" where
  "record_step out pc s =
     (case pc of
        F_Abandoned ex \<Rightarrow> (F_Streak ex, s\<lparr>ps_abandonedRuns := ps_abandonedRuns s + 1\<rparr>)
      | F_Streak ex \<Rightarrow>
          let streak = ps_consecutiveAbandoned s + 1 in
          (if streak \<ge> QuarantineAfter then F_Quarantine ex streak else after_streak out ex,
           s\<lparr>ps_consecutiveAbandoned := streak\<rparr>)
      | F_Quarantine ex streak \<Rightarrow> (after_streak out ex, s\<lparr>ps_quarantined := True\<rparr>)
      | F_Reset ex \<Rightarrow> (after_streak out ex, s\<lparr>ps_consecutiveAbandoned := 0\<rparr>)
      | F_Failures ex \<Rightarrow> (F_Release out, s\<lparr>ps_failures := ps_failures s + 1\<rparr>)
      | _ \<Rightarrow> (pc, s))"

definition record_start :: "'w Execution \<Rightarrow> 'w fire_pc" where
  "record_start ex = (if ex_Abandoned ex > 0 then F_Abandoned ex else F_Reset ex)"

text \<open>
  One step of \<open>admit\<close>, under the read lock from \<open>F_Claim\<close> to \<open>F_Unlock\<close>: the new program
  counter, the pipeline's state, and the change of the daemon's \<open>wg\<close> and \<open>inflight\<close>.
\<close>

definition admit_step ::
  "'w Pipeline \<Rightarrow> int \<Rightarrow> bool \<Rightarrow> 'w fire_pc \<Rightarrow> pstate \<Rightarrow> ('w fire_pc \<times> pstate \<times> int \<times> int) option" where
  "admit_step p maxRuns draining pc s =
     (case pc of
        F_Entry \<Rightarrow> Some (if ps_quarantined s then F_Refused (refuse_quarantined p) else F_Lock, s, 0, 0)
      | F_Lock \<Rightarrow> Some (if draining then F_Unlock (Some refuse_draining) else F_Claim, s, 0, 0)
      | F_Claim \<Rightarrow> (case claimSlot p maxRuns pc s of (pc', s') \<Rightarrow> Some (pc', s', 0, 0))
      | F_Swap _ \<Rightarrow> (case claimSlot p maxRuns pc s of (pc', s') \<Rightarrow> Some (pc', s', 0, 0))
      | F_Register \<Rightarrow> Some (F_Count, s, 1, 0)
      | F_Count \<Rightarrow> Some (F_Unlock None, s, 0, 1)
      | F_Unlock (Some refusal) \<Rightarrow> Some (F_Refused refusal, s, 0, 0)
      | F_Unlock None \<Rightarrow> Some (F_Start, s, 0, 0)
      | _ \<Rightarrow> None)"

text \<open>One step of one call; \<open>ex\<close> is what \<open>Run\<close> returned, used by \<open>F_Running\<close>.\<close>

definition fire_step ::
  "'w Pipeline \<Rightarrow> int \<Rightarrow> bool \<Rightarrow> 'w Execution \<Rightarrow> 'w fire_pc \<Rightarrow> pstate \<Rightarrow>
   ('w fire_pc \<times> pstate \<times> int \<times> int) option" where
  "fire_step p maxRuns draining ex pc s =
     (let respond = tb_RespondStep (binding_of p) in
      case pc of
        F_Entry \<Rightarrow> admit_step p maxRuns draining pc s
      | F_Lock \<Rightarrow> admit_step p maxRuns draining pc s
      | F_Claim \<Rightarrow> admit_step p maxRuns draining pc s
      | F_Swap _ \<Rightarrow> admit_step p maxRuns draining pc s
      | F_Register \<Rightarrow> admit_step p maxRuns draining pc s
      | F_Count \<Rightarrow> admit_step p maxRuns draining pc s
      | F_Unlock _ \<Rightarrow> admit_step p maxRuns draining pc s
      | F_Start \<Rightarrow> Some (F_Running, s\<lparr>ps_runs := ps_runs s + 1\<rparr>, 0, 0)
      | F_Running \<Rightarrow> Some (record_start ex, s, 0, 0)
      | F_Abandoned ex \<Rightarrow> (case record_step (outcomeOf ex respond) pc s of (pc', s') \<Rightarrow> Some (pc', s', 0, 0))
      | F_Streak ex \<Rightarrow> (case record_step (outcomeOf ex respond) pc s of (pc', s') \<Rightarrow> Some (pc', s', 0, 0))
      | F_Quarantine ex _ \<Rightarrow> (case record_step (outcomeOf ex respond) pc s of (pc', s') \<Rightarrow> Some (pc', s', 0, 0))
      | F_Reset ex \<Rightarrow> (case record_step (outcomeOf ex respond) pc s of (pc', s') \<Rightarrow> Some (pc', s', 0, 0))
      | F_Failures ex \<Rightarrow> (case record_step (outcomeOf ex respond) pc s of (pc', s') \<Rightarrow> Some (pc', s', 0, 0))
      | F_Release out \<Rightarrow> Some (F_Uncount out, s\<lparr>ps_inflight := ps_inflight s - 1\<rparr>, 0, 0)
      | F_Uncount out \<Rightarrow> Some (F_Done out, s, 0, -1)
      | F_Done out \<Rightarrow> Some (F_Returned out, s, -1, 0)
      | F_Refused _ \<Rightarrow> None
      | F_Returned _ \<Rightarrow> None)"

fun locked :: "'w fire_pc \<Rightarrow> bool" where
  "locked F_Claim = True"
| "locked (F_Swap _) = True"
| "locked F_Register = True"
| "locked F_Count = True"
| "locked (F_Unlock _) = True"
| "locked _ = False"

section \<open>Events\<close>

datatype 'w daemon_event =
    Fires nat
  | Advances nat "'w Execution"
  | SetsDraining
  | WaitReturns

definition daemon_step :: "'w Daemon \<Rightarrow> 'w daemon_event \<Rightarrow> 'w daemon_state \<Rightarrow> 'w daemon_state option" where
  "daemon_step d e s =
     (case e of
        Fires i \<Rightarrow>
          if i < length (dm_pipelines d) then Some (s\<lparr>ds_fires := ds_fires s @ [(i, F_Entry)]\<rparr>) else None
      | Advances t ex \<Rightarrow>
          if t < length (ds_fires s)
          then (case ds_fires s ! t of (i, pc) \<Rightarrow>
                 (case fire_step (dm_pipelines d ! i) (dm_maxRuns d) (ds_draining s) ex pc (ds_pipes s ! i) of
                    None \<Rightarrow> None
                  | Some (pc', p', dw, di) \<Rightarrow>
                      Some (s\<lparr>ds_fires := (ds_fires s)[t := (i, pc')], ds_pipes := (ds_pipes s)[i := p'],
                              ds_wg := ds_wg s + dw, ds_inflight := ds_inflight s + di\<rparr>)))
          else None
      | SetsDraining \<Rightarrow>
          if list_ex (\<lambda>(i, pc). locked pc) (ds_fires s) then None else Some (s\<lparr>ds_draining := True\<rparr>)
      | WaitReturns \<Rightarrow>
          if ds_draining s \<and> ds_wg s = 0 then Some (s\<lparr>ds_finished := True\<rparr>) else None)"

section \<open>Counting the calls\<close>

text \<open>
  \<open>slotted\<close>: between the successful compare-and-swap and the release of the pipeline's
  counter. \<open>enrolled\<close>: between \<open>wg.Add\<close> and \<open>wg.Done\<close>. \<open>counted_run\<close>: between the two
  updates of the daemon's counter. \<open>admitting\<close>: holds the read lock and saw no draining.
\<close>

fun enrolled :: "'w fire_pc \<Rightarrow> bool" where
  "enrolled F_Entry = False"
| "enrolled F_Lock = False"
| "enrolled F_Claim = False"
| "enrolled (F_Swap _) = False"
| "enrolled F_Register = False"
| "enrolled (F_Unlock (Some _)) = False"
| "enrolled (F_Refused _) = False"
| "enrolled (F_Returned _) = False"
| "enrolled _ = True"

fun slotted :: "'w fire_pc \<Rightarrow> bool" where
  "slotted F_Register = True"
| "slotted (F_Uncount _) = False"
| "slotted (F_Done _) = False"
| "slotted pc = enrolled pc"

fun counted_run :: "'w fire_pc \<Rightarrow> bool" where
  "counted_run F_Count = False"
| "counted_run (F_Done _) = False"
| "counted_run pc = enrolled pc"

fun admitting :: "'w fire_pc \<Rightarrow> bool" where
  "admitting (F_Unlock (Some _)) = False"
| "admitting pc = locked pc"

fun begun :: "'w fire_pc \<Rightarrow> bool" where
  "begun F_Count = False"
| "begun (F_Unlock _) = False"
| "begun F_Start = False"
| "begun (F_Returned _) = True"
| "begun pc = enrolled pc"

fun in_streak :: "'w fire_pc \<Rightarrow> bool" where
  "in_streak (F_Streak _) = True"
| "in_streak _ = False"

fun may_abandon :: "'w fire_pc \<Rightarrow> bool" where
  "may_abandon F_Running = True"
| "may_abandon (F_Abandoned _) = True"
| "may_abandon _ = False"

fun may_fail :: "'w fire_pc \<Rightarrow> bool" where
  "may_fail F_Running = True"
| "may_fail (F_Abandoned _) = True"
| "may_fail (F_Streak _) = True"
| "may_fail (F_Quarantine _ _) = True"
| "may_fail (F_Reset _) = True"
| "may_fail (F_Failures _) = True"
| "may_fail _ = False"

text \<open>How many calls, of the pipelines in \<open>I\<close>, are where \<open>P\<close> holds.\<close>

definition calls :: "(nat \<Rightarrow> bool) \<Rightarrow> ('w fire_pc \<Rightarrow> bool) \<Rightarrow> (nat \<times> 'w fire_pc) list \<Rightarrow> int" where
  "calls I P fires = int (length (filter (\<lambda>(i, pc). I i \<and> P pc) fires))"

lemma calls_update:
  assumes "t < length fires" "fires ! t = (i, pc)"
  shows "calls I P (fires[t := (i, pc')]) = calls I P fires + (if I i then of_bool (P pc') - of_bool (P pc) else 0)"
  using length_filter_update [OF assms(1), of "\<lambda>(i, pc). I i \<and> P pc" "(i, pc')"] assms(2)
  by (auto simp: calls_def split: if_splits)

lemma calls_append [simp]:
  "calls I P (fires @ [(i, pc)]) = calls I P fires + (if I i \<and> P pc then 1 else 0)"
  by (simp add: calls_def)

lemma calls_nonneg [simp]: "0 \<le> calls I P fires"
  by (simp add: calls_def)

lemma calls_pos:
  assumes "t < length fires" "fires ! t = (i, pc)" "I i" "P pc"
  shows "1 \<le> calls I P fires"
proof -
  have "(i, pc) \<in> set (filter (\<lambda>(i, pc). I i \<and> P pc) fires)" using assms nth_mem [of t fires] by auto
  then have "0 < length (filter (\<lambda>(i, pc). I i \<and> P pc) fires)" by (rule length_pos_if_in_set)
  then show ?thesis by (simp add: calls_def del: length_greater_0_conv)
qed

lemma calls_zero_iff: "calls I P fires = 0 \<longleftrightarrow> (\<forall>(i, pc)\<in>set fires. I i \<longrightarrow> \<not> P pc)"
  by (auto simp: calls_def filter_empty_conv)

lemmas fire_step_defs = fire_step_def admit_step_def claimSlot_def record_step_def record_start_def after_streak_def Let_def

text \<open>What one step does to the counters, in terms of the program counters it moves between.\<close>

lemma fire_step_counts:
  assumes "fire_step p m dr ex pc s = Some (pc', s', dw, di)"
  shows "ps_inflight s' = ps_inflight s + of_bool (slotted pc') - of_bool (slotted pc)"
    and "dw = of_bool (enrolled pc') - of_bool (enrolled pc)"
    and "di = of_bool (counted_run pc') - of_bool (counted_run pc)"
    and "ps_runs s' = ps_runs s + of_bool (begun pc') - of_bool (begun pc)"
  by (use assms in \<open>auto simp: fire_step_defs split: fire_pc.splits option.splits if_splits\<close>)

text \<open>What one step keeps of the counters that only grow.\<close>

lemma fire_step_monotone:
  assumes "fire_step p m dr ex pc s = Some (pc', s', dw, di)"
  shows "ps_abandonedRuns s \<le> ps_abandonedRuns s'" "ps_quarantined s \<longrightarrow> ps_quarantined s'"
    and "ps_runs s \<le> ps_runs s'" "ps_failures s \<le> ps_failures s'"
  by (use assms in \<open>auto simp: fire_step_defs split: fire_pc.splits option.splits if_splits\<close>)

lemma fire_step_streaks:
  assumes "fire_step p m dr ex pc s = Some (pc', s', dw, di)" "0 \<le> ps_consecutiveAbandoned s"
    "ps_consecutiveAbandoned s + k + of_bool (in_streak pc) \<le> ps_abandonedRuns s" "0 \<le> k"
    "\<And>x n. pc = F_Quarantine x n \<Longrightarrow> 3 \<le> n \<and> n \<le> ps_abandonedRuns s"
    "ps_quarantined s \<longrightarrow> 3 \<le> ps_abandonedRuns s"
  shows "0 \<le> ps_consecutiveAbandoned s'"
    and "ps_consecutiveAbandoned s' + k + of_bool (in_streak pc') \<le> ps_abandonedRuns s'"
    and "\<And>x n. pc' = F_Quarantine x n \<Longrightarrow> 3 \<le> n \<and> n \<le> ps_abandonedRuns s'"
    and "ps_quarantined s' \<longrightarrow> 3 \<le> ps_abandonedRuns s'"
  by (use assms in \<open>auto simp: fire_step_defs QuarantineAfter_def split: fire_pc.splits option.splits if_splits\<close>)

lemma fire_step_reports:
  assumes "fire_step p m dr ex pc s = Some (pc', s', dw, di)"
  shows "ps_abandonedRuns s' + of_bool (may_abandon pc') + (ps_runs s - ps_runs s')
           \<le> ps_abandonedRuns s + of_bool (may_abandon pc)"
    and "ps_failures s' + of_bool (may_fail pc') + (ps_runs s - ps_runs s')
           \<le> ps_failures s + of_bool (may_fail pc)"
  by (use assms in \<open>auto simp: fire_step_defs split: fire_pc.splits option.splits if_splits\<close>)

section \<open>The invariant of the daemon\<close>

definition room :: "'w Daemon \<Rightarrow> nat \<Rightarrow> int \<Rightarrow> bool" where
  "room d i n \<longleftrightarrow>
     (if drops (dm_pipelines d ! i) then n \<le> 1 else dm_maxRuns d > 0 \<longrightarrow> n \<le> dm_maxRuns d)"

definition fires_ok :: "'w Daemon \<Rightarrow> 'w daemon_state \<Rightarrow> bool" where
  "fires_ok d s \<longleftrightarrow>
     length (ds_pipes s) = length (dm_pipelines d) \<and>
     (\<forall>(i, pc)\<in>set (ds_fires s). i < length (dm_pipelines d) \<and>
        (\<forall>r. pc = F_Swap r \<longrightarrow> \<not> drops (dm_pipelines d ! i) \<and> room d i (r + 1)) \<and>
        (ds_draining s \<longrightarrow> \<not> admitting pc))"

definition counts_ok :: "'w Daemon \<Rightarrow> 'w daemon_state \<Rightarrow> bool" where
  "counts_ok d s \<longleftrightarrow>
     ds_wg s = calls (\<lambda>_. True) enrolled (ds_fires s) \<and>
     ds_inflight s = calls (\<lambda>_. True) counted_run (ds_fires s) \<and>
     (\<forall>i<length (dm_pipelines d).
        ps_inflight (ds_pipes s ! i) = calls ((=) i) slotted (ds_fires s) \<and> room d i (calls ((=) i) slotted (ds_fires s)) \<and>
        ps_runs (ds_pipes s ! i) = calls ((=) i) begun (ds_fires s))"

definition reports_ok :: "'w Daemon \<Rightarrow> 'w daemon_state \<Rightarrow> bool" where
  "reports_ok d s \<longleftrightarrow>
     (\<forall>i<length (dm_pipelines d). let p = ds_pipes s ! i in
        ps_abandonedRuns p + calls ((=) i) may_abandon (ds_fires s) \<le> ps_runs p \<and>
        ps_failures p + calls ((=) i) may_fail (ds_fires s) \<le> ps_runs p)"

definition streaks_ok :: "'w Daemon \<Rightarrow> 'w daemon_state \<Rightarrow> bool" where
  "streaks_ok d s \<longleftrightarrow>
     (\<forall>i<length (dm_pipelines d). let p = ds_pipes s ! i in
        0 \<le> ps_consecutiveAbandoned p \<and>
        ps_consecutiveAbandoned p + calls ((=) i) in_streak (ds_fires s) \<le> ps_abandonedRuns p \<and>
        (ps_quarantined p \<longrightarrow> 3 \<le> ps_abandonedRuns p)) \<and>
     (\<forall>(i, pc)\<in>set (ds_fires s). \<forall>x n. pc = F_Quarantine x n \<longrightarrow> 3 \<le> n \<and> n \<le> ps_abandonedRuns (ds_pipes s ! i))"

definition daemon_inv :: "'w Daemon \<Rightarrow> 'w daemon_state \<Rightarrow> bool" where
  "daemon_inv d s \<longleftrightarrow>
     fires_ok d s \<and> counts_ok d s \<and> reports_ok d s \<and> streaks_ok d s \<and>
     (ds_finished s \<longrightarrow> ds_draining s \<and> ds_wg s = 0)"

lemma daemon_start_inv: "daemon_inv d (daemon_start d)"
  by (auto simp: daemon_inv_def fires_ok_def counts_ok_def reports_ok_def streaks_ok_def daemon_start_def
      new_pstate_def room_def calls_def)

text \<open>The shape of an advance, which the preservation lemmas below share.\<close>

definition advance ::
  "nat \<Rightarrow> nat \<Rightarrow> 'w fire_pc \<Rightarrow> pstate \<Rightarrow> int \<Rightarrow> int \<Rightarrow> 'w daemon_state \<Rightarrow> 'w daemon_state" where
  "advance t i pc' p' dw di s =
     s\<lparr>ds_fires := (ds_fires s)[t := (i, pc')], ds_pipes := (ds_pipes s)[i := p'],
       ds_wg := ds_wg s + dw, ds_inflight := ds_inflight s + di\<rparr>"

lemma advance_simps [simp]:
  "ds_fires (advance t i pc' p' dw di s) = (ds_fires s)[t := (i, pc')]"
  "ds_pipes (advance t i pc' p' dw di s) = (ds_pipes s)[i := p']"
  "ds_wg (advance t i pc' p' dw di s) = ds_wg s + dw"
  "ds_inflight (advance t i pc' p' dw di s) = ds_inflight s + di"
  "ds_draining (advance t i pc' p' dw di s) = ds_draining s"
  "ds_finished (advance t i pc' p' dw di s) = ds_finished s"
  by (simp_all add: advance_def)

definition advances ::
  "'w Daemon \<Rightarrow> nat \<Rightarrow> nat \<Rightarrow> 'w fire_pc \<Rightarrow> 'w Execution \<Rightarrow> 'w fire_pc \<Rightarrow> pstate \<Rightarrow> int \<Rightarrow> int \<Rightarrow> 'w daemon_state \<Rightarrow> bool" where
  "advances d t i pc ex pc' p' dw di s \<longleftrightarrow>
     t < length (ds_fires s) \<and> ds_fires s ! t = (i, pc) \<and>
     fire_step (dm_pipelines d ! i) (dm_maxRuns d) (ds_draining s) ex pc (ds_pipes s ! i) = Some (pc', p', dw, di)"

lemma daemon_step_cases:
  assumes "daemon_step d e s = Some s'"
  obtains (fires) i where "e = Fires i" "i < length (dm_pipelines d)" "s' = s\<lparr>ds_fires := ds_fires s @ [(i, F_Entry)]\<rparr>"
  | (advances) t ex i pc pc' p' dw di where "e = Advances t ex" "advances d t i pc ex pc' p' dw di s"
      "s' = advance t i pc' p' dw di s"
  | (draining) "e = SetsDraining" "\<forall>(i, pc)\<in>set (ds_fires s). \<not> locked pc" "s' = s\<lparr>ds_draining := True\<rparr>"
  | (finished) "e = WaitReturns" "ds_draining s" "ds_wg s = 0" "s' = s\<lparr>ds_finished := True\<rparr>"
proof (cases e)
  case (Fires i)
  with assms show ?thesis by (intro fires) (auto simp: daemon_step_def split: if_splits)
next
  case (Advances t ex)
  obtain i pc where ipc: "ds_fires s ! t = (i, pc)" by (cases "ds_fires s ! t")
  obtain pc' p' dw di where "t < length (ds_fires s)" "s' = advance t i pc' p' dw di s"
    "fire_step (dm_pipelines d ! i) (dm_maxRuns d) (ds_draining s) ex pc (ds_pipes s ! i) = Some (pc', p', dw, di)"
    using assms Advances ipc by (auto simp: daemon_step_def advance_def split: if_splits option.splits)
  with Advances ipc show ?thesis by (intro advances) (auto simp: advances_def)
next
  case SetsDraining
  with assms show ?thesis by (intro draining) (auto simp: daemon_step_def list_ex_iff split: if_splits)
next
  case WaitReturns
  with assms show ?thesis by (intro finished) (auto simp: daemon_step_def split: if_splits)
qed

lemma set_update_elem: "x \<in> set (xs[t := y]) \<Longrightarrow> x = y \<or> x \<in> set xs"
  using set_update_subset_insert [of xs t y] by auto

lemma advances_fires_ok:
  assumes ok: "fires_ok d s" and a: "advances d t i pc ex pc' p' dw di s"
  shows "fires_ok d (advance t i pc' p' dw di s)"
proof -
  have mem: "(i, pc) \<in> set (ds_fires s)" using a nth_mem [of t "ds_fires s"] by (simp add: advances_def)
  have step: "fire_step (dm_pipelines d ! i) (dm_maxRuns d) (ds_draining s) ex pc (ds_pipes s ! i) = Some (pc', p', dw, di)"
    using a by (simp add: advances_def)
  have "ds_draining s \<longrightarrow> \<not> admitting pc" using ok mem by (auto simp: fires_ok_def)
  then have "ds_draining s \<longrightarrow> \<not> admitting pc'"
    using step by (auto simp: fire_step_defs split: fire_pc.splits option.splits if_splits)
  moreover have "\<not> drops (dm_pipelines d ! i) \<and> room d i (r + 1)" if "pc' = F_Swap r" for r
    using step that by (auto simp: fire_step_defs room_def split: fire_pc.splits option.splits if_splits)
  ultimately show ?thesis
    using ok mem by (auto simp: fires_ok_def dest!: set_update_elem)
qed

lemma advances_room:
  assumes "fires_ok d s" "advances d t i pc ex pc' p' dw di s" "room d i (ps_inflight (ds_pipes s ! i))"
  shows "room d i (ps_inflight p')"
proof -
  have mem: "(i, pc) \<in> set (ds_fires s)" using assms(2) nth_mem [of t "ds_fires s"] by (simp add: advances_def)
  then have "\<And>r. pc = F_Swap r \<Longrightarrow> \<not> drops (dm_pipelines d ! i) \<and> room d i (r + 1)"
    using assms(1) by (auto simp: fires_ok_def)
  then show ?thesis
    using assms(2,3)
    by (auto simp: advances_def fire_step_defs room_def split: fire_pc.splits option.splits if_splits)
qed

lemma advances_counts_ok:
  assumes ok: "fires_ok d s" "counts_ok d s" and a: "advances d t i pc ex pc' p' dw di s"
  shows "counts_ok d (advance t i pc' p' dw di s)"
proof -
  have t: "t < length (ds_fires s)" "ds_fires s ! t = (i, pc)"
    and step: "fire_step (dm_pipelines d ! i) (dm_maxRuns d) (ds_draining s) ex pc (ds_pipes s ! i) = Some (pc', p', dw, di)"
    using a by (simp_all add: advances_def)
  have i: "i < length (dm_pipelines d)" "i < length (ds_pipes s)"
    using ok(1) t nth_mem [OF t(1)] by (auto simp: fires_ok_def)
  have "room d i (ps_inflight p')" using ok i by (intro advances_room [OF ok(1) a]) (simp add: counts_ok_def)
  then show ?thesis
    using ok(2) i fire_step_counts [OF step]
    by (auto simp: counts_ok_def calls_update [OF t] nth_list_update)
qed

lemma advances_reports_ok:
  assumes ok: "fires_ok d s" "reports_ok d s" and a: "advances d t i pc ex pc' p' dw di s"
  shows "reports_ok d (advance t i pc' p' dw di s)"
proof -
  have t: "t < length (ds_fires s)" "ds_fires s ! t = (i, pc)"
    and step: "fire_step (dm_pipelines d ! i) (dm_maxRuns d) (ds_draining s) ex pc (ds_pipes s ! i) = Some (pc', p', dw, di)"
    using a by (simp_all add: advances_def)
  have i: "i < length (dm_pipelines d)" "i < length (ds_pipes s)"
    using ok(1) t nth_mem [OF t(1)] by (auto simp: fires_ok_def)
  have "ps_abandonedRuns (ds_pipes s ! i) + calls ((=) i) may_abandon (ds_fires s) \<le> ps_runs (ds_pipes s ! i)"
    "ps_failures (ds_pipes s ! i) + calls ((=) i) may_fail (ds_fires s) \<le> ps_runs (ds_pipes s ! i)"
    using ok(2) i by (simp_all add: reports_ok_def Let_def)
  then show ?thesis
    using ok(2) i fire_step_reports [OF step]
    by (auto simp: reports_ok_def Let_def calls_update [OF t] nth_list_update)
qed

lemma advances_streaks_ok:
  assumes ok: "fires_ok d s" "streaks_ok d s" and a: "advances d t i pc ex pc' p' dw di s"
  shows "streaks_ok d (advance t i pc' p' dw di s)"
proof -
  have t: "t < length (ds_fires s)" "ds_fires s ! t = (i, pc)"
    and step: "fire_step (dm_pipelines d ! i) (dm_maxRuns d) (ds_draining s) ex pc (ds_pipes s ! i) = Some (pc', p', dw, di)"
    using a by (simp_all add: advances_def)
  have mem: "(i, pc) \<in> set (ds_fires s)" using nth_mem [OF t(1)] t(2) by simp
  have i: "i < length (dm_pipelines d)" "i < length (ds_pipes s)" using ok(1) mem by (auto simp: fires_ok_def)
  let ?k = "calls ((=) i) in_streak (ds_fires s) - of_bool (in_streak pc)"
  have "0 \<le> ?k" using calls_pos [OF t, of "(=) i" in_streak] by (cases "in_streak pc") auto
  moreover have "\<And>x n. pc = F_Quarantine x n \<Longrightarrow> 3 \<le> n \<and> n \<le> ps_abandonedRuns (ds_pipes s ! i)"
    using ok(2) mem by (auto simp: streaks_ok_def)
  moreover have "0 \<le> ps_consecutiveAbandoned (ds_pipes s ! i)"
    "ps_consecutiveAbandoned (ds_pipes s ! i) + ?k + of_bool (in_streak pc) \<le> ps_abandonedRuns (ds_pipes s ! i)"
    "ps_quarantined (ds_pipes s ! i) \<longrightarrow> 3 \<le> ps_abandonedRuns (ds_pipes s ! i)"
    using ok(2) i by (simp_all add: streaks_ok_def Let_def)
  ultimately have new: "0 \<le> ps_consecutiveAbandoned p'"
    "ps_consecutiveAbandoned p' + ?k + of_bool (in_streak pc') \<le> ps_abandonedRuns p'"
    "\<And>x n. pc' = F_Quarantine x n \<Longrightarrow> 3 \<le> n \<and> n \<le> ps_abandonedRuns p'"
    "ps_quarantined p' \<longrightarrow> 3 \<le> ps_abandonedRuns p'"
    using fire_step_streaks [OF step, of ?k] by blast+
  have others: "3 \<le> n \<and> n \<le> ps_abandonedRuns ((ds_pipes s)[i := p'] ! j)"
    if "(j, F_Quarantine x n) \<in> set (ds_fires s)" for j x n
  proof -
    have "3 \<le> n \<and> n \<le> ps_abandonedRuns (ds_pipes s ! j)" using ok(2) that by (auto simp: streaks_ok_def)
    then show ?thesis using fire_step_monotone(1) [OF step] i by (auto simp: nth_list_update)
  qed
  show ?thesis unfolding streaks_ok_def
  proof (intro conjI)
    show "\<forall>j<length (dm_pipelines d). let p = ds_pipes (advance t i pc' p' dw di s) ! j in
        0 \<le> ps_consecutiveAbandoned p \<and>
        ps_consecutiveAbandoned p + calls ((=) j) in_streak (ds_fires (advance t i pc' p' dw di s)) \<le> ps_abandonedRuns p \<and>
        (ps_quarantined p \<longrightarrow> 3 \<le> ps_abandonedRuns p)"
      using ok(2) i new by (simp add: streaks_ok_def Let_def calls_update [OF t] nth_list_update)
    show "\<forall>(j, pc)\<in>set (ds_fires (advance t i pc' p' dw di s)). \<forall>x n. pc = F_Quarantine x n \<longrightarrow>
        3 \<le> n \<and> n \<le> ps_abandonedRuns (ds_pipes (advance t i pc' p' dw di s) ! j)"
      using others new(3) i by (auto dest!: set_update_elem)
  qed
qed

text \<open>Once the wait has returned nothing registers again.\<close>

lemma advances_finished:
  assumes "fires_ok d s" "counts_ok d s" "advances d t i pc ex pc' p' dw di s" "ds_draining s" "ds_wg s = 0"
  shows "dw = 0"
proof -
  have t: "t < length (ds_fires s)" "ds_fires s ! t = (i, pc)"
    and step: "fire_step (dm_pipelines d ! i) (dm_maxRuns d) (ds_draining s) ex pc (ds_pipes s ! i) = Some (pc', p', dw, di)"
    using assms(3) by (simp_all add: advances_def)
  have mem: "(i, pc) \<in> set (ds_fires s)" using nth_mem [OF t(1)] t(2) by simp
  then have "\<not> admitting pc" using assms(1,4) by (auto simp: fires_ok_def)
  moreover have "\<not> enrolled pc"
    using assms(2,5) mem by (auto simp: counts_ok_def calls_zero_iff)
  ultimately show ?thesis
    using step by (auto simp: fire_step_defs split: fire_pc.splits option.splits if_splits)
qed

lemma daemon_step_inv:
  assumes inv: "daemon_inv d s" and step: "daemon_step d e s = Some s'"
  shows "daemon_inv d s'"
  using step
proof (cases rule: daemon_step_cases)
  case (fires i)
  with inv show ?thesis
    by (auto simp: daemon_inv_def fires_ok_def counts_ok_def reports_ok_def streaks_ok_def)
next
  case (advances t ex i pc pc' p' dw di)
  have ok: "fires_ok d s" "counts_ok d s" "reports_ok d s" "streaks_ok d s"
    "ds_finished s \<longrightarrow> ds_draining s \<and> ds_wg s = 0"
    using inv by (simp_all add: daemon_inv_def)
  then show ?thesis
    using advances(3) advances_fires_ok [OF ok(1) advances(2)] advances_counts_ok [OF ok(1,2) advances(2)]
      advances_reports_ok [OF ok(1,3) advances(2)] advances_streaks_ok [OF ok(1,4) advances(2)]
      advances_finished [OF ok(1,2) advances(2)]
    by (auto simp: daemon_inv_def)
next
  case draining
  have "\<not> admitting pc" if "\<not> locked pc" for pc :: "'a fire_pc"
    using that by (cases pc rule: admitting.cases) auto
  with draining inv show ?thesis
    by (fastforce simp: daemon_inv_def fires_ok_def counts_ok_def reports_ok_def streaks_ok_def)
next
  case finished
  with inv show ?thesis
    by (auto simp: daemon_inv_def fires_ok_def counts_ok_def reports_ok_def streaks_ok_def)
qed

definition starts_daemon :: "'w Daemon \<Rightarrow> 'w daemon_state \<Rightarrow> bool" where
  "starts_daemon d s \<longleftrightarrow> s = daemon_start d"

interpretation daemons: transition_system "starts_daemon d" "daemon_step d" "daemon_inv d" for d :: "'w Daemon"
proof unfold_locales
  fix s :: "'w daemon_state" and e s'
  show "starts_daemon d s \<Longrightarrow> daemon_inv d s" by (simp add: starts_daemon_def daemon_start_inv)
  show "daemon_inv d s \<Longrightarrow> daemon_step d e s = Some s' \<Longrightarrow> daemon_inv d s'" by (rule daemon_step_inv)
qed

end
