(* ===== verification/Gate.thy ===== *)
theory Gate
  imports Daemon
begin

text \<open>
  What the daemon's admission promises, as an abstract specification, and that the
  interleaved program of the theory \<open>Daemon\<close> implements it. The specification is a gate: per
  pipeline a number of runs and a quarantine flag, and one draining flag. Admitting, refusing
  and finishing are single events with explicit guards. Then draining: it is final, it ends,
  and what it leaves behind.
\<close>

section \<open>The abstract gate\<close>

record gate =
  ga_running :: "int list"
  ga_quarantined :: "bool list"
  ga_draining :: bool

datatype gate_event =
    Admit nat
  | Refuse nat node_error
  | Finish nat
  | Drain
  | Quarantine nat
  | Internal

definition refusable :: "'w Daemon \<Rightarrow> nat \<Rightarrow> node_error \<Rightarrow> gate \<Rightarrow> bool" where
  "refusable d i e g \<longleftrightarrow>
     e = refuse_quarantined (dm_pipelines d ! i) \<and> ga_quarantined g ! i \<or>
     e = refuse_draining \<and> ga_draining g \<or>
     e = refuse_busy (dm_maxRuns d) (dm_pipelines d ! i) \<and> \<not> room d i (ga_running g ! i + 1)"

definition gate_step :: "'w Daemon \<Rightarrow> gate_event \<Rightarrow> gate \<Rightarrow> gate option" where
  "gate_step d ev g =
     (case ev of
        Admit i \<Rightarrow>
          if i < length (dm_pipelines d) \<and> \<not> ga_draining g \<and> room d i (ga_running g ! i + 1)
          then Some (g\<lparr>ga_running := (ga_running g)[i := ga_running g ! i + 1]\<rparr>) else None
      | Refuse i e \<Rightarrow> if i < length (dm_pipelines d) \<and> refusable d i e g then Some g else None
      | Finish i \<Rightarrow>
          if i < length (dm_pipelines d) \<and> ga_running g ! i > 0
          then Some (g\<lparr>ga_running := (ga_running g)[i := ga_running g ! i - 1]\<rparr>) else None
      | Drain \<Rightarrow> Some (g\<lparr>ga_draining := True\<rparr>)
      | Quarantine i \<Rightarrow> Some (g\<lparr>ga_quarantined := (ga_quarantined g)[i := True]\<rparr>)
      | Internal \<Rightarrow> Some g)"

definition gate_of :: "'w daemon_state \<Rightarrow> gate" where
  "gate_of s = \<lparr>ga_running = map ps_inflight (ds_pipes s), ga_quarantined = map ps_quarantined (ds_pipes s),
                ga_draining = ds_draining s\<rparr>"

text \<open>
  The event of the gate a step of a call is: its linearization point. A refusal is decided
  where the program counter first carries it.
\<close>

fun refusal_of :: "'w fire_pc \<Rightarrow> node_error option" where
  "refusal_of (F_Unlock r) = r"
| "refusal_of (F_Refused e) = Some e"
| "refusal_of _ = None"

definition call_event :: "nat \<Rightarrow> 'w fire_pc \<Rightarrow> 'w fire_pc \<Rightarrow> gate_event" where
  "call_event i pc pc' =
     (if \<not> slotted pc \<and> slotted pc' then Admit i
      else if slotted pc \<and> \<not> slotted pc' then Finish i
      else case (refusal_of pc, refusal_of pc') of
             (None, Some e) \<Rightarrow> Refuse i e
           | _ \<Rightarrow> (case pc of F_Quarantine _ _ \<Rightarrow> Quarantine i | _ \<Rightarrow> Internal))"

definition gate_event_of :: "'w daemon_state \<Rightarrow> 'w daemon_event \<Rightarrow> 'w daemon_state \<Rightarrow> gate_event" where
  "gate_event_of s e s' =
     (case e of
        Fires i \<Rightarrow> Internal
      | Advances t _ \<Rightarrow> call_event (fst (ds_fires s ! t)) (snd (ds_fires s ! t)) (snd (ds_fires s' ! t))
      | SetsDraining \<Rightarrow> Drain
      | WaitReturns \<Rightarrow> Internal)"

section \<open>Refinement\<close>

text \<open>
  One step of one call against the gate. \<open>dr\<close> is the draining flag, and the hypotheses are
  what the invariant says of the call.
\<close>

lemma fire_step_gate:
  assumes step: "fire_step (dm_pipelines d ! i) (dm_maxRuns d) dr ex pc p = Some (pc', p', dw, di)"
    and i: "i < length ps" "ps ! i = p" "i < length (dm_pipelines d)"
    and swap: "\<And>r. pc = F_Swap r \<Longrightarrow> \<not> drops (dm_pipelines d ! i) \<and> room d i (r + 1)"
    and drained: "dr \<Longrightarrow> \<not> admitting pc" and busy: "slotted pc \<Longrightarrow> 0 < ps_inflight p" "0 \<le> ps_inflight p"
  shows "gate_step d (call_event i pc pc')
           \<lparr>ga_running = map ps_inflight ps, ga_quarantined = map ps_quarantined ps, ga_draining = dr\<rparr> =
         Some \<lparr>ga_running = map ps_inflight (ps[i := p']), ga_quarantined = map ps_quarantined (ps[i := p']),
               ga_draining = dr\<rparr>"
proof -
  note here = step [unfolded fire_step_defs]
  show ?thesis
  proof (cases pc)
    case F_Entry
    with here i show ?thesis
      by (auto simp: gate_step_def call_event_def refusable_def split: if_splits)
  next
    case F_Claim
    with here i drained busy(2) show ?thesis
      by (auto simp: gate_step_def call_event_def refusable_def room_def map_update split: if_splits)
  next
    case (F_Swap r)
    with here i drained swap [OF F_Swap] show ?thesis
      by (auto simp: gate_step_def call_event_def room_def map_update split: if_splits)
  next
    case (F_Unlock r)
    with here i show ?thesis by (auto simp: gate_step_def call_event_def split: option.splits)
  qed (use here i busy in \<open>auto simp: gate_step_def call_event_def refusable_def map_update split: if_splits\<close>)
qed

lemma daemon_refines_gate:
  assumes inv: "daemon_inv d s" and step: "daemon_step d e s = Some s'"
  shows "gate_step d (gate_event_of s e s') (gate_of s) = Some (gate_of s')"
  using step
proof (cases rule: daemon_step_cases)
  case (fires i)
  then show ?thesis by (simp add: gate_event_of_def gate_step_def gate_of_def)
next
  case (advances t ex i pc pc' p' dw di)
  have t: "t < length (ds_fires s)" "ds_fires s ! t = (i, pc)"
    and fire: "fire_step (dm_pipelines d ! i) (dm_maxRuns d) (ds_draining s) ex pc (ds_pipes s ! i) = Some (pc', p', dw, di)"
    using advances(2) by (simp_all add: advances_def)
  have mem: "(i, pc) \<in> set (ds_fires s)" using nth_mem [OF t(1)] t(2) by simp
  have i: "i < length (ds_pipes s)" "i < length (dm_pipelines d)"
    using inv mem by (auto simp: daemon_inv_def fires_ok_def)
  have swap: "\<And>r. pc = F_Swap r \<Longrightarrow> \<not> drops (dm_pipelines d ! i) \<and> room d i (r + 1)"
    and drained: "ds_draining s \<Longrightarrow> \<not> admitting pc"
    using inv mem by (auto simp: daemon_inv_def fires_ok_def)
  have "ps_inflight (ds_pipes s ! i) = calls ((=) i) slotted (ds_fires s)"
    using inv i by (simp add: daemon_inv_def counts_ok_def)
  then have "slotted pc \<Longrightarrow> 0 < ps_inflight (ds_pipes s ! i)" "0 \<le> ps_inflight (ds_pipes s ! i)"
    using calls_pos [OF t, of "(=) i" slotted] by auto
  from fire_step_gate [OF fire i(1) refl i(2) swap drained this]
  show ?thesis using advances t by (simp add: gate_event_of_def gate_of_def)
next
  case draining
  then show ?thesis by (simp add: gate_event_of_def gate_step_def gate_of_def)
next
  case finished
  then show ?thesis by (simp add: gate_event_of_def gate_step_def gate_of_def)
qed

section \<open>Quarantine and draining are final\<close>

text \<open>
  After a quarantine every later call ends at its first step; after the drain began every
  later call is refused, for draining or for an earlier quarantine.
\<close>

definition late_ok :: "(nat \<Rightarrow> 'w fire_pc \<Rightarrow> bool) \<Rightarrow> nat \<Rightarrow> 'w daemon_state \<Rightarrow> bool" where
  "late_ok P n s \<longleftrightarrow> (\<forall>t<length (ds_fires s). n \<le> t \<longrightarrow> P (fst (ds_fires s ! t)) (snd (ds_fires s ! t)))"

lemma late_ok_fires:
  "late_ok P n s \<Longrightarrow> P i F_Entry \<Longrightarrow> late_ok P n (s\<lparr>ds_fires := ds_fires s @ [(i, F_Entry)]\<rparr>)"
  by (auto simp: late_ok_def nth_append less_Suc_eq)

lemma late_ok_advances:
  assumes "late_ok P n s" "advances d t i pc ex pc' p' dw di s" "P i pc \<Longrightarrow> P i pc'"
  shows "late_ok P n (advance t i pc' p' dw di s)"
  using assms by (auto simp: late_ok_def advances_def nth_list_update)

definition turned_away :: "'w Daemon \<Rightarrow> nat \<Rightarrow> nat \<Rightarrow> 'w fire_pc \<Rightarrow> bool" where
  "turned_away d i j pc \<longleftrightarrow> (j = i \<longrightarrow> pc = F_Entry \<or> pc = F_Refused (refuse_quarantined (dm_pipelines d ! i)))"

definition quarantined_for :: "'w Daemon \<Rightarrow> nat \<Rightarrow> nat \<Rightarrow> 'w daemon_state \<Rightarrow> bool" where
  "quarantined_for d i n s \<longleftrightarrow>
     i < length (ds_pipes s) \<and> ps_quarantined (ds_pipes s ! i) \<and> late_ok (turned_away d i) n s"

lemma quarantined_for_step:
  assumes q: "quarantined_for d i n s" and step: "daemon_step d e s = Some s'"
  shows "quarantined_for d i n s'"
  using step
proof (cases rule: daemon_step_cases)
  case (fires j)
  then show ?thesis using q late_ok_fires [of "turned_away d i" n s j] by (simp add: quarantined_for_def turned_away_def)
next
  case (advances t ex j pc pc' p' dw di)
  have fire: "fire_step (dm_pipelines d ! j) (dm_maxRuns d) (ds_draining s) ex pc (ds_pipes s ! j) = Some (pc', p', dw, di)"
    using advances(2) by (simp add: advances_def)
  have "turned_away d i j pc'" if "turned_away d i j pc"
    using that fire q by (auto simp: turned_away_def quarantined_for_def fire_step_defs)
  then have "late_ok (turned_away d i) n s'"
    using q advances late_ok_advances [of "turned_away d i"] by (auto simp: quarantined_for_def)
  then show ?thesis
    using q advances fire_step_monotone(2) [OF fire] by (cases "i = j") (auto simp: quarantined_for_def)
qed (use q in \<open>auto simp: quarantined_for_def late_ok_def\<close>)

definition shut_out :: "'w Daemon \<Rightarrow> nat \<Rightarrow> 'w fire_pc \<Rightarrow> bool" where
  "shut_out d i pc \<longleftrightarrow>
     pc \<in> {F_Entry, F_Lock, F_Unlock (Some refuse_draining), F_Refused refuse_draining,
           F_Refused (refuse_quarantined (dm_pipelines d ! i))}"

definition draining_for :: "'w Daemon \<Rightarrow> nat \<Rightarrow> 'w daemon_state \<Rightarrow> bool" where
  "draining_for d n s \<longleftrightarrow> ds_draining s \<and> late_ok (shut_out d) n s"

lemma draining_for_step:
  assumes q: "draining_for d n s" and step: "daemon_step d e s = Some s'"
  shows "draining_for d n s'"
  using step
proof (cases rule: daemon_step_cases)
  case (fires j)
  then show ?thesis using q late_ok_fires [of "shut_out d" n s j] by (simp add: draining_for_def shut_out_def)
next
  case (advances t ex j pc pc' p' dw di)
  have "fire_step (dm_pipelines d ! j) (dm_maxRuns d) True ex pc (ds_pipes s ! j) = Some (pc', p', dw, di)"
    using advances(2) q by (simp add: advances_def draining_for_def)
  then have "shut_out d j pc'" if "shut_out d j pc"
    using that by (auto simp: shut_out_def fire_step_defs split: if_splits)
  then show ?thesis
    using q advances late_ok_advances [of "shut_out d"] by (auto simp: draining_for_def)
qed (use q in \<open>auto simp: draining_for_def late_ok_def\<close>)

interpretation after_quarantine: transition_system "quarantined_for d i n" "daemon_step d" "quarantined_for d i n"
  for d :: "'w Daemon" and i n :: nat
  by unfold_locales (auto intro: quarantined_for_step)

interpretation after_draining: transition_system "draining_for d n" "daemon_step d" "draining_for d n"
  for d :: "'w Daemon" and n :: nat
  by unfold_locales (auto intro: draining_for_step)

lemma late_ok_now: "late_ok P (length (ds_fires s)) s"
  by (simp add: late_ok_def)

section \<open>The drain ends\<close>

text \<open>
  Once the listeners have stopped nothing fires any more. Every call then makes at most nine
  further steps, whatever the interleaving, given that its run returns.
\<close>

fun steps_left :: "'w fire_pc \<Rightarrow> nat" where
  "steps_left F_Start = 9"
| "steps_left F_Running = 8"
| "steps_left (F_Abandoned _) = 7"
| "steps_left (F_Streak _) = 6"
| "steps_left (F_Quarantine _ _) = 5"
| "steps_left (F_Reset _) = 5"
| "steps_left (F_Failures _) = 4"
| "steps_left (F_Release _) = 3"
| "steps_left (F_Uncount _) = 2"
| "steps_left (F_Done _) = 1"
| "steps_left F_Entry = 3"
| "steps_left F_Lock = 2"
| "steps_left (F_Unlock _) = 1"
| "steps_left _ = 0"

definition drain_rank :: "'w daemon_state \<Rightarrow> nat" where
  "drain_rank s = sum_list (map (steps_left \<circ> snd) (ds_fires s))"

definition drain_step :: "'w Daemon \<Rightarrow> 'w daemon_event \<Rightarrow> 'w daemon_state \<Rightarrow> 'w daemon_state option" where
  "drain_step d e s = (case e of Fires _ \<Rightarrow> None | _ \<Rightarrow> daemon_step d e s)"

fun is_advance :: "'w daemon_event \<Rightarrow> bool" where
  "is_advance (Advances _ _) = True"
| "is_advance _ = False"

definition drains :: "'w Daemon \<Rightarrow> 'w daemon_state \<Rightarrow> bool" where
  "drains d s \<longleftrightarrow> daemon_inv d s \<and> ds_draining s"

lemma fire_step_steps_left:
  assumes "fire_step p m True ex pc s = Some (pc', s', dw, di)" "\<not> admitting pc"
  shows "steps_left pc' < steps_left pc"
  using assms by (auto simp: fire_step_defs split: fire_pc.splits option.splits if_splits)

lemma sum_list_map_update:
  "t < length xs \<Longrightarrow> sum_list (map f (xs[t := y])) + f (xs ! t) = sum_list (map f xs) + (f y :: nat)"
  by (induction xs arbitrary: t) (auto simp: nth_Cons' less_Suc_eq_0_disj)

lemma drain_rank_step:
  assumes inv: "drains d s" and step: "drain_step d e s = Some s'"
  shows "drain_rank s' + (if is_advance e then 1 else 0) \<le> drain_rank s"
proof -
  have "daemon_step d e s = Some s'" using step by (auto simp: drain_step_def split: daemon_event.splits)
  then show ?thesis
  proof (cases rule: daemon_step_cases)
    case (fires i)
    with step show ?thesis by (simp add: drain_step_def)
  next
    case (advances t ex i pc pc' p' dw di)
    have t: "t < length (ds_fires s)" "ds_fires s ! t = (i, pc)"
      and fire: "fire_step (dm_pipelines d ! i) (dm_maxRuns d) True ex pc (ds_pipes s ! i) = Some (pc', p', dw, di)"
      using advances(2) inv by (simp_all add: advances_def drains_def)
    have "\<not> admitting pc"
      using inv t nth_mem [OF t(1)] by (auto simp: drains_def daemon_inv_def fires_ok_def)
    from fire_step_steps_left [OF fire this]
    show ?thesis
      using sum_list_map_update [OF t(1), of "steps_left \<circ> snd" "(i, pc')"] t(2) advances(1,3)
      by (simp add: drain_rank_def)
  qed (auto simp: drain_rank_def)
qed

lemma drain_step_drains: "drains d s \<Longrightarrow> drain_step d e s = Some s' \<Longrightarrow> drains d s'"
proof -
  assume a: "drains d s" "drain_step d e s = Some s'"
  then have "daemon_step d e s = Some s'" by (auto simp: drain_step_def split: daemon_event.splits)
  moreover from this have "ds_draining s'" using a(1) by (cases rule: daemon_step_cases) (auto simp: drains_def)
  ultimately show ?thesis using a(1) daemon_step_inv by (auto simp: drains_def)
qed

interpretation drains: terminating_system "drains d" "drain_step d" "drains d" drain_rank is_advance for d :: "'w Daemon"
  by unfold_locales (simp, erule (1) drain_step_drains, erule (1) drain_rank_step)

text \<open>While a run is registered some call can move; when none is, the wait returns.\<close>

lemma fire_step_enabled: "enrolled pc \<Longrightarrow> \<exists>r. fire_step p m dr ex pc s = Some r"
  by (cases pc rule: enrolled.cases) (auto simp: fire_step_defs split: if_splits)

lemma drain_progress:
  assumes "drains d s"
  shows "ds_wg s = 0 \<and> drain_step d WaitReturns s \<noteq> None \<or>
         (\<exists>t. drain_step d (Advances t ex) s \<noteq> None)"
proof (cases "ds_wg s = 0")
  case True
  then show ?thesis using assms by (simp add: drain_step_def daemon_step_def drains_def)
next
  case False
  then obtain i pc where "(i, pc) \<in> set (ds_fires s)" "enrolled pc"
    using assms by (auto simp: drains_def daemon_inv_def counts_ok_def calls_zero_iff)
  then obtain t where t: "t < length (ds_fires s)" "ds_fires s ! t = (i, pc)" "enrolled pc"
    by (auto simp: in_set_conv_nth)
  obtain r where "fire_step (dm_pipelines d ! i) (dm_maxRuns d) (ds_draining s) ex pc (ds_pipes s ! i) = Some r"
    using fire_step_enabled [OF t(3)] by blast
  then have "drain_step d (Advances t ex) s \<noteq> None"
    using t by (cases r) (auto simp: drain_step_def daemon_step_def)
  then show ?thesis by blast
qed

text \<open>Where a call is once the wait has returned: not yet admitted, turned away, or returned.\<close>

fun quiet :: "'w fire_pc \<Rightarrow> bool" where
  "quiet F_Entry = True"
| "quiet F_Lock = True"
| "quiet (F_Unlock r) = (r \<noteq> None)"
| "quiet (F_Refused _) = True"
| "quiet (F_Returned _) = True"
| "quiet _ = False"

lemma quiet_iff: "quiet pc \<longleftrightarrow> \<not> enrolled pc \<and> \<not> admitting pc"
  by (cases pc rule: enrolled.cases) auto

lemma finished_quiet:
  assumes "daemon_inv d s" "ds_finished s" "(i, pc) \<in> set (ds_fires s)"
  shows "quiet pc"
  using assms by (auto simp: quiet_iff daemon_inv_def fires_ok_def counts_ok_def calls_zero_iff)

end
