(* ===== verification/Serve.thy ===== *)
theory Serve
  imports Gate
begin

text \<open>
  The HTTP surface of the daemon: answering a webhook request (\<^verbatim>\<open>internal/daemon/serve.go\<close>),
  the route table built by \<open>New\<close>, and the admin endpoints (\<^verbatim>\<open>internal/daemon/admin.go\<close>).

  A reply is a status and a body; a message is kept as its format and arguments, as everywhere
  else. \<open>fire\<close> is an argument of \<open>handle\<close>: the callback whose behaviour under concurrency
  is the theory \<open>Daemon\<close>. The text of the metrics is in \<open>Admin\<close>.
\<close>

section \<open>Replies\<close>

datatype reply_body = NoBody | ErrorText message | BodyBytes bytes

record reply =
  rp_Status :: nat
  rp_Body :: reply_body

definition statusFor :: "node_error option \<Rightarrow> nat" where
  "statusFor err =
     (case err of
        None \<Rightarrow> 200
      | Some e \<Rightarrow>
          if err_Code e = CodeUnauthorized then 401
          else if err_Code e = codeOverlapped \<or> err_Code e = codeAtCapacity then 429
          else if err_Code e = codeQuarantined \<or> err_Code e = codeDraining then 503
          else if err_Kind e = KindCancelled then 504
          else if err_Kind e = KindInvalidInput then 400
          else 500)"

definition http_Error :: "message \<Rightarrow> nat \<Rightarrow> reply" where
  "http_Error m status = \<lparr>rp_Status = status, rp_Body = ErrorText m\<rparr>"

definition internal_error :: reply where
  "internal_error = http_Error (Sprintf ''internal error'' []) 500"

text \<open>The reply to an event \<open>Values\<close> turned down: an error that is no \<open>*node.Error\<close> is a plain 400.\<close>

definition reject_reply :: "go_error \<Rightarrow> reply" where
  "reject_reply err =
     (case errors_AsNode err of
        Some nerr \<Rightarrow> http_Error (err_Message nerr) (statusFor (Some nerr))
      | None \<Rightarrow> http_Error (Sprintf ''%s'' [AErr err]) 400)"

definition respond_reply :: "HTTPDriven \<Rightarrow> Outcome \<Rightarrow> reply" where
  "respond_reply driven out =
     (case oc_Err out of
        Some e \<Rightarrow> http_Error (err_Message e) (statusFor (Some e))
      | None \<Rightarrow>
          if IsZero (oc_Value out) then \<lparr>rp_Status = 200, rp_Body = NoBody\<rparr>
          else (case ht_Respond driven (oc_Value out) of
                  Returns (Inr b) \<Rightarrow> \<lparr>rp_Status = 200, rp_Body = BodyBytes b\<rparr>
                | Returns (Inl err) \<Rightarrow> \<lparr>rp_Status = 200, rp_Body = NoBody\<rparr>
                | Panics _ \<Rightarrow> internal_error))"

definition handle_request ::
  "HTTPDriven \<Rightarrow> (string \<Rightarrow> string) \<Rightarrow> (Value gomap \<Rightarrow> Outcome call) \<Rightarrow> HTTPRequest \<Rightarrow> reply" where
  "handle_request driven getenv fire r =
     (case ht_Values driven getenv r of
        Inl err \<Rightarrow> reject_reply (ENode err)
      | Inr values \<Rightarrow>
          (case fire values of
             Panics _ \<Rightarrow> internal_error
           | Returns out \<Rightarrow> respond_reply driven out))"

section \<open>Routes\<close>

definition openRoutes :: "'w Daemon \<Rightarrow> string list" where
  "openRoutes d =
     sort (map fst (filter (\<lambda>(key, i). tr_Authenticating (pipeline_Trigger (dm_pipelines d ! i)) \<noteq> Some True) (dm_routes d)))"

section \<open>Readiness and metrics\<close>

definition quarantined_count :: "'w daemon_state \<Rightarrow> nat" where
  "quarantined_count s = length (filter ps_quarantined (ds_pipes s))"

text \<open>\<open>None\<close> is ready; otherwise the reason.\<close>

definition readiness :: "'w Daemon \<Rightarrow> 'w daemon_state \<Rightarrow> message option" where
  "readiness d s =
     (if ds_draining s then Some (Sprintf ''draining'' [])
      else if length (dm_pipelines d) > 0 \<and> quarantined_count s = length (dm_pipelines d)
      then Some (Sprintf ''all %d pipeline(s) quarantined'' [AInt (int (quarantined_count s))])
      else None)"

definition healthz :: reply where
  "healthz = \<lparr>rp_Status = 200, rp_Body = BodyBytes (''ok'' @ [CHR 0x0A])\<rparr>"

definition readyz :: "'w Daemon \<Rightarrow> 'w daemon_state \<Rightarrow> reply" where
  "readyz d s =
     (case readiness d s of
        Some reason \<Rightarrow> \<lparr>rp_Status = 503, rp_Body = ErrorText reason\<rparr>
      | None \<Rightarrow> \<lparr>rp_Status = 200, rp_Body = BodyBytes (''ready'' @ [CHR 0x0A])\<rparr>)"

definition escape_char :: "char \<Rightarrow> string" where
  "escape_char c =
     (if c = CHR 0x5C then [CHR 0x5C, CHR 0x5C]
      else if c = CHR 0x22 then [CHR 0x5C, CHR 0x22]
      else if c = CHR 0x0A then [CHR 0x5C, CHR ''n'']
      else [c])"

definition escapeLabel :: "string \<Rightarrow> string" where
  "escapeLabel v = concat (map escape_char v)"

section \<open>Statuses\<close>

lemma refusal_status:
  "statusFor (Some (refuse_quarantined p)) = 503" "statusFor (Some refuse_draining) = 503"
  "statusFor (Some (refuse_busy m p)) = 429" "statusFor (Some unauthorized) = 401"
  by (simp_all add: statusFor_def refuse_quarantined_def refuse_draining_def refuse_busy_def unauthorized_def
      codeQuarantined_def codeDraining_def codeOverlapped_def codeAtCapacity_def CodeUnauthorized_def)

lemma respond_reply_ok:
  "rp_Status (respond_reply driven out) = 200 \<Longrightarrow> \<not> Outcome_Failed out"
  by (auto simp: respond_reply_def Outcome_Failed_def statusFor_def http_Error_def split: option.splits if_splits)

text \<open>
  Every event whose signature check fails gets the same reply, whatever was wrong with it,
  and no run starts: the reply does not depend on \<open>fire\<close>.
\<close>

lemma webhook_verify_reply:
  assumes read: "read_limited (wh_maxBody w + 1) (hr_Body r) (hr_Body_Err r) = Inr body"
    "int (length body) \<le> sint (wh_maxBody w)"
    and auth: "wh_auth w = Some v" "getenv (vf_secretEnv v) \<noteq> ''''" "verify hmac getenv v r body \<noteq> None"
    and driven: "tr_HTTPDriven (webhook_Trigger tt hmac w) = Some driven"
  shows "handle_request driven getenv fire r = http_Error (Sprintf ''unauthorized'' []) 401"
proof -
  obtain reason err where v: "verify hmac getenv v r body = Some (reason, err)" using auth(3) by auto
  have err: "err = unauthorized" "reason \<noteq> ''''"
    using verify_rejects_uniformly [OF v auth(2)] by simp_all
  have "webhook_Values tt hmac w getenv r = Inl (set_Cause (EFmt (Sprintf reason [])) unauthorized)"
    using read auth(1) v err by (simp add: webhook_Values_def)
  moreover have "ht_Values driven = webhook_Values tt hmac w" using driven by (auto simp: webhook_Trigger_def)
  ultimately show ?thesis
    by (simp add: handle_request_def reject_reply_def statusFor_def unauthorized_def http_Error_def)
qed

section \<open>Routes reach their pipelines\<close>

lemma routes_step:
  "map_of (fold (\<lambda>(i, p) rs. if P p then put (key p) i rs else rs) (enumerate n ps) rs) k =
     (case find (\<lambda>(i, p). P p \<and> key p = k) (rev (enumerate n ps)) of Some (i, p) \<Rightarrow> Some i | None \<Rightarrow> map_of rs k)"
proof (induction ps arbitrary: n rs)
  case Nil
  then show ?case by simp
next
  case (Cons p ps)
  have find_append: "find Q (xs @ [x]) = (case find Q xs of Some y \<Rightarrow> Some y | None \<Rightarrow> if Q x then Some x else None)"
    for Q and x :: "nat \<times> 'a" and xs by (induction xs) auto
  show ?case using Cons.IH by (auto simp: find_append split: option.splits)
qed

lemma distinct_filter_nth:
  "distinct (map f (filter P xs)) \<Longrightarrow> a < length xs \<Longrightarrow> b < length xs \<Longrightarrow> P (xs ! a) \<Longrightarrow> P (xs ! b) \<Longrightarrow>
   f (xs ! a) = f (xs ! b) \<Longrightarrow> a = b"
proof (induction xs arbitrary: a b)
  case Nil
  then show ?case by simp
next
  case (Cons x xs)
  have fresh: "f (xs ! k) \<noteq> f x" if "k < length xs" "P (xs ! k)" "P x" for k
  proof -
    have "f (xs ! k) \<in> f ` set (filter P xs)" using that by simp
    moreover have "f x \<notin> f ` set (filter P xs)" using Cons.prems(1) that(3) by simp
    ultimately show ?thesis by metis
  qed
  have rest: "distinct (map f (filter P xs))" using Cons.prems(1) by (cases "P x") simp_all
  show ?case
  proof (cases a; cases b)
    fix a' b' assume "a = Suc a'" "b = Suc b'"
    then show ?thesis using Cons.IH [OF rest, of a' b'] Cons.prems(2-) by simp
  qed (use Cons.prems(2-) fresh fresh [THEN not_sym] in simp_all)
qed

text \<open>When no two pipelines share a claim, every webhook's route leads to that webhook.\<close>

lemma routes_of_reaches:
  assumes distinct: "distinct (map pipeline_Claim (filter (\<lambda>p. \<not> Claim_IsZero (pipeline_Claim p)) served))"
    and http: "\<And>p. p \<in> set served \<Longrightarrow> tr_HTTPDriven (pipeline_Trigger p) \<noteq> None \<Longrightarrow> cl_Kind (pipeline_Claim p) = ''http''"
    and i: "i < length served" "tr_HTTPDriven (pipeline_Trigger (served ! i)) \<noteq> None"
  shows "map_of (routes_of served) (cl_Key (pipeline_Claim (served ! i))) = Some i"
proof -
  let ?P = "\<lambda>p. tr_HTTPDriven (pipeline_Trigger p) \<noteq> None"
  let ?Q = "\<lambda>(j, p). ?P p \<and> cl_Key (pipeline_Claim p) = cl_Key (pipeline_Claim (served ! i))"
  have nz: "\<not> Claim_IsZero (pipeline_Claim (served ! j))" if "j < length served" "?P (served ! j)" for j
    using that http [OF nth_mem [OF that(1)]] by (simp add: Claim_IsZero_def)
  have unique: "j = i" if "j < length served" "?P (served ! j)"
    "cl_Key (pipeline_Claim (served ! j)) = cl_Key (pipeline_Claim (served ! i))" for j
  proof (rule ccontr)
    assume "j \<noteq> i"
    have "pipeline_Claim (served ! j) = pipeline_Claim (served ! i)"
      using that i http nth_mem by (metis Claim.equality old.unit.exhaust)
    with distinct_filter_nth [OF distinct that(1) i(1)] nz that i \<open>j \<noteq> i\<close> show False by blast
  qed
  have "(i, served ! i) \<in> set (rev (enumerate 0 served)) \<and> ?Q (i, served ! i)"
    using i by (simp add: in_set_enumerate_eq)
  then have "find ?Q (rev (enumerate 0 served)) \<noteq> None" by (auto simp: find_None_iff)
  then obtain j p where jp: "find ?Q (rev (enumerate 0 served)) = Some (j, p)" by auto
  have found: "x \<in> set xs \<and> Q x" if "find Q xs = Some x" for Q and x :: "nat \<times> 'a Pipeline" and xs
    using that by (auto simp: find_Some_iff)
  have "?Q (j, p)" "(j, p) \<in> set (enumerate 0 served)" using found [OF jp] by simp_all
  then have "j = i" using unique [of j] by (auto simp: in_set_enumerate_eq)
  then show ?thesis using jp unfolding routes_of_def routes_step by simp
qed

section \<open>Labels\<close>

text \<open>The label syntax of the exposition format, read back.\<close>

fun unescape :: "string \<Rightarrow> string" where
  "unescape [] = []"
| "unescape [c] = [c]"
| "unescape (c # e # cs) =
     (if c = CHR 0x5C
      then (if e = CHR ''n'' then CHR 0x0A # unescape cs else e # unescape cs)
      else c # unescape (e # cs))"

lemma unescape_Cons: "c \<noteq> CHR 0x5C \<Longrightarrow> unescape (c # cs) = c # unescape cs"
  by (cases cs) auto

lemma unescape_escapeLabel: "unescape (escapeLabel v) = v"
  by (induction v) (auto simp: escapeLabel_def escape_char_def unescape_Cons)

text \<open>A quoted label value ends at the first quote that no backslash precedes.\<close>

fun scan_label :: "string \<Rightarrow> (string \<times> string) option" where
  "scan_label [] = None"
| "scan_label (c # cs) =
     (if c = CHR 0x22 then Some ([], cs)
      else if c = CHR 0x0A then None
      else if c = CHR 0x5C then
        (case cs of [] \<Rightarrow> None | e # cs' \<Rightarrow> map_option (\<lambda>(v, rest). (c # e # v, rest)) (scan_label cs'))
      else map_option (\<lambda>(v, rest). (c # v, rest)) (scan_label cs))"

lemma scan_escapeLabel: "scan_label (escapeLabel v @ CHR 0x22 # rest) = Some (escapeLabel v, rest)"
  by (induction v) (auto simp: escapeLabel_def escape_char_def)

lemma readiness_None_iff:
  assumes "daemon_inv d s"
  shows "readiness d s = None \<longleftrightarrow>
    \<not> ds_draining s \<and> (dm_pipelines d = [] \<or> (\<exists>q\<in>set (ds_pipes s). \<not> ps_quarantined q))"
proof -
  have len: "length (ds_pipes s) = length (dm_pipelines d)" using assms by (simp add: daemon_inv_def fires_ok_def)
  have "length (filter ps_quarantined (ds_pipes s)) = length (ds_pipes s) \<longleftrightarrow> (\<forall>q\<in>set (ds_pipes s). ps_quarantined q)"
    by (simp add: filter_id_conv length_filter_conv_card) (metis filter_id_conv filter_True length_filter_conv_card length_filter_less less_irrefl)
  then show ?thesis using len by (auto simp: readiness_def quarantined_count_def)
qed

end
