(* ===== verification/System.thy ===== *)
theory System
  imports Run_Safety Serve
begin

text \<open>
  Compiler, executor and HTTP surface together: an event that a built-in webhook accepts
  supplies every declared input, and the value its run answers with can be written to the
  response.
\<close>

section \<open>Built-in HTTP triggers\<close>

lemma Builtins_webhook:
  assumes "Builtins tt hmac pd dw ds = Inr reg" "trigger_Resolve name reg = Inr d"
    "def_New d = Some new" "new cfg = Inr (Some t)" "tr_HTTPDriven t = Some h"
  obtains w where "t = webhook_Trigger tt hmac w"
proof -
  have "d \<in> set (trigger_Definitions tt hmac pd dw ds) \<or> trigger_Resolve name trigger_NewRegistry = Inr d"
    using trigger_registry.build_only assms(1,2)
    unfolding Builtins_def trigger_MustRegister_all_build by blast
  then have "\<exists>w. t = webhook_Trigger tt hmac w"
    using assms(3-)
    by (auto simp: trigger_Definitions_def registry_defs newWebhook_def newSchedule_def schedule_Trigger_def
        split: sum.splits if_splits) blast
  then show thesis using that by blast
qed

text \<open>A pipeline triggered by one of the built-in triggers: its parts, from the compiled plan.\<close>

definition served_by :: "type_table \<Rightarrow> (bytes \<Rightarrow> bytes \<Rightarrow> bytes) \<Rightarrow> ('c, 'w) Registries \<Rightarrow> 'c File \<Rightarrow>
  'w ExecutionPlan \<Rightarrow> TriggerBinding \<Rightarrow> bool" where
  "served_by tt hmac reg f p tb \<longleftrightarrow>
     valid_file f \<and> good_types tt \<and> sound_nodes tt (nodes_of reg) \<and> registered tt tBytes \<and> registered tt tText \<and>
     (\<exists>name. Compile tt f reg name = Inr p) \<and> p_Trigger p = Some tb \<and>
     (\<exists>pd dw ds. Builtins tt hmac pd dw ds = Inr (triggers_of reg))"

lemma served_by_facts:
  assumes "served_by tt hmac reg f p tb"
  shows "plan_wf p" "trigger_wf p tb" "\<exists>ty. typed_plan tt ty p" "honest_trigger tt (tb_Trigger tb)"
    and "tr_HTTPDriven (tb_Trigger tb) = Some h \<Longrightarrow> \<exists>w. tb_Trigger tb = webhook_Trigger tt hmac w"
proof -
  obtain name pd dw ds where c: "Compile tt f reg name = Inr p" and b: "Builtins tt hmac pd dw ds = Inr (triggers_of reg)"
    and v: "valid_file f" "good_types tt" "sound_nodes tt (nodes_of reg)" and tb: "p_Trigger p = Some tb"
    using assms by (auto simp: served_by_def)
  show wf: "plan_wf p" by (rule Compile_plan_wf [OF v(1) c])
  show "trigger_wf p tb" by (rule Compile_trigger(2) [OF c tb v(1)]) (use v(2) in \<open>simp add: good_types_def\<close>)
  show "\<exists>ty. typed_plan tt ty p" using Compile_typed [OF c v(2,3)] wf v(2) by (auto simp: typed_plan_def good_types_def)
  obtain spec d new where d: "trigger_Resolve (ts_Uses spec) (triggers_of reg) = Inr d" "def_New d = Some new"
    "new (ts_With spec) = Inr (Some (tb_Trigger tb))" "f_Trigger f = Some spec"
    using Compile_trigger(3) [OF c tb] by blast
  show "honest_trigger tt (tb_Trigger tb)" by (rule Builtins_honest [OF b d(1-3)])
  show "\<exists>w. tb_Trigger tb = webhook_Trigger tt hmac w" if "tr_HTTPDriven (tb_Trigger tb) = Some h"
    using Builtins_webhook [OF b d(1-3) that] by metis
qed

section \<open>Inputs\<close>

text \<open>Whatever event the trigger produces, no declared input is missing or of the wrong type.\<close>

lemma event_supplies_inputs:
  assumes s: "served_by tt hmac reg f p tb" and ev: "event_of tt (tb_Trigger tb) vals" and i: "i < length (p_Inputs p)"
  shows "\<exists>v. supply_input vals (p_Inputs p ! i) = \<lparr>rv_Value = v, rv_Err = None, rv_Meta = zero_meta\<rparr> \<and>
    v_typ v = pi_Type (p_Inputs p ! i)"
proof -
  obtain ty where ty: "typed_plan tt ty p" using served_by_facts(3) [OF s] by blast
  have "pi_Type (p_Inputs p ! i) = TypeOf tt (ty i)" "registered tt (ty i)"
    using ty i by (auto simp: typed_plan_def plan_typed_def)
  then have "pi_Type (p_Inputs p ! i) \<noteq> ''''" using TypeOf_nonempty s by (auto simp: served_by_def)
  then have "Provided (tr_Descriptor (tb_Trigger tb)) (pi_Name (p_Inputs p ! i)) = Some (pi_Type (p_Inputs p ! i))"
    using served_by_facts(2) [OF s] i by (simp add: trigger_wf_def)
  then obtain v where "map_of vals (pi_Name (p_Inputs p ! i)) = Some v" "v_typ v = pi_Type (p_Inputs p ! i)"
    using served_by_facts(4) [OF s] ev unfolding honest_trigger_def by blast
  then show ?thesis by (simp add: supply_input_def)
qed

lemma webhook_values_good:
  assumes "registered tt tBytes" "registered tt tText" "webhook_Values tt hmac w getenv r = Inr vals"
  shows "good_values tt vals"
proof -
  have "fits tt tBytes (NewValue tt (PBytes b))" "fits tt tText (NewValue tt (PText x))" for b x
    using NewValue_fits [of tt "PBytes b"] NewValue_fits [of tt "PText x"] by simp_all
  then have "\<exists>t. registered tt t \<and> fits tt t (NewValue tt (PBytes b))" "\<exists>t. registered tt t \<and> fits tt t (NewValue tt (PText x))"
    for b x using assms(1,2) by blast+
  then show ?thesis using assms(3) by (auto simp: good_values_def webhook_Values_Inr split: if_splits)
qed

section \<open>Answers\<close>

text \<open>The reply to a request whose run succeeded: 200, with the bytes of the respond step's value.\<close>

lemma success_reply:
  assumes s: "served_by tt hmac reg f p tb" and h: "tr_HTTPDriven (tb_Trigger tb) = Some h"
    and run: "typed_plan tt ty p" "run_inv p u" "typed_inv tt ty p u" "s_pc u = Returned" "\<not> Execution_Failed (s_ex u)"
  shows "\<exists>body. respond_reply h (outcomeOf (s_ex u) (tb_RespondStep tb)) = \<lparr>rp_Status = 200, rp_Body = body\<rparr> \<and>
    (tb_RespondStep tb < 0 \<longrightarrow> body = NoBody) \<and>
    (0 \<le> tb_RespondStep tb \<longrightarrow> st u (nat (tb_RespondStep tb)) = StateSucceeded \<and>
       (\<exists>b. v_ref (val u (nat (tb_RespondStep tb))) \<in> {Some (PBytes b), Some (PText b)} \<and> body = BodyBytes b))"
proof -
  obtain w where w: "tb_Trigger tb = webhook_Trigger tt hmac w" using served_by_facts(5) [OF s h] by blast
  have hw: "ht_Respond h = webhook_Respond" "ht_ResponseTypes h = webhook_ResponseTypes tt"
    using h w by (auto simp: webhook_Trigger_def)
  show ?thesis
  proof (cases "tb_RespondStep tb < 0")
    case True
    then show ?thesis using run(5) by (simp add: outcomeOf_def respond_reply_def)
  next
    case False
    then obtain i n where i: "tb_RespondStep tb = int i" "i < nsteps p" "cs_Node (p_Steps p ! i) = Some n"
      "pd_Type (d_Output (rn_Descriptor n)) \<in> set (ht_ResponseTypes h)"
      using served_by_facts(2) [OF s] h by (auto simp: trigger_wf_def Plan_Len_def)
    have sound: "node_sound tt (map ty (deps p i)) (ty i) n"
      using run(1) i by (auto simp: typed_plan_def plan_typed_def Plan_Len_def)
    have ok: "st u i = StateSucceeded" using run(2,4,5) i(2) by (simp add: run_inv_def outcome_ok_def)
    then have fits: "fits tt (ty i) (val u i)" using run(3) i(2) by (simp add: typed_inv_def)
    have out: "pd_Type (d_Output (rn_Descriptor n)) = TypeOf tt (ty i)" using sound by (simp add: node_sound_def)
    have "v_typ (val u i) = TypeOf tt tBytes \<or> v_typ (val u i) = TypeOf tt tText"
      using i(4) out fits by (auto simp: hw webhook_ResponseTypes_def fits_def)
    moreover have "v_typ (val u i) = TypeOf tt (ty i)" using fits by (simp add: fits_def)
    moreover have "registered tt (ty i)" "types_inv tt" "registered tt tBytes" "registered tt tText"
      using run(1) i(2) s by (auto simp: typed_plan_def plan_typed_def Plan_Len_def served_by_def)
    ultimately have "ty i = tBytes \<or> ty i = tText" by (metis TypeOf_registered_inj)
    then obtain b where b: "v_ref (val u i) \<in> {Some (PBytes b), Some (PText b)}" "webhook_Respond (val u i) = Returns (Inr b)"
      using webhook_Respond_bytes fits by metis
    have "\<not> IsZero (val u i)" using fits by (auto simp: fits_def IsZero_def)
    with b ok show ?thesis using run(5) i(1) by (simp add: outcomeOf_def respond_reply_def hw)
  qed
qed

text \<open>The runs an event starts: the values the trigger produced are the run's inputs.\<close>

definition starts_with :: "'w ExecutionPlan \<Rightarrow> Value gomap \<Rightarrow> 'w scheduler \<Rightarrow> bool" where
  "starts_with p vals s \<longleftrightarrow>
     (\<exists>env fresh opts. en_others env \<le> en_cap env \<and> (op_Slots opts \<longrightarrow> 0 < en_cap env) \<and> op_Inputs opts = vals \<and>
        s = Run_start env fresh p opts)"

lemma webhook_run_typed:
  assumes s: "served_by tt hmac reg f p tb" and h: "tr_HTTPDriven (tb_Trigger tb) = Some h"
    and vals: "ht_Values h getenv r = Inr vals" and u: "reachable (starts_with p vals) sched_step u"
  obtains ty where "typed_plan tt ty p" "run_inv p u" "typed_inv tt ty p u"
proof -
  obtain w where "tb_Trigger tb = webhook_Trigger tt hmac w" using served_by_facts(5) [OF s h] by blast
  then have "webhook_Values tt hmac w getenv r = Inr vals" using h vals by (auto simp: webhook_Trigger_def)
  then have good: "good_values tt vals" using s webhook_values_good unfolding served_by_def by blast
  obtain ty where ty: "typed_plan tt ty p" using served_by_facts(3) [OF s] by blast
  have "starts_typed tt p v" if "starts_with p vals v" for v
    using that good served_by_facts(1) [OF s] unfolding starts_with_def starts_typed_def by blast
  with u ty have "reachable (\<lambda>s. typed_plan tt ty p \<and> starts_typed tt p s) sched_step u"
  proof (induction rule: reachable.induct)
    case (reachable_init v)
    then show ?case by (intro reachable.reachable_init) simp
  next
    case (reachable_step v e v')
    then show ?case by (blast intro: reachable.reachable_step)
  qed
  from typed_runs.reachable_inv [OF this] that show thesis by blast
qed

text \<open>A plan compiled against the domain types carries nothing else.\<close>

lemma plan_typed_domain: "plan_typed domain_table p ty \<Longrightarrow> \<forall>i<nsteps p. ty i \<in> fst ` set domain_types"
  by (force simp: plan_typed_def Plan_Len_def registered_def domain_table_byType map_of_eq_None_iff)

end
