(* ===== verification/Demo.thy ===== *)
theory Demo
  imports System
begin

text \<open>
  A small pipeline, compiled, run and served, on which the theorems are applied: an input
  \<open>body\<close> supplied by a webhook, a step \<open>reply\<close> that turns it into text and answers the
  request, and a step \<open>size\<close> that measures the text.
\<close>

section \<open>The pipeline and its plan\<close>

fun demo_say :: "payload \<Rightarrow> Result call" where
  "demo_say (PBytes b) = Returns (Ok (PText b))"
| "demo_say _ = Panics ''nil pointer dereference''"

fun demo_size :: "payload \<Rightarrow> Result call" where
  "demo_size (PText s) = Returns (Ok (PInt (word_of_nat (length s))))"
| "demo_size _ = Panics ''nil pointer dereference''"

definition demo_nodes :: "(unit, unit) NodeNew Registry" where
  "demo_nodes =
     [(''say'', \<lparr>def_Name = ''say'',
                 def_New = Some (\<lambda>_. Inr (Some (NewTypedNode domain_table tBytes tText ''say'' (\<lambda>_ _. demo_say))))\<rparr>),
      (''size'', \<lparr>def_Name = ''size'',
                  def_New = Some (\<lambda>_. Inr (Some (NewTypedNode domain_table tText tInt ''size'' (\<lambda>_ _. demo_size))))\<rparr>)]"

definition demo_hmac :: "bytes \<Rightarrow> bytes \<Rightarrow> bytes" where
  "demo_hmac key msg = take 2 (key @ msg)"

definition demo_webhook :: webhookConfig where
  "demo_webhook = \<lparr>wc_Path = ''/hook'', wc_Method = ''post'', wc_MaxBody = 0, wc_Auth = None\<rparr>"

definition demo_triggers :: "unit TriggerNew Registry" where
  "demo_triggers =
     (case Builtins domain_table demo_hmac (\<lambda>_. Inr 1000000) (\<lambda>_. Inr demo_webhook) (\<lambda>_. Inr ''1ms'') of
        Inr R \<Rightarrow> R | Inl _ \<Rightarrow> [])"

definition demo_reg :: "(unit, unit) Registries" where
  "demo_reg = \<lparr>rg_Nodes = Some demo_nodes, rg_Triggers = Some demo_triggers\<rparr>"

definition demo_needs :: "string \<Rightarrow> Needs" where
  "demo_needs d = \<lparr>nd_order = [d], nd_byPort = [], nd_named = False\<rparr>"

definition demo_file :: "unit File" where
  "demo_file = \<lparr>f_Version = 1, f_Inputs = [(''body'', ''Bytes'')],
     f_Trigger = Some \<lparr>ts_Uses = ''trigger.webhook'', ts_With = (), ts_Timeout = 5000000000,
                       ts_RespondWith = ''reply'', ts_OnOverlap = ''''\<rparr>,
     f_Steps = [(''reply'', \<lparr>st_Uses = ''say'', st_With = (), st_Needs = demo_needs ''body'',
                             st_Retry = Some \<lparr>rt_MaxAttempts = 3, rt_Backoff = 100\<rparr>\<rparr>),
                (''size'', \<lparr>st_Uses = ''size'', st_With = (), st_Needs = demo_needs ''reply'', st_Retry = None\<rparr>)]\<rparr>"

definition demo_plan :: "unit ExecutionPlan" where
  "demo_plan = (case Compile domain_table demo_file demo_reg ''demo'' of Inr p \<Rightarrow> p | Inl _ \<Rightarrow> undefined)"

lemma demo_compiles: "Compile domain_table demo_file demo_reg ''demo'' = Inr demo_plan"
proof -
  have "case Compile domain_table demo_file demo_reg ''demo'' of Inr _ \<Rightarrow> True | Inl _ \<Rightarrow> False"
    by code_simp
  then show ?thesis by (auto simp: demo_plan_def split: sum.splits)
qed

lemma demo_valid: "valid_file demo_file"
  unfolding validate_None_iff [symmetric] by code_simp

lemma demo_plan_wf: "plan_wf demo_plan"
  by (rule Compile_plan_wf [OF demo_valid demo_compiles])

section \<open>One run of it\<close>

definition demo_env :: environment where
  "demo_env = \<lparr>en_cap = 2, en_others = 1, en_ctx_done = False, en_render = (\<lambda>_. '''')\<rparr>"

definition demo_options :: Options where
  "demo_options = \<lparr>op_WorkflowID = '''', op_Inputs = [(''body'', NewValue domain_table (PBytes ''hi''))],
     op_ExecutionID = ''e1'', op_MaxConcurrency = 4, op_Slots = True, op_AbandonAfter = 0,
     op_DetectMutation = False, op_InlineSoloSteps = False\<rparr>"

definition demo_start :: "unit scheduler" where
  "demo_start = Run_start demo_env ''fresh'' demo_plan demo_options"

definition demo_obs :: "int \<Rightarrow> unit attempt_obs" where
  "demo_obs _ = \<lparr>ao_world = (), ao_elapsed = 1, ao_until = None, ao_tie = False\<rparr>"

definition demo_events :: "unit event list" where
  "demo_events = [Top demo_obs, StepFinishes 1 demo_obs, StepReleases, ReceiveDone,
                  Top demo_obs, StepFinishes 2 demo_obs, ReceiveDone, Top demo_obs]"

definition demo_final :: "unit scheduler" where
  "demo_final = the (run_events sched_step demo_events demo_start)"

lemma demo_runs:
  "case run_events sched_step demo_events demo_start of
     None \<Rightarrow> False
   | Some s \<Rightarrow> s_pc s = Returned \<and> \<not> Execution_Failed (s_ex s) \<and>
       map sr_State (ex_Steps (s_ex s)) = [StateSucceeded, StateSucceeded, StateSucceeded] \<and>
       sr_Value (ex_Steps (s_ex s) ! 1) = NewValue domain_table (PText ''hi'')"
  by code_simp

lemma demo_finishes:
  "run_events sched_step demo_events demo_start = Some demo_final"
  "s_pc demo_final = Returned" "\<not> Execution_Failed (s_ex demo_final)"
  "map sr_State (ex_Steps (s_ex demo_final)) = [StateSucceeded, StateSucceeded, StateSucceeded]"
  "sr_Value (ex_Steps (s_ex demo_final) ! 1) = NewValue domain_table (PText ''hi'')"
  using demo_runs by (auto simp: demo_final_def split: option.splits)

lemma demo_starts: "starts_run demo_plan demo_start"
  unfolding starts_run_def demo_start_def using demo_plan_wf
  by (intro conjI exI [of _ demo_env] exI [of _ demo_options] exI [of _ "''fresh''"])
    (simp_all add: demo_env_def)

lemma demo_reachable: "reachable (starts_run demo_plan) sched_step demo_final"
  using run_events_reachable [OF reachable_init demo_finishes(1)] demo_starts by blast

text \<open>The same run while its first step is in flight.\<close>

definition midway_events :: "unit event list" where
  "midway_events = [Top demo_obs]"

definition demo_midway :: "unit scheduler" where
  "demo_midway = the (run_events sched_step midway_events demo_start)"

lemma demo_midway:
  "run_events sched_step midway_events demo_start = Some demo_midway" "s_pc demo_midway \<noteq> Returned" "1 \<in> set (act demo_midway)"
proof -
  have "case run_events sched_step midway_events demo_start of
      None \<Rightarrow> False | Some s \<Rightarrow> s_pc s \<noteq> Returned \<and> 1 \<in> set (act s)"
    by code_simp
  then show "run_events sched_step midway_events demo_start = Some demo_midway" "s_pc demo_midway \<noteq> Returned"
    "1 \<in> set (act demo_midway)"
    by (auto simp: demo_midway_def split: option.splits)
qed

lemma demo_midway_reachable: "reachable (starts_run demo_plan) sched_step demo_midway"
  using run_events_reachable [OF reachable_init demo_midway(1)] demo_starts by blast

section \<open>Its types\<close>

lemma domain_registered: "registered domain_table tBytes" "registered domain_table tText" "registered domain_table tInt"
  by (simp_all add: registered_def domain_table_byType domain_types_def)

lemma demo_sound: "sound_nodes domain_table (nodes_of demo_reg)"
proof -
  have "typed_call tText (demo_say x)" "typed_call tInt (demo_size x)" for x
    by (cases x; simp add: typed_call_def Ok_def domain_types_def)+
  then have say: "node_sound domain_table [tBytes] tText (NewTypedNode domain_table tBytes tText ''say'' (\<lambda>_ _. demo_say))"
    and size: "node_sound domain_table [tText] tInt (NewTypedNode domain_table tText tInt ''size'' (\<lambda>_ _. demo_size))"
    using typed_nodes.sound [of "(domain_table, tBytes, tText, ''say'', \<lambda>_ _. demo_say)"]
      typed_nodes.sound [of "(domain_table, tText, tInt, ''size'', \<lambda>_ _. demo_size)"]
    by simp_all
  show ?thesis
    unfolding sound_nodes_def nodes_of_def demo_reg_def demo_nodes_def
    using say size domain_registered
    by (fastforce simp: Resolve_def split: if_splits)
qed

definition demo_binding :: TriggerBinding where
  "demo_binding = the (p_Trigger demo_plan)"

lemma demo_trigger: "p_Trigger demo_plan = Some demo_binding"
proof -
  have "p_Trigger demo_plan \<noteq> None" using Compile_trigger(1) [OF demo_compiles] by (simp add: demo_file_def)
  then show ?thesis by (auto simp: demo_binding_def)
qed

lemma demo_served: "served_by domain_table demo_hmac demo_reg demo_file demo_plan demo_binding"
proof -
  obtain R where "Builtins domain_table demo_hmac (\<lambda>_. Inr 1000000) (\<lambda>_. Inr demo_webhook) (\<lambda>_ :: unit. Inr ''1ms'') = Inr R"
    using Builtins_total by blast
  then have "Builtins domain_table demo_hmac (\<lambda>_. Inr 1000000) (\<lambda>_. Inr demo_webhook) (\<lambda>_ :: unit. Inr ''1ms'') =
      Inr (triggers_of demo_reg)"
    by (simp add: triggers_of_def demo_reg_def demo_triggers_def)
  then show ?thesis
    using demo_valid domain_good demo_sound domain_registered demo_compiles demo_trigger
    unfolding served_by_def by blast
qed

lemma demo_inputs_good: "good_values domain_table (op_Inputs demo_options)"
proof -
  have "fits domain_table tBytes (NewValue domain_table (PBytes ''hi''))"
    using NewValue_fits [of domain_table "PBytes ''hi''"] by simp
  then show ?thesis
    using domain_registered(1) by (auto simp: good_values_def demo_options_def)
qed

lemma demo_starts_typed: "starts_typed domain_table demo_plan demo_start"
  unfolding starts_typed_def demo_start_def using demo_plan_wf demo_inputs_good
  by (intro conjI exI [of _ demo_env] exI [of _ demo_options] exI [of _ "''fresh''"])
    (simp_all add: demo_env_def)

section \<open>A daemon that serves a wedged job\<close>

text \<open>A job on a schedule, one run at a time, whose runs leave a step running.\<close>

definition job_plan :: "unit ExecutionPlan" where
  "job_plan = \<lparr>p_Name = ''job'', p_Steps = [], p_Inputs = [],
     p_Trigger = Some \<lparr>tb_Uses = ''trigger.schedule'', tb_Trigger = schedule_Trigger domain_table 1000000,
                       tb_RespondStep = -1, tb_Timeout = 0, tb_Overlap = OverlapDrop\<rparr>,
     p_Roots = [], p_TotalInputs = 0\<rparr>"

definition job_daemon :: "unit Daemon" where
  "job_daemon = New [\<lparr>pl_Name = ''job'', pl_Path = ''d/job.yaml'', pl_Plan = job_plan\<rparr>]
     \<lparr>do_Addr = '''', do_AdminAddr = '''', do_MaxConcurrency = 0, do_DrainTimeout = 0, do_AbandonAfter = 0,
      do_MaxRunsPerPipeline = 0, do_ReadTimeout = 0, do_IdleTimeout = 0, do_WriteTimeout = 0\<rparr>"

definition wedged :: "unit Execution" where
  "wedged = (new_execution ''e'' job_plan)\<lparr>ex_Cancelled := True, ex_Abandoned := 1\<rparr>"

definition call_events :: "nat \<Rightarrow> nat \<Rightarrow> unit daemon_event list" where
  "call_events t n = Fires 0 # replicate n (Advances t wedged)"

text \<open>The third run in a row that left a step running quarantines the job.\<close>

definition quarantined_state :: "unit daemon_state" where
  "quarantined_state = the (run_events (daemon_step job_daemon)
     (call_events 0 14 @ call_events 1 14 @ call_events 2 15) (daemon_start job_daemon))"

lemma quarantined_state:
  "run_events (daemon_step job_daemon) (call_events 0 14 @ call_events 1 14 @ call_events 2 15) (daemon_start job_daemon) =
     Some quarantined_state"
  "ps_quarantined (ds_pipes quarantined_state ! 0)" "ps_inflight (ds_pipes quarantined_state ! 0) = 0"
  "length (ds_fires quarantined_state) = 3" "length (ds_pipes quarantined_state) = 1"
proof -
  have "case run_events (daemon_step job_daemon) (call_events 0 14 @ call_events 1 14 @ call_events 2 15) (daemon_start job_daemon) of
      None \<Rightarrow> False
    | Some s \<Rightarrow> ps_quarantined (ds_pipes s ! 0) \<and> ps_inflight (ds_pipes s ! 0) = 0 \<and> length (ds_fires s) = 3 \<and> length (ds_pipes s) = 1"
    by code_simp
  then show
    "run_events (daemon_step job_daemon) (call_events 0 14 @ call_events 1 14 @ call_events 2 15) (daemon_start job_daemon) =
       Some quarantined_state"
    "ps_quarantined (ds_pipes quarantined_state ! 0)" "ps_inflight (ds_pipes quarantined_state ! 0) = 0"
    "length (ds_fires quarantined_state) = 3" "length (ds_pipes quarantined_state) = 1"
    by (auto simp: quarantined_state_def split: option.splits)
qed

text \<open>One run going, another event refused, and the drain begun.\<close>

definition busy_events :: "unit daemon_event list" where
  "busy_events = call_events 0 7 @ call_events 1 4 @ [SetsDraining]"

definition busy_state :: "unit daemon_state" where
  "busy_state = the (run_events (daemon_step job_daemon) busy_events (daemon_start job_daemon))"

lemma busy_state:
  "run_events (daemon_step job_daemon) busy_events (daemon_start job_daemon) = Some busy_state"
  "ds_draining busy_state" "ds_fires busy_state ! 0 = (0, F_Running)" "length (ds_fires busy_state) = 2"
  "ps_inflight (ds_pipes busy_state ! 0) = 1"
proof -
  have "case run_events (daemon_step job_daemon) busy_events (daemon_start job_daemon) of
      None \<Rightarrow> False
    | Some s \<Rightarrow> ds_draining s \<and> (case ds_fires s ! 0 of (i, F_Running) \<Rightarrow> i = 0 | _ \<Rightarrow> False) \<and>
        length (ds_fires s) = 2 \<and> ps_inflight (ds_pipes s ! 0) = 1"
    by code_simp
  then show "run_events (daemon_step job_daemon) busy_events (daemon_start job_daemon) = Some busy_state"
    "ds_draining busy_state" "ds_fires busy_state ! 0 = (0, F_Running)" "length (ds_fires busy_state) = 2"
    "ps_inflight (ds_pipes busy_state ! 0) = 1"
    by (auto simp: busy_state_def split: option.splits prod.splits fire_pc.splits)
qed

lemma job_reachable:
  "run_events (daemon_step job_daemon) es (daemon_start job_daemon) = Some s \<Longrightarrow>
   reachable (starts_daemon job_daemon) (daemon_step job_daemon) s"
  by (rule run_events_reachable [OF reachable_init]) (simp_all add: starts_daemon_def)

lemma demo_start_reachable: "reachable (starts_run demo_plan) sched_step demo_start"
  by (rule reachable_init) (rule demo_starts)

lemma demo_start_running: "s_pc demo_start \<noteq> Returned"
proof
  assume "s_pc demo_start = Returned"
  then have "run_events sched_step demo_events demo_start = None" by (simp add: demo_events_def)
  then show False using demo_finishes(1) by simp
qed

lemma demo_steps: "nsteps demo_plan = 3" "st demo_final 1 = StateSucceeded"
proof -
  have "length (ex_Steps (s_ex demo_final)) = 3" using arg_cong [OF demo_finishes(4), of length] by simp
  then show "nsteps demo_plan = 3" "st demo_final 1 = StateSucceeded"
    using arg_cong [OF demo_finishes(4), of "\<lambda>xs. xs ! 1"] runs.reachable_inv [OF demo_reachable] demo_finishes(2)
    by (simp_all add: run_inv_def outcome_ok_def)
qed

section \<open>A cyclic file\<close>

definition loop_file :: "unit File" where
  "loop_file = \<lparr>f_Version = 1, f_Inputs = [], f_Trigger = None,
     f_Steps = [(''a'', \<lparr>st_Uses = ''say'', st_With = (), st_Needs = demo_needs ''b'', st_Retry = None\<rparr>),
                (''b'', \<lparr>st_Uses = ''say'', st_With = (), st_Needs = demo_needs ''a'', st_Retry = None\<rparr>)]\<rparr>"

lemma loop_file: "valid_file loop_file" "\<not> acyclic (needs_rel loop_file)"
proof -
  show "valid_file loop_file" unfolding validate_None_iff [symmetric] by code_simp
  have "file_ids loop_file = [''a'', ''b'']" by code_simp
  then have "(''a'', ''b'') \<in> needs_rel loop_file" "(''b'', ''a'') \<in> needs_rel loop_file"
    by (simp_all add: needs_rel_def needs_of_def loop_file_def demo_needs_def Needs_Steps_def)
  then show "\<not> acyclic (needs_rel loop_file)" by (meson acyclic_def r_into_trancl trancl_into_trancl2)
qed

lemma demo_node: "\<exists>n. cs_Node (p_Steps demo_plan ! 1) = Some n"
proof -
  have "case Compile domain_table demo_file demo_reg ''demo'' of Inr p \<Rightarrow> \<not> IsInput (p_Steps p ! 1) | Inl _ \<Rightarrow> False"
    by code_simp
  then show ?thesis using demo_compiles by (auto simp: IsInput_def)
qed

section \<open>A directory with it\<close>

definition demo_pipeline :: "unit Pipeline" where
  "demo_pipeline = \<lparr>pl_Name = ''demo'', pl_Path = ''d/demo.yaml'', pl_Plan = demo_plan\<rparr>"

definition demo_entries :: "dir_entry list" where
  "demo_entries = [\<lparr>de_Name = ''demo.yaml'', de_IsDir = False\<rparr>, \<lparr>de_Name = ''notes.txt'', de_IsDir = False\<rparr>]"

definition demo_path :: "string \<Rightarrow> string" where "demo_path name = ''d/'' @ name"

definition demo_parse :: "string \<Rightarrow> go_error + unit File" where "demo_parse _ = Inr demo_file"

lemma demo_entry:
  "filter is_pipeline_entry demo_entries = [\<lparr>de_Name = ''demo.yaml'', de_IsDir = False\<rparr>]"
  "load_entry domain_table demo_reg demo_path demo_parse \<lparr>de_Name = ''demo.yaml'', de_IsDir = False\<rparr> = Candidate demo_pipeline"
proof -
  show "filter is_pipeline_entry demo_entries = [\<lparr>de_Name = ''demo.yaml'', de_IsDir = False\<rparr>]" by code_simp
  have "TrimSuffix ''demo.yaml'' (Ext ''demo.yaml'') = ''demo''" by code_simp
  then show "load_entry domain_table demo_reg demo_path demo_parse \<lparr>de_Name = ''demo.yaml'', de_IsDir = False\<rparr> = Candidate demo_pipeline"
    by (simp add: load_entry_def Let_def demo_parse_def demo_compiles demo_trigger demo_pipeline_def demo_path_def)
qed

definition demo_claims :: "Claim list" where
  "demo_claims = filter (\<lambda>c. \<not> Claim_IsZero c) [pipeline_Claim demo_pipeline]"

lemma demo_candidates: "load_candidates domain_table demo_reg demo_path demo_parse demo_entries = [demo_pipeline]"
  by (simp add: load_candidates_def demo_entry candidates_def List.map_filter_simps)

lemma demo_claim_order: "claim_order demo_claims (load_candidates domain_table demo_reg demo_path demo_parse demo_entries)"
  unfolding demo_candidates by (auto simp: claim_order_def demo_claims_def)

definition demo_loaded :: "unit Loaded" where
  "demo_loaded = \<lparr>ld_Served = [demo_pipeline], ld_Rejected = [], ld_Untriggered = []\<rparr>"

lemma demo_load: "Load domain_table demo_reg demo_path demo_parse demo_claims (Inr demo_entries) = Inr demo_loaded"
  by (simp add: Load_def Let_def demo_entry candidates_def rejections_def untriggered_def List.map_filter_simps
      resolveClaims_def demo_claims_def contested_def claimants_def demo_loaded_def)

lemma demo_http: "\<exists>h. tr_HTTPDriven (tb_Trigger demo_binding) = Some h" "tb_RespondStep demo_binding = 1"
proof -
  have "case Compile domain_table demo_file demo_reg ''demo'' of
      Inr p \<Rightarrow> (case p_Trigger p of Some tb \<Rightarrow> tr_HTTPDriven (tb_Trigger tb) \<noteq> None \<and> tb_RespondStep tb = 1 | None \<Rightarrow> False)
    | Inl _ \<Rightarrow> False"
    by code_simp
  then show "\<exists>h. tr_HTTPDriven (tb_Trigger demo_binding) = Some h" "tb_RespondStep demo_binding = 1"
    using demo_compiles demo_trigger by auto
qed

section \<open>A request to it\<close>

definition demo_request :: HTTPRequest where
  "demo_request = \<lparr>hr_Method = ''POST'', hr_Path = ''/hook'', hr_RawQuery = '''', hr_Header_Get = (\<lambda>_. ''''),
                   hr_Body = ''hi'', hr_Body_Err = None\<rparr>"

definition demo_driven :: HTTPDriven where
  "demo_driven = the (tr_HTTPDriven (tb_Trigger demo_binding))"

lemma demo_driven: "tr_HTTPDriven (tb_Trigger demo_binding) = Some demo_driven"
  using demo_http(1) by (auto simp: demo_driven_def)

definition demo_values :: "Value gomap" where
  "demo_values =
     [(''body'', NewValue domain_table (PBytes ''hi'')), (''method'', NewValue domain_table (PText ''POST'')),
      (''path'', NewValue domain_table (PText ''/hook'')), (''query'', NewValue domain_table (PText ''''))]"

definition demo_hook :: "verifier option \<Rightarrow> webhook" where
  "demo_hook auth = \<lparr>wh_path = ''/hook'', wh_method = ''POST'', wh_maxBody = 1048576, wh_auth = auth\<rparr>"

lemma demo_accepted: "ht_Values demo_driven (\<lambda>_. '''') demo_request = Inr demo_values"
proof -
  have "case Compile domain_table demo_file demo_reg ''demo'' of
      Inr p \<Rightarrow> (case p_Trigger p of
          Some tb \<Rightarrow> (case tr_HTTPDriven (tb_Trigger tb) of
              Some h \<Rightarrow> ht_Values h (\<lambda>_. '''') demo_request = Inr demo_values | None \<Rightarrow> False) | None \<Rightarrow> False)
    | Inl _ \<Rightarrow> False"
    by code_simp
  then show ?thesis using demo_compiles demo_trigger demo_driven by auto
qed

text \<open>The run that event starts, and its end.\<close>

definition event_start :: "unit scheduler" where
  "event_start = Run_start demo_env ''fresh'' demo_plan (demo_options\<lparr>op_Inputs := demo_values\<rparr>)"

definition event_final :: "unit scheduler" where
  "event_final = the (run_events sched_step demo_events event_start)"

lemma event_finishes:
  "run_events sched_step demo_events event_start = Some event_final"
  "s_pc event_final = Returned" "\<not> Execution_Failed (s_ex event_final)"
  "v_ref (val event_final 1) = Some (PText ''hi'')"
proof -
  have "case run_events sched_step demo_events event_start of
      None \<Rightarrow> False
    | Some s \<Rightarrow> s_pc s = Returned \<and> \<not> Execution_Failed (s_ex s) \<and> v_ref (val s 1) = Some (PText ''hi'')"
    by code_simp
  then show "run_events sched_step demo_events event_start = Some event_final"
    "s_pc event_final = Returned" "\<not> Execution_Failed (s_ex event_final)"
    "v_ref (val event_final 1) = Some (PText ''hi'')"
    by (auto simp: event_final_def split: option.splits)
qed

text \<open>A signed request: the hash is the first two bytes of key and message.\<close>

definition demo_verifier :: verifier where
  "demo_verifier = \<lparr>vf_header = ''X-Sig'', vf_prefix = ''SIG='', vf_secretEnv = ''KEY''\<rparr>"

definition demo_signed :: "string \<Rightarrow> HTTPRequest" where
  "demo_signed sig = demo_request\<lparr>hr_Header_Get := (\<lambda>_. sig)\<rparr>"

lemma demo_signed_accepted:
  "\<exists>vals. webhook_Values domain_table demo_hmac (demo_hook (Some demo_verifier)) (\<lambda>_. ''k'') (demo_signed ''SIG=6B68'') = Inr vals"
proof -
  have "case webhook_Values domain_table demo_hmac (demo_hook (Some demo_verifier)) (\<lambda>_. ''k'') (demo_signed ''SIG=6B68'') of
      Inr _ \<Rightarrow> True | Inl _ \<Rightarrow> False" by code_simp
  then show ?thesis by (auto split: sum.splits)
qed

lemma busy_then_fires:
  "\<exists>s'. run_events (daemon_step job_daemon) (call_events 2 2) busy_state = Some s' \<and> length (ds_fires s') = 3"
proof -
  have "case run_events (daemon_step job_daemon) (busy_events @ call_events 2 2) (daemon_start job_daemon) of
      None \<Rightarrow> False | Some s' \<Rightarrow> length (ds_fires s') = 3"
    by code_simp
  then show ?thesis by (auto simp: run_events_append busy_state(1) split: option.splits)
qed

section \<open>Webhook pipelines that share a claim\<close>

definition hook_pipeline :: "string \<Rightarrow> unit Pipeline" where
  "hook_pipeline name = \<lparr>pl_Name = name, pl_Path = name @ ''.yaml'', pl_Plan = job_plan
     \<lparr>p_Trigger := Some \<lparr>tb_Uses = ''trigger.webhook'', tb_Trigger = webhook_Trigger domain_table demo_hmac (demo_hook None),
                        tb_RespondStep = -1, tb_Timeout = 1, tb_Overlap = OverlapAllow\<rparr>\<rparr>\<rparr>"

end
