(* ===== verification/Node_Kit.thy ===== *)
theory Node_Kit
  imports Executor "HOL-Library.Sublist"
begin

text \<open>
  What the built-in node packages share: a YAML literal as the outcomes of the library's
  decoder on it, the functions of Go's \<open>strings\<close> and \<open>strconv\<close> packages their sources
  call, and the lemmas that turn a well-typed node function into a sound constructor.
\<close>

section \<open>YAML literals\<close>

text \<open>
  A \<open>yaml.Node\<close> field of a config struct is \<open>None\<close> when \<open>IsZero\<close> holds of it; otherwise it
  is whether its kind is \<open>ScalarNode\<close> and what \<open>Decode\<close> yields for each destination type the
  sources use.
\<close>

record yaml_node =
  yn_Scalar :: bool
  yn_Decode_string :: "go_error + string"
  yn_Decode_bool :: "go_error + bool"
  yn_Decode_int64 :: "go_error + int64"
  yn_Decode_any :: "go_error + any"

abbreviation nil_deref :: "'a call" where
  "nil_deref \<equiv> Panics ''invalid memory address or nil pointer dereference''"

section \<open>strings\<close>

fun Index :: "string \<Rightarrow> string \<Rightarrow> nat option" where
  "Index [] sub = (if sub = [] then Some 0 else None)"
| "Index (c # s) sub = (if prefix sub (c # s) then Some 0 else map_option Suc (Index s sub))"

definition Contains :: "string \<Rightarrow> string \<Rightarrow> bool" where
  "Contains s sub \<longleftrightarrow> Index s sub \<noteq> None"

definition ContainsAny :: "string \<Rightarrow> string \<Rightarrow> bool" where
  "ContainsAny s chars \<longleftrightarrow> list_ex (\<lambda>c. c \<in> set chars) s"

fun Split :: "char \<Rightarrow> string \<Rightarrow> string list" where
  "Split sep [] = [[]]"
| "Split sep (c # s) =
     (if c = sep then [] # Split sep s
      else (case Split sep s of [] \<Rightarrow> [[c]] | x # xs \<Rightarrow> (c # x) # xs))"

text \<open>
  \<open>unicode.IsSpace\<close> over UTF-8: the encodings of the white space characters. Each begins
  with a start byte and has no other, so a suffix of a string is one of them exactly when
  decoding its last character gives that one.
\<close>

definition bytes_of :: "nat list \<Rightarrow> string" where
  "bytes_of ns = map char_of ns"

definition space_seqs :: "string list" where
  "space_seqs = map bytes_of
     ([[9], [10], [11], [12], [13], [32], [0xC2, 0x85], [0xC2, 0xA0], [0xE1, 0x9A, 0x80]] @
      map (\<lambda>n. [0xE2, 0x80, 0x80 + n]) [0..<11] @
      [[0xE2, 0x80, 0xA8], [0xE2, 0x80, 0xA9], [0xE2, 0x80, 0xAF], [0xE2, 0x81, 0x9F], [0xE3, 0x80, 0x80]])"

function trim_left :: "string list \<Rightarrow> string \<Rightarrow> string" where
  "trim_left seqs s =
     (case find (\<lambda>p. p \<noteq> [] \<and> prefix p s) seqs of
        None \<Rightarrow> s
      | Some p \<Rightarrow> trim_left seqs (drop (length p) s))"
  by pat_completeness auto
termination
  by (relation "measure (\<lambda>(seqs, s). length s)") (auto simp: find_Some_iff prefix_def)

declare trim_left.simps [simp del]

definition TrimSpace :: "string \<Rightarrow> string" where
  "TrimSpace s = rev (trim_left (map rev space_seqs) (rev (trim_left space_seqs s)))"

section \<open>strconv\<close>

definition err_Syntax :: go_error where "err_Syntax = EFmt (Sprintf ''invalid syntax'' [])"
definition err_Range :: go_error where "err_Range = EFmt (Sprintf ''value out of range'' [])"

definition NumError :: "string \<Rightarrow> string \<Rightarrow> go_error \<Rightarrow> go_error" where
  "NumError func num err = EWrap (Sprintf ''strconv.%s: parsing %q'' [AStr func, AStr num]) err"

definition ParseBool :: "string \<Rightarrow> go_error + bool" where
  "ParseBool s =
     (if s \<in> {''1'', ''t'', ''T'', ''true'', ''TRUE'', ''True''} then Inr True
      else if s \<in> {''0'', ''f'', ''F'', ''false'', ''FALSE'', ''False''} then Inr False
      else Inl (NumError ''ParseBool'' s err_Syntax))"

definition is_digit :: "char \<Rightarrow> bool" where
  "is_digit c \<longleftrightarrow> 48 \<le> (of_char c :: nat) \<and> (of_char c :: nat) \<le> 57"

definition digit_val :: "char \<Rightarrow> nat" where
  "digit_val c = of_char c - 48"

text \<open>The loop of \<open>ParseUint(s, 10, 64)\<close>: it stops at the first bad byte or overflow.\<close>

fun parse_digits :: "nat \<Rightarrow> string \<Rightarrow> go_error + nat" where
  "parse_digits n [] = Inr n"
| "parse_digits n (c # s) =
     (if \<not> is_digit c then Inl err_Syntax
      else if 10 * n + digit_val c \<ge> 2 ^ 64 then Inl err_Range
      else parse_digits (10 * n + digit_val c) s)"

definition ParseInt :: "string \<Rightarrow> go_error + int64" where
  "ParseInt s =
     (let neg = (s \<noteq> [] \<and> hd s = CHR ''-'');
          ds = (if s \<noteq> [] \<and> (hd s = CHR ''-'' \<or> hd s = CHR ''+'') then tl s else s)
      in if ds = [] then Inl (NumError ''ParseInt'' s err_Syntax)
         else (case parse_digits 0 ds of
                 Inl e \<Rightarrow> Inl (NumError ''ParseInt'' s e)
               | Inr n \<Rightarrow>
                   if \<not> neg \<and> n \<ge> 2 ^ 63 \<or> neg \<and> n > 2 ^ 63 then Inl (NumError ''ParseInt'' s err_Range)
                   else Inr (if neg then - of_nat n else of_nat n)))"

section \<open>Facts about the string functions\<close>

lemma Index_Some:
  "Index s sub = Some i \<Longrightarrow> i + length sub \<le> length s \<and> s = take i s @ sub @ drop (i + length sub) s"
proof (induction s arbitrary: i)
  case Nil
  then show ?case by (simp split: if_splits)
next
  case (Cons c s)
  show ?case
  proof (cases "prefix sub (c # s)")
    case True
    with Cons.prems have "i = 0" by simp
    moreover obtain zs where "c # s = sub @ zs" using True by (auto simp: prefix_def)
    ultimately show ?thesis by (metis add_0 append_eq_conv_conj append_Nil length_append le_add1 take0)
  next
    case False
    with Cons.prems obtain j where "i = Suc j" "Index s sub = Some j" by auto
    with Cons.IH [of j] show ?thesis by auto
  qed
qed

lemma Index_None_Cons: "Index (c # s) sub = None \<Longrightarrow> Index s sub = None"
  by (simp split: if_splits)

lemma Index_None_iff: "Index s sub = None \<longleftrightarrow> \<not> sublist sub s"
  by (induction s) (auto simp: sublist_Cons_right prefix_def)

lemma Contains_iff: "Contains s sub \<longleftrightarrow> sublist sub s"
  by (simp add: Contains_def Index_None_iff)

lemma Index_first: "Index s sub = Some i \<Longrightarrow> sub \<noteq> [] \<Longrightarrow> \<not> sublist sub (take (i + length sub - 1) s)"
proof (induction s arbitrary: i)
  case Nil
  then show ?case by simp
next
  case (Cons c s)
  show ?case
  proof (cases "prefix sub (c # s)")
    case True
    with Cons.prems have "i = 0" by simp
    moreover have "length (take (length sub - 1) (c # s)) < length sub" using Cons.prems(2) by (cases sub) auto
    ultimately show ?thesis using sublist_length_le by fastforce
  next
    case False
    with Cons.prems obtain j where j: "i = Suc j" "Index s sub = Some j" by auto
    obtain m where m: "j + length sub = Suc m" using Cons.prems(2) by (cases sub) auto
    have "\<not> sublist sub (take (j + length sub - 1) s)" using Cons.IH [OF j(2) Cons.prems(2)] .
    moreover have "\<not> prefix sub (c # take (j + length sub - 1) s)"
      using False by (metis append_take_drop_id prefix_append append_Cons)
    moreover have "take (i + length sub - 1) (c # s) = c # take (j + length sub - 1) s"
      using j(1) m by simp
    ultimately show ?thesis by (simp add: sublist_Cons_right)
  qed
qed

lemma Index_split:
  "sub \<noteq> [] \<Longrightarrow> Index s sub = Some i \<longleftrightarrow>
     (\<exists>l t. s = l @ sub @ t \<and> length l = i \<and> \<not> sublist sub (l @ butlast sub))"
  (is "_ \<Longrightarrow> _ \<longleftrightarrow> ?rhs")
proof
  assume sub: "sub \<noteq> []" and i: "Index s sub = Some i"
  have s: "i + length sub \<le> length s" "s = take i s @ sub @ drop (i + length sub) s" using Index_Some [OF i] by auto
  have "take (i + length sub - 1) s = take i s @ butlast sub"
  proof -
    obtain m where m: "length sub = Suc m" using sub by (cases sub) auto
    have "take (i + length sub - 1) s = take i s @ take m (drop i s)" using m by (simp add: take_add)
    also have "drop i s = sub @ drop (i + length sub) s" using s(1) by (metis s(2) append_eq_conv_conj length_take min_absorb2 add_leD1)
    also have "take m (sub @ drop (i + length sub) s) = butlast sub" using m by (simp add: butlast_conv_take)
    finally show ?thesis .
  qed
  then have "\<not> sublist sub (take i s @ butlast sub)" using Index_first [OF i sub] by simp
  then show ?rhs using s by (intro exI [of _ "take i s"] exI [of _ "drop (i + length sub) s"]) auto
next
  assume sub: "sub \<noteq> []" and ?rhs
  then obtain l t where s: "s = l @ sub @ t" "length l = i" and l: "\<not> sublist sub (l @ butlast sub)" by blast
  from l s(2) show "Index s sub = Some i" unfolding s(1)
  proof (induction l arbitrary: i)
    case Nil
    then show ?case using sub by (cases sub) auto
  next
    case (Cons c l)
    have "\<not> prefix sub (c # l @ sub @ t)"
    proof
      assume p: "prefix sub (c # l @ sub @ t)"
      have "length sub \<le> length (c # l @ butlast sub)" by simp
      moreover have "prefix (c # l @ butlast sub) (c # l @ sub @ t)"
        by (metis append_Cons append_assoc append_butlast_last_id prefix_def sub)
      ultimately have "prefix sub (c # l @ butlast sub)" using p prefix_length_prefix by blast
      with Cons.prems(1) show False by (simp add: prefix_imp_sublist)
    qed
    moreover have "Index (l @ sub @ t) sub = Some (length l)"
      using Cons.IH [of "length l"] Cons.prems(1) by (simp add: sublist_Cons_right)
    ultimately show ?case using Cons.prems(2) by simp
  qed
qed

lemma Split_not_Nil [simp]: "Split sep s \<noteq> []"
  by (induction s) (auto split: list.splits)

lemma join_Split: "join [sep] (Split sep s) = s"
proof (induction s)
  case Nil
  then show ?case by simp
next
  case (Cons c s)
  obtain x xs where x: "Split sep s = x # xs" by (cases "Split sep s") auto
  with Cons show ?case by (cases xs) auto
qed

lemma Split_no_sep: "x \<in> set (Split sep s) \<Longrightarrow> sep \<notin> set x"
  by (induction s arbitrary: x) (auto split: if_splits list.splits)

lemma Split_append: "sep \<notin> set x \<Longrightarrow> Split sep (x @ sep # s) = x # Split sep s"
  by (induction x) auto

lemma Split_single: "sep \<notin> set x \<Longrightarrow> Split sep x = [x]"
  by (induction x) auto

lemma Split_join: "xs \<noteq> [] \<Longrightarrow> \<forall>x\<in>set xs. sep \<notin> set x \<Longrightarrow> Split sep (join [sep] xs) = xs"
  by (induction "[sep]" xs rule: join.induct) (auto simp: Split_single Split_append)

lemma trim_left_suffix: "suffix (trim_left seqs s) s"
proof (induction seqs s rule: trim_left.induct)
  case (1 seqs s)
  show ?case
  proof (cases "find (\<lambda>p. p \<noteq> [] \<and> prefix p s) seqs")
    case None
    then show ?thesis by (simp add: trim_left.simps [of seqs s])
  next
    case (Some p)
    then show ?thesis using 1 [OF Some]
      by (simp add: trim_left.simps [of seqs s]) (meson suffix_drop suffix_order.trans)
  qed
qed

lemma trim_left_stops: "p \<in> set seqs \<Longrightarrow> p \<noteq> [] \<Longrightarrow> \<not> prefix p (trim_left seqs s)"
proof (induction seqs s rule: trim_left.induct)
  case (1 seqs s)
  show ?case
  proof (cases "find (\<lambda>p. p \<noteq> [] \<and> prefix p s) seqs")
    case None
    then show ?thesis using 1(2,3) by (simp add: trim_left.simps [of seqs s]) (auto simp: find_None_iff)
  next
    case (Some q)
    then show ?thesis using 1(1) [OF Some 1(2,3)] by (simp add: trim_left.simps [of seqs s])
  qed
qed

lemma trim_left_id:
  assumes "\<forall>p\<in>set seqs. p = [] \<or> \<not> prefix p s"
  shows "trim_left seqs s = s"
proof -
  have "find (\<lambda>p. p \<noteq> [] \<and> prefix p s) seqs = None" using assms by (auto simp: find_None_iff)
  then show ?thesis by (simp add: trim_left.simps [of seqs s])
qed

text \<open>Decimal numerals, as the specification of \<open>ParseInt\<close> reads them.\<close>

definition decimal :: "string \<Rightarrow> nat" where
  "decimal ds = foldl (\<lambda>n c. 10 * n + digit_val c) 0 ds"

lemma foldl_digits_mono: "n \<le> foldl (\<lambda>n c. 10 * n + digit_val c) n ds"
proof (induction ds arbitrary: n)
  case Nil
  then show ?case by simp
next
  case (Cons c ds)
  have "n \<le> 10 * n + digit_val c" by simp
  also have "\<dots> \<le> foldl (\<lambda>n c. 10 * n + digit_val c) (10 * n + digit_val c) ds" by (rule Cons.IH)
  finally show ?case by simp
qed

lemma parse_digits_Inr:
  "n < 2 ^ 64 \<Longrightarrow> parse_digits n ds = Inr m \<longleftrightarrow>
     (\<forall>c\<in>set ds. is_digit c) \<and> m = foldl (\<lambda>n c. 10 * n + digit_val c) n ds \<and> m < 2 ^ 64"
proof (induction ds arbitrary: n)
  case Nil
  then show ?case by auto
next
  case (Cons c ds)
  show ?case
  proof (cases "10 * n + digit_val c < 2 ^ 64")
    case True
    then show ?thesis using Cons.IH [OF True] by auto
  next
    case False
    moreover have "10 * n + digit_val c \<le> foldl (\<lambda>n c. 10 * n + digit_val c) n (c # ds)"
      using foldl_digits_mono [of "10 * n + digit_val c" ds] by simp
    ultimately show ?thesis by auto
  qed
qed

lemma sint_inj: "sint v = sint w \<Longrightarrow> v = (w :: int64)"
  by (rule signed_word_eqI)

lemma of_nat_word_sint: "m < 2 ^ 63 \<Longrightarrow> sint (of_nat m :: int64) = int m"
  by (simp add: signed_of_nat signed_take_bit_int_eq_self)

lemma of_nat_word_sint_neg: "m \<le> 2 ^ 63 \<Longrightarrow> sint (- of_nat m :: int64) = - int m"
proof -
  assume m: "m \<le> 2 ^ 63"
  have "sint (- of_nat m :: int64) = sint (word_of_int (- int m) :: int64)" by simp
  also have "\<dots> = signed_take_bit 63 (- int m)" by (simp only: sint_sbintrunc' signed_of_int) simp
  also have "\<dots> = - int m" by (rule signed_take_bit_int_eq_self) (use m in simp_all)
  finally show ?thesis .
qed

lemma ParseInt_Inr:
  "ParseInt s = Inr n \<longleftrightarrow>
     (\<exists>sgn ds. s = sgn @ ds \<and> sgn \<in> {'''', ''+'', ''-''} \<and> ds \<noteq> [] \<and> (\<forall>c\<in>set ds. is_digit c) \<and>
        sint n = (if sgn = ''-'' then - int (decimal ds) else int (decimal ds)))"
  (is "_ \<longleftrightarrow> ?rhs")
proof
  assume p: "ParseInt s = Inr n"
  define sgn where "sgn = (if s \<noteq> [] \<and> (hd s = CHR ''-'' \<or> hd s = CHR ''+'') then [hd s] else [])"
  define ds where "ds = (if s \<noteq> [] \<and> (hd s = CHR ''-'' \<or> hd s = CHR ''+'') then tl s else s)"
  have s: "s = sgn @ ds" "sgn \<in> {'''', ''+'', ''-''}" by (auto simp: sgn_def ds_def)
  have neg: "(s \<noteq> [] \<and> hd s = CHR ''-'') \<longleftrightarrow> sgn = ''-''" by (auto simp: sgn_def)
  from p obtain m where m: "ds \<noteq> []" "parse_digits 0 ds = Inr m"
      "if sgn = ''-'' then m \<le> 2 ^ 63 \<and> n = - of_nat m else m < 2 ^ 63 \<and> n = of_nat m"
    unfolding ParseInt_def Let_def ds_def [symmetric] neg
    by (cases "parse_digits 0 ds") (auto split: if_splits)
  then have "\<forall>c\<in>set ds. is_digit c" "m = decimal ds" by (simp_all add: parse_digits_Inr decimal_def)
  moreover have "sint n = (if sgn = ''-'' then - int m else int m)"
    using m(3) by (auto simp: of_nat_word_sint of_nat_word_sint_neg split: if_splits)
  ultimately show ?rhs using s m(1) by blast
next
  assume ?rhs
  then obtain sgn ds where s: "s = sgn @ ds" "sgn \<in> {'''', ''+'', ''-''}" "ds \<noteq> []" and d: "\<forall>c\<in>set ds. is_digit c"
      and n: "sint n = (if sgn = ''-'' then - int (decimal ds) else int (decimal ds))" by blast
  have hd_ds: "hd ds \<noteq> CHR ''-''" "hd ds \<noteq> CHR ''+''"
    using d s(3) by (auto simp: is_digit_def neq_Nil_conv)
  have b: "if sgn = ''-'' then decimal ds \<le> 2 ^ 63 else decimal ds < 2 ^ 63"
    using n sint_lt [of n] sint_ge [of n] by (auto split: if_splits)
  then have "parse_digits 0 ds = Inr (decimal ds)"
    using d by (auto simp: parse_digits_Inr decimal_def split: if_splits)
  moreover have "n = (if sgn = ''-'' then - of_nat (decimal ds) else of_nat (decimal ds))"
    using n b by (intro sint_inj) (auto simp: of_nat_word_sint of_nat_word_sint_neg split: if_splits)
  ultimately show "ParseInt s = Inr n"
    using s hd_ds b by (auto simp: ParseInt_def Let_def)
qed

section \<open>Sound constructors\<close>

text \<open>
  A table that has the domain types registered, and a constructor every one of whose nodes
  is sound over registered types: what \<open>sound_nodes\<close> asks of each definition of a registry.
\<close>

definition has_domain :: "type_table \<Rightarrow> bool" where
  "has_domain tt \<longleftrightarrow> (\<forall>t\<in>fst ` set domain_types. registered tt t)"

definition sound_new :: "type_table \<Rightarrow> ('c, 'w) NodeNew \<Rightarrow> bool" where
  "sound_new tt new \<longleftrightarrow>
     (\<forall>cfg n. new cfg = Inr (Some n) \<longrightarrow>
        (\<exists>Is O'. node_sound tt Is O' n \<and> (\<forall>t\<in>set (O' # Is). registered tt t)))"

lemma has_domain_table: "has_domain domain_table"
  by (auto simp: has_domain_def registered_def domain_table_byType domain_types_def)

lemma has_domainD [simp]:
  assumes "has_domain tt"
  shows "registered tt tBytes" "registered tt tText" "registered tt tBool" "registered tt tInt"
    "registered tt tTime" "registered tt tDocument" "registered tt tRequest" "registered tt tResponse"
    "registered tt tCommand" "registered tt tCommandResult"
  using assms by (simp_all add: has_domain_def domain_types_def)

lemma typed_call_simps [simp, node_simps]:
  "typed_call O' (Returns (Ok p)) \<longleftrightarrow> dyn_type p = O' \<and> proper p"
  "typed_call O' (Returns (Fail e)) \<longleftrightarrow> \<not> engine_error e"
  "typed_call O' (Panics s)"
  by (simp_all add: typed_call_def Ok_def Fail_def)

lemma engine_error_Errf [simp, node_simps]:
  "engine_error (Errf k c f as) \<longleftrightarrow> k = KindInternal \<and> c \<in> {''type_mismatch'', ''arity_mismatch''}"
  "engine_error (Wrap e k c f as) \<longleftrightarrow> k = KindInternal \<and> c \<in> {''type_mismatch'', ''arity_mismatch''}"
  by (simp_all add: engine_error_def)

lemma NewSource_sound:
  "\<forall>w ec. typed_call O' (fn w ec) \<Longrightarrow> node_sound tt [] O' (NewSource tt O' name fn)"
  using source_nodes.sound [of "(tt, O', name, fn)"] by simp

lemma NewTypedNode_sound:
  "\<forall>w ec x. dyn_type x = I \<longrightarrow> typed_call O' (fn w ec x) \<Longrightarrow> node_sound tt [I] O' (NewTypedNode tt I O' name fn)"
  using typed_nodes.sound [of "(tt, I, O', name, fn)"] by simp

lemma NewTypedNode2_sound:
  "\<forall>w ec x y. dyn_type x = I1 \<longrightarrow> dyn_type y = I2 \<longrightarrow> typed_call O' (fn w ec x y) \<Longrightarrow>
   node_sound tt [I1, I2] O' (NewTypedNode2 tt I1 I2 O' name fn)"
  using typed_nodes2.sound [of "(tt, I1, I2, O', name, fn)"] by simp

lemma NewTypedNodeN_sound:
  "\<forall>w ec xs. (\<forall>x\<in>set xs. dyn_type x = I) \<longrightarrow> length xs = length ports \<longrightarrow> typed_call O' (fn w ec xs) \<Longrightarrow>
   node_sound tt (replicate (length ports) I) O' (NewTypedNodeN tt I O' name ports fn)"
  using typed_nodesN.sound [of "(tt, I, O', name, ports, fn)"] by simp

lemma sound_newI:
  assumes "\<And>cfg n. new cfg = Inr (Some n) \<Longrightarrow> \<exists>Is O'. node_sound tt Is O' n \<and> (\<forall>t\<in>set (O' # Is). registered tt t)"
  shows "sound_new tt new"
  using assms by (simp add: sound_new_def)

lemma sound_newD:
  "sound_new tt new \<Longrightarrow> new cfg = Inr (Some n) \<Longrightarrow>
   \<exists>Is O'. node_sound tt Is O' n \<and> (\<forall>t\<in>set (O' # Is). registered tt t)"
  by (simp add: sound_new_def)

lemma typed_new:
  "node_sound tt [] O' n \<Longrightarrow> registered tt O' \<Longrightarrow>
   \<exists>Is O'. node_sound tt Is O' n \<and> (\<forall>t\<in>set (O' # Is). registered tt t)"
  "node_sound tt [I] O' n \<Longrightarrow> registered tt I \<Longrightarrow> registered tt O' \<Longrightarrow>
   \<exists>Is O'. node_sound tt Is O' n \<and> (\<forall>t\<in>set (O' # Is). registered tt t)"
  "node_sound tt [I, J] O' n \<Longrightarrow> registered tt I \<Longrightarrow> registered tt J \<Longrightarrow> registered tt O' \<Longrightarrow>
   \<exists>Is O'. node_sound tt Is O' n \<and> (\<forall>t\<in>set (O' # Is). registered tt t)"
  by (force intro: exI [of _ "[]"] exI [of _ O'], force intro: exI [of _ "[I]"] exI [of _ O'],
      force intro: exI [of _ "[I, J]"] exI [of _ O'])

lemma Static_new_sound:
  assumes "node_sound tt Is O' n" "\<forall>t\<in>set (O' # Is). registered tt t" "def_New (Static decode name n) = Some new"
  shows "sound_new tt new"
proof (rule sound_newI)
  fix cfg m assume "new cfg = Inr (Some m)"
  with assms(3) have "m = n" by (auto simp: Static_def split: option.splits)
  with assms(1,2) show "\<exists>Is O'. node_sound tt Is O' m \<and> (\<forall>t\<in>set (O' # Is). registered tt t)" by blast
qed

lemma Extractor_new_sound:
  assumes "\<And>x. dyn_type x = I \<Longrightarrow> typed_call O' (read x)" "registered tt I" "registered tt O'"
    and "def_New (Extractor tt decode I O' name read) = Some new"
  shows "sound_new tt new"
  by (rule Static_new_sound [OF NewTypedNode_sound _ assms(4) [unfolded Extractor_def]]) (simp_all add: assms)

section \<open>Running an adapted node\<close>

lemma NewTypedNode_run:
  "dyn_type p = I \<Longrightarrow> rn_Execute (NewTypedNode tt I O' name fn) w ec [NewValue tt p] =
     map_call (erase (TypeOf tt O')) (fn w ec p)"
  by (simp add: NewTypedNode_def Let_def typedNode_Execute_def assert_ref_def NewValue_def)

lemma erase_simps [simp]:
  "erase t (Ok p) = \<lparr>rv_Value = \<lparr>v_typ = t, v_ref = Some p\<rparr>, rv_Err = None, rv_Meta = zero_meta\<rparr>"
  "erase t (Fail e) = \<lparr>rv_Value = zero_value, rv_Err = Some e, rv_Meta = zero_meta\<rparr>"
  by (simp_all add: erase_def Ok_def Fail_def)

end
