(* ===== verification/Nodes_Data.thy ===== *)
theory Nodes_Data
  imports Node_Kit
begin

text \<open>
  The nodes that produce text and constants: \<open>value\<close> (\<^verbatim>\<open>internal/nodes/value/value.go\<close>),
  \<open>env.get\<close> (\<^verbatim>\<open>internal/nodes/env/env.go\<close>) and \<open>text.format\<close>
  (\<^verbatim>\<open>internal/nodes/text/format.go\<close>). A constructor takes the decoder of its config struct;
  \<open>lookupEnv\<close> is what \<open>os.LookupEnv\<close> answers in the world of one call. A Go string and the
  byte slice of it are both byte lists, so \<open>[]byte(s)\<close> is \<open>s\<close>.
\<close>

section \<open>value\<close>

record value_config =
  vc_Type :: string
  vc_Value :: "yaml_node option"

definition value_acceptedTypes :: string where
  "value_acceptedTypes = ''Bytes, Text, Bool, Int''"

definition decodeLiteral :: "(go_error + 'a) \<Rightarrow> string \<Rightarrow> go_error + 'a" where
  "decodeLiteral decoded typeName =
     (case decoded of
        Inl err \<Rightarrow> Inl (ENode (Wrap err KindInvalidInput ''bad_literal'' ''value is not a valid %s'' [AStr typeName]))
      | Inr v \<Rightarrow> Inr v)"

definition value_constant :: "type_table \<Rightarrow> payload \<Rightarrow> 'w RuntimeNode" where
  "value_constant tt v = NewSource tt (dyn_type v) ''value'' (\<lambda>_ _. Returns (Ok v))"

definition value_newNode ::
  "type_table \<Rightarrow> ('c \<Rightarrow> go_error + value_config) \<Rightarrow> ('c, 'w) NodeNew" where
  "value_newNode tt decode cfg =
     (case decode cfg of
        Inl err \<Rightarrow> Inl err
      | Inr c \<Rightarrow>
          (case vc_Value c of
             None \<Rightarrow> Inl (ENode (Errf KindInvalidInput ''missing_value'' ''value node requires a value'' []))
           | Some v \<Rightarrow>
               if vc_Type c = ''Bytes'' then
                 (case decodeLiteral (yn_Decode_string v) (vc_Type c) of
                    Inl err \<Rightarrow> Inl err | Inr s \<Rightarrow> Inr (Some (value_constant tt (PBytes s))))
               else if vc_Type c = ''Text'' then
                 (case decodeLiteral (yn_Decode_string v) (vc_Type c) of
                    Inl err \<Rightarrow> Inl err | Inr s \<Rightarrow> Inr (Some (value_constant tt (PText s))))
               else if vc_Type c = ''Bool'' then
                 (case decodeLiteral (yn_Decode_bool v) (vc_Type c) of
                    Inl err \<Rightarrow> Inl err | Inr b \<Rightarrow> Inr (Some (value_constant tt (PBool b))))
               else if vc_Type c = ''Int'' then
                 (case decodeLiteral (yn_Decode_int64 v) (vc_Type c) of
                    Inl err \<Rightarrow> Inl err | Inr n \<Rightarrow> Inr (Some (value_constant tt (PInt n))))
               else if vc_Type c = '''' then
                 Inl (ENode (Errf KindInvalidInput ''missing_type''
                        ''value node requires a type (one of: %s)'' [AStr value_acceptedTypes]))
               else
                 Inl (ENode (Errf KindInvalidInput ''unknown_type''
                        ''unknown value type %q (accepted: %s)'' [AStr (vc_Type c), AStr value_acceptedTypes]))))"

definition value_Definition ::
  "type_table \<Rightarrow> ('c \<Rightarrow> go_error + value_config) \<Rightarrow> ('c, 'w) NodeNew Definition" where
  "value_Definition tt decode = \<lparr>def_Name = ''value'', def_New = Some (value_newNode tt decode)\<rparr>"

section \<open>env.get\<close>

definition env_Name :: string where "env_Name = ''env.get''"
definition env_acceptedTypes :: string where "env_acceptedTypes = ''Text, Bytes, Bool, Int''"

record env_config =
  evc_Name :: string
  evc_As :: string
  evc_Default :: "string option"

definition parseText :: "string \<Rightarrow> node_error + payload" where
  "parseText s = Inr (PText s)"

definition parseBytes :: "string \<Rightarrow> node_error + payload" where
  "parseBytes s = Inr (PBytes s)"

definition parseBool :: "string \<Rightarrow> node_error + payload" where
  "parseBool s =
     (case ParseBool s of
        Inl err \<Rightarrow> Inl (Wrap err KindPermanent ''bad_value''
            ''as: Bool wants a boolean such as \"true\", but the value is %q'' [AStr s])
      | Inr b \<Rightarrow> Inr (PBool b))"

definition parseInt :: "string \<Rightarrow> node_error + payload" where
  "parseInt s =
     (case ParseInt s of
        Inl err \<Rightarrow> Inl (Wrap err KindPermanent ''bad_value''
            ''as: Int wants a whole number, but the value is %q'' [AStr s])
      | Inr n \<Rightarrow> Inr (PInt n))"

definition env_read ::
  "('w \<Rightarrow> string \<Rightarrow> string option) \<Rightarrow> string \<Rightarrow> payload option \<Rightarrow> (string \<Rightarrow> node_error + payload) \<Rightarrow>
   'w \<Rightarrow> ExecutionContext \<Rightarrow> Result call" where
  "env_read lookupEnv name fallback parse w ec =
     Returns
       (case lookupEnv w name of
          None \<Rightarrow>
            (case fallback of
               Some v \<Rightarrow> Ok v
             | None \<Rightarrow> Fail (Errf KindPermanent ''env_absent''
                 ''environment variable %q is not set, and no default is configured'' [AStr name]))
        | Some raw \<Rightarrow> (case parse raw of Inl err \<Rightarrow> Fail err | Inr v \<Rightarrow> Ok v))"

definition env_source ::
  "type_table \<Rightarrow> ('w \<Rightarrow> string \<Rightarrow> string option) \<Rightarrow> gotype \<Rightarrow> env_config \<Rightarrow> (string \<Rightarrow> node_error + payload) \<Rightarrow>
   go_error + 'w RuntimeNode option" where
  "env_source tt lookupEnv P c parse =
     (case (case evc_Default c of
              None \<Rightarrow> Inr None
            | Some d \<Rightarrow>
                (case parse d of
                   Inl err \<Rightarrow> Inl (ENode (Errf KindInvalidInput ''bad_default'' ''default %q is invalid: %s''
                                [AStr d, AMsg (err_Message err)]))
                 | Inr v \<Rightarrow> Inr (Some v))) of
        Inl err \<Rightarrow> Inl err
      | Inr fallback \<Rightarrow>
          Inr (Some (NewSource tt P env_Name (env_read lookupEnv (evc_Name c) fallback parse))))"

definition env_newNode ::
  "type_table \<Rightarrow> ('w \<Rightarrow> string \<Rightarrow> string option) \<Rightarrow> ('c \<Rightarrow> go_error + env_config) \<Rightarrow> ('c, 'w) NodeNew" where
  "env_newNode tt lookupEnv decode cfg =
     (case decode cfg of
        Inl err \<Rightarrow> Inl (ENode (Wrap err KindInvalidInput ''bad_config'' ''invalid %s configuration'' [AStr env_Name]))
      | Inr c \<Rightarrow>
          if evc_Name c = '''' then
            Inl (ENode (Errf KindInvalidInput ''missing_name''
                   ''%s requires a name: the environment variable to read'' [AStr env_Name]))
          else if evc_As c = ''Text'' then env_source tt lookupEnv tText c parseText
          else if evc_As c = ''Bytes'' then env_source tt lookupEnv tBytes c parseBytes
          else if evc_As c = ''Bool'' then env_source tt lookupEnv tBool c parseBool
          else if evc_As c = ''Int'' then env_source tt lookupEnv tInt c parseInt
          else if evc_As c = '''' then
            Inl (ENode (Errf KindInvalidInput ''missing_type''
                   ''%s requires an \"as\" naming the type to produce (one of: %s)''
                   [AStr env_Name, AStr env_acceptedTypes]))
          else
            Inl (ENode (Errf KindInvalidInput ''unknown_type'' ''unknown type %q for %s (accepted: %s)''
                   [AStr (evc_As c), AStr env_Name, AStr env_acceptedTypes])))"

definition env_Definition ::
  "type_table \<Rightarrow> ('w \<Rightarrow> string \<Rightarrow> string option) \<Rightarrow> ('c \<Rightarrow> go_error + env_config) \<Rightarrow> ('c, 'w) NodeNew Definition" where
  "env_Definition tt lookupEnv decode =
     \<lparr>def_Name = env_Name, def_New = Some (env_newNode tt lookupEnv decode)\<rparr>"

section \<open>text.format\<close>

definition FormatName :: string where "FormatName = ''text.format''"
definition openTag :: string where "openTag = ''{{''"
definition closeTag :: string where "closeTag = ''}}''"

record segment =
  sg_literal :: string
  sg_port :: int

definition validName :: "string \<Rightarrow> string \<Rightarrow> node_error option" where
  "validName name template =
     (if name = '''' then
        Some (Errf KindInvalidInput ''bad_template'' ''%s has an empty placeholder in template %q''
                [AStr FormatName, AStr template])
      else if ContainsAny name [CHR '' '', CHR 0x09, CHR 0x0A] then
        Some (Errf KindInvalidInput ''bad_template''
                ''%s placeholder %q contains whitespace, which cannot be a port name'' [AStr FormatName, AStr name])
      else if Contains name openTag then
        Some (Errf KindInvalidInput ''bad_template''
                ''%s placeholder %q contains %s, so a placeholder was left unclosed''
                [AStr FormatName, AStr name, AStr openTag])
      else None)"

text \<open>The loop of \<open>parse\<close>, with its four variables.\<close>

function parse_from ::
  "string \<Rightarrow> segment list \<Rightarrow> string list \<Rightarrow> nat gomap \<Rightarrow> string \<Rightarrow> node_error + (segment list \<times> string list)" where
  "parse_from template segments ports index rest =
     (case Index rest openTag of
        None \<Rightarrow>
          Inr (if rest \<noteq> '''' then segments @ [\<lparr>sg_literal = rest, sg_port = -1\<rparr>] else segments, ports)
      | Some start \<Rightarrow>
          let segments1 = (if start > 0 then segments @ [\<lparr>sg_literal = take start rest, sg_port = -1\<rparr>] else segments);
              rest1 = drop (start + length openTag) rest
          in (case Index rest1 closeTag of
                None \<Rightarrow> Inl (Errf KindInvalidInput ''bad_template'' ''%s has an unclosed %s in template %q''
                              [AStr FormatName, AStr openTag, AStr template])
              | Some close \<Rightarrow>
                  let name = TrimSpace (take close rest1) in
                  (case validName name template of
                     Some err \<Rightarrow> Inl err
                   | None \<Rightarrow>
                       let (port, index1, ports1) =
                             (case map_of index name of
                                Some port \<Rightarrow> (port, index, ports)
                              | None \<Rightarrow> (length ports, put name (length ports) index, ports @ [name]))
                       in parse_from template (segments1 @ [\<lparr>sg_literal = '''', sg_port = int port\<rparr>])
                            ports1 index1 (drop (close + length closeTag) rest1))))"
  by pat_completeness auto
termination
proof (relation "measure (\<lambda>(template, segments, ports, index, rest). length rest)", goal_cases)
  case 1
  then show ?case by simp
next
  case (2 template segments ports index rest start segs1 rest1 close)
  then have "start + length openTag \<le> length rest" using Index_Some by blast
  then have "length rest - (start + length openTag) < length rest" by (simp add: openTag_def)
  then show ?case using 2 by simp
qed

declare parse_from.simps [simp del]

definition parse_template :: "string \<Rightarrow> node_error + (segment list \<times> string list)" where
  "parse_template template = parse_from template [] [] [] template"

fun render_segments :: "segment list \<Rightarrow> payload list \<Rightarrow> string call" where
  "render_segments [] ins = Returns ''''"
| "render_segments (s # ss) ins =
     (let piece =
            (if sg_port s < 0 then Returns (sg_literal s)
             else if nat (sg_port s) \<ge> length ins then Panics ''index out of range''
             else (case ins ! nat (sg_port s) of PText v \<Rightarrow> Returns v | _ \<Rightarrow> nil_deref))
      in case piece of
           Panics e \<Rightarrow> Panics e
         | Returns v \<Rightarrow> map_call (\<lambda>r. v @ r) (render_segments ss ins))"

definition newFormat :: "type_table \<Rightarrow> ('c \<Rightarrow> go_error + string) \<Rightarrow> ('c, 'w) NodeNew" where
  "newFormat tt decode cfg =
     (case decode cfg of
        Inl err \<Rightarrow> Inl (ENode (Wrap err KindInvalidInput ''bad_config'' ''invalid %s configuration'' [AStr FormatName]))
      | Inr template \<Rightarrow>
          if template = '''' then
            Inl (ENode (Errf KindInvalidInput ''missing_template'' ''%s requires a template'' [AStr FormatName]))
          else
            (case parse_template template of
               Inl err \<Rightarrow> Inl (ENode err)
             | Inr (segments, ports) \<Rightarrow>
                 Inr (Some (NewTypedNodeN tt tText tText FormatName ports
                   (\<lambda>_ _ ins. map_call (\<lambda>s. Ok (PText s)) (render_segments segments ins))))))"

definition FormatDefinition :: "type_table \<Rightarrow> ('c \<Rightarrow> go_error + string) \<Rightarrow> ('c, 'w) NodeNew Definition" where
  "FormatDefinition tt decode = \<lparr>def_Name = FormatName, def_New = Some (newFormat tt decode)\<rparr>"

section \<open>The constructors are sound\<close>

definition typed_parse :: "gotype \<Rightarrow> ('a \<Rightarrow> node_error + payload) \<Rightarrow> bool" where
  "typed_parse P f \<longleftrightarrow>
     (\<forall>s. case f s of Inl e \<Rightarrow> \<not> engine_error e | Inr v \<Rightarrow> dyn_type v = P \<and> proper v)"

lemma typed_parses:
  "typed_parse tText parseText" "typed_parse tBytes parseBytes"
  "typed_parse tBool parseBool" "typed_parse tInt parseInt"
  by (simp_all add: typed_parse_def parseText_def parseBytes_def parseBool_def parseInt_def split: sum.split)

lemma value_constant_sound:
  "proper v \<Longrightarrow> node_sound tt [] (dyn_type v) (value_constant tt v)"
  by (simp add: value_constant_def NewSource_sound)

lemma value_constant_new:
  assumes "proper v" "registered tt (dyn_type v)"
  shows "\<exists>Is O'. node_sound tt Is O' (value_constant tt v) \<and> (\<forall>t\<in>set (O' # Is). registered tt t)"
  using value_constant_sound [OF assms(1)] assms(2)
  by (intro exI [of _ "[]"] exI [of _ "dyn_type v"]) simp

lemma decodeLiteral_Inr [simp]: "decodeLiteral d ty = Inr v \<longleftrightarrow> d = Inr v"
  by (auto simp: decodeLiteral_def split: sum.splits)

lemma value_newNode_Inr:
  assumes "value_newNode tt decode cfg = Inr (Some n)"
  obtains c y where "decode cfg = Inr c" "vc_Value c = Some y"
    "(\<exists>s. vc_Type c = ''Bytes'' \<and> yn_Decode_string y = Inr s \<and> n = value_constant tt (PBytes s)) \<or>
     (\<exists>s. vc_Type c = ''Text'' \<and> yn_Decode_string y = Inr s \<and> n = value_constant tt (PText s)) \<or>
     (\<exists>b. vc_Type c = ''Bool'' \<and> yn_Decode_bool y = Inr b \<and> n = value_constant tt (PBool b)) \<or>
     (\<exists>i. vc_Type c = ''Int'' \<and> yn_Decode_int64 y = Inr i \<and> n = value_constant tt (PInt i))"
proof -
  from assms obtain c y where c: "decode cfg = Inr c" "vc_Value c = Some y"
    unfolding value_newNode_def by (simp split: sum.splits option.splits)
  show ?thesis
    by (rule that [OF c], use assms c in \<open>simp add: value_newNode_def split: if_splits sum.splits\<close>)
qed

lemma value_newNode_sound:
  assumes "has_domain tt"
  shows "sound_new tt (value_newNode tt decode)"
proof (rule sound_newI)
  fix cfg n assume "value_newNode tt decode cfg = Inr (Some n)"
  then show "\<exists>Is O'. node_sound tt Is O' n \<and> (\<forall>t\<in>set (O' # Is). registered tt t)"
    by (rule value_newNode_Inr) (elim disjE exE conjE; hypsubst; rule value_constant_new; simp add: assms)
qed

lemma env_read_typed:
  assumes "typed_parse P parse" "\<And>v. fallback = Some v \<Longrightarrow> dyn_type v = P \<and> proper v"
  shows "typed_call P (env_read lookupEnv name fallback parse w ec)"
proof (cases "lookupEnv w name")
  case None
  then show ?thesis using assms(2) by (cases fallback) (simp_all add: env_read_def)
next
  case (Some raw)
  then show ?thesis using assms(1) [unfolded typed_parse_def, rule_format, of raw]
    by (cases "parse raw") (simp_all add: env_read_def)
qed

lemma env_source_Inr:
  "env_source tt lookupEnv P c parse = Inr (Some n) \<longleftrightarrow>
     (\<exists>fallback. n = NewSource tt P env_Name (env_read lookupEnv (evc_Name c) fallback parse) \<and>
        (case evc_Default c of None \<Rightarrow> fallback = None
         | Some d \<Rightarrow> \<exists>v. parse d = Inr v \<and> fallback = Some v))"
proof (cases "evc_Default c")
  case None
  then show ?thesis by (auto simp: env_source_def)
next
  case (Some d)
  then show ?thesis by (cases "parse d") (auto simp: env_source_def)
qed

lemma env_source_sound:
  assumes "env_source tt lookupEnv P c parse = Inr (Some n)" "typed_parse P parse"
  shows "node_sound tt [] P n"
proof -
  from assms(1) obtain fallback where
    n: "n = NewSource tt P env_Name (env_read lookupEnv (evc_Name c) fallback parse)"
    and f: "case evc_Default c of None \<Rightarrow> fallback = None | Some d \<Rightarrow> \<exists>v. parse d = Inr v \<and> fallback = Some v"
    unfolding env_source_Inr by blast
  have "dyn_type v = P \<and> proper v" if v: "fallback = Some v" for v
  proof -
    from f v obtain d where "parse d = Inr v" by (auto split: option.splits)
    with assms(2) [unfolded typed_parse_def, rule_format, of d] show ?thesis by simp
  qed
  then show ?thesis unfolding n using assms(2) by (intro NewSource_sound) (blast intro: env_read_typed)
qed

lemma env_newNode_Inr:
  assumes "env_newNode tt lookupEnv decode cfg = Inr (Some n)"
  obtains c P parse where "decode cfg = Inr c" "env_source tt lookupEnv P c parse = Inr (Some n)"
    "evc_Name c \<noteq> ''''"
    "(evc_As c, P, parse) \<in> {(''Text'', tText, parseText), (''Bytes'', tBytes, parseBytes),
       (''Bool'', tBool, parseBool), (''Int'', tInt, parseInt)}"
proof -
  from assms obtain c where c: "decode cfg = Inr c" by (simp add: env_newNode_def split: sum.splits)
  note e = assms [unfolded env_newNode_def c sum.case]
  have "evc_Name c \<noteq> ''''" using e by (auto split: if_splits)
  with e c show ?thesis using that by (simp split: if_splits)
qed

lemma env_newNode_sound:
  assumes "has_domain tt"
  shows "sound_new tt (env_newNode tt lookupEnv decode)"
proof (rule sound_newI)
  fix cfg n assume "env_newNode tt lookupEnv decode cfg = Inr (Some n)"
  then obtain c P parse where e: "env_source tt lookupEnv P c parse = Inr (Some n)"
      "(evc_As c, P, parse) \<in> {(''Text'', tText, parseText), (''Bytes'', tBytes, parseBytes),
       (''Bool'', tBool, parseBool), (''Int'', tInt, parseInt)}"
    by (rule env_newNode_Inr)
  then have "typed_parse P parse" "registered tt P" using typed_parses assms by auto
  with env_source_sound [OF e(1)] show "\<exists>Is O'. node_sound tt Is O' n \<and> (\<forall>t\<in>set (O' # Is). registered tt t)"
    by (intro exI [of _ "[]"] exI [of _ P]) simp
qed

text \<open>
  The same-parser rule of \<open>source\<close>: a default is accepted exactly when the variable holding
  that text would be, and gives the same value.
\<close>

lemma env_source_default:
  assumes "env_source tt lookupEnv P c parse = Inr (Some n)" "evc_Default c = Some d"
    and "lookupEnv w (evc_Name c) = None" "lookupEnv w' (evc_Name c) = Some d"
  shows "rn_Execute n w ec [] = rn_Execute n w' ec []"
  using assms by (auto simp: env_source_Inr NewSource_def Let_def sourceNode_Execute_def env_read_def)

lemma newFormat_sound:
  assumes "has_domain tt"
  shows "sound_new tt (newFormat tt decode)"
proof (rule sound_newI)
  fix cfg n assume "newFormat tt decode cfg = Inr (Some n)"
  then obtain segments ports where n: "n = NewTypedNodeN tt tText tText FormatName ports
      (\<lambda>_ _ ins. map_call (\<lambda>s. Ok (PText s)) (render_segments segments ins))"
    unfolding newFormat_def by (auto split: sum.splits if_splits)
  have "typed_call tText (map_call (\<lambda>s. Ok (PText s)) (render_segments segments ins))" for ins
    by (cases "render_segments segments ins") simp_all
  then have "node_sound tt (replicate (length ports) tText) tText n" unfolding n by (intro NewTypedNodeN_sound) simp
  with assms show "\<exists>Is O'. node_sound tt Is O' n \<and> (\<forall>t\<in>set (O' # Is). registered tt t)"
    by (intro exI [of _ "replicate (length ports) tText"] exI [of _ tText]) simp
qed

section \<open>What a template means\<close>

text \<open>
  A template reads as literal pieces and placeholders. \<open>canonical\<close> says which readings are
  unambiguous: literals are maximal and non-empty and do not run into an opening tag, a
  placeholder ends at the first closing tag and its trimmed name is usable as a port name.
\<close>

datatype piece = Lit string | Hole string

fun piece_text :: "piece \<Rightarrow> string" where
  "piece_text (Lit l) = l"
| "piece_text (Hole raw) = openTag @ raw @ closeTag"

fun fill :: "(string \<Rightarrow> string) \<Rightarrow> piece \<Rightarrow> string" where
  "fill env (Lit l) = l"
| "fill env (Hole raw) = env (TrimSpace raw)"

definition port_name :: "string \<Rightarrow> bool" where
  "port_name name \<longleftrightarrow>
     name \<noteq> '''' \<and> set name \<inter> {CHR '' '', CHR 0x09, CHR 0x0A} = {} \<and> \<not> sublist openTag name"

fun canonical :: "piece list \<Rightarrow> bool" where
  "canonical [] \<longleftrightarrow> True"
| "canonical [Lit l] \<longleftrightarrow> l \<noteq> [] \<and> \<not> sublist openTag l"
| "canonical (Lit l # Hole raw # ps) \<longleftrightarrow>
     l \<noteq> [] \<and> \<not> sublist openTag (l @ butlast openTag) \<and> canonical (Hole raw # ps)"
| "canonical (Lit _ # Lit _ # _) \<longleftrightarrow> False"
| "canonical (Hole raw # ps) \<longleftrightarrow>
     \<not> sublist closeTag (raw @ butlast closeTag) \<and> port_name (TrimSpace raw) \<and> canonical ps"

definition add_port :: "string list \<Rightarrow> piece \<Rightarrow> string list" where
  "add_port ports p =
     (case p of Lit _ \<Rightarrow> ports
      | Hole raw \<Rightarrow> if TrimSpace raw \<in> set ports then ports else ports @ [TrimSpace raw])"

abbreviation ports_from :: "string list \<Rightarrow> piece list \<Rightarrow> string list" where
  "ports_from ports ps \<equiv> foldl add_port ports ps"

definition position :: "string list \<Rightarrow> string \<Rightarrow> nat" where
  "position xs x = length (takeWhile (\<lambda>y. y \<noteq> x) xs)"

fun segment_of :: "string list \<Rightarrow> piece \<Rightarrow> segment" where
  "segment_of ports (Lit l) = \<lparr>sg_literal = l, sg_port = -1\<rparr>"
| "segment_of ports (Hole raw) = \<lparr>sg_literal = '''', sg_port = int (position ports (TrimSpace raw))\<rparr>"

lemma validName_None: "validName name template = None \<longleftrightarrow> port_name name"
  by (auto simp: validName_def port_name_def ContainsAny_def Contains_iff list_ex_iff)

lemma position_append: "x \<in> set xs \<Longrightarrow> position (xs @ ys) x = position xs x"
  unfolding position_def by (simp add: takeWhile_append1)

lemma position_fresh: "x \<notin> set xs \<Longrightarrow> position (xs @ x # ys) x = length xs"
  unfolding position_def by (induction xs) auto

lemma position_nth: "x \<in> set xs \<Longrightarrow> position xs x < length xs \<and> xs ! position xs x = x"
  unfolding position_def by (induction xs) auto

lemma ports_from_extends: "\<exists>zs. ports_from ports ps = ports @ zs"
proof (induction ps arbitrary: ports)
  case Nil
  then show ?case by simp
next
  case (Cons p ps)
  have "\<exists>ys. add_port ports p = ports @ ys" by (cases p) (simp_all add: add_port_def)
  then obtain ys where "add_port ports p = ports @ ys" by blast
  with Cons [of "add_port ports p"] show ?case by auto
qed

lemma ports_from_distinct: "distinct ports \<Longrightarrow> distinct (ports_from ports ps)"
  by (induction ps arbitrary: ports) (auto simp: add_port_def split: piece.split)

lemma ports_from_mem: "Hole raw \<in> set ps \<Longrightarrow> TrimSpace raw \<in> set (ports_from ports ps)"
proof (induction ps arbitrary: ports)
  case Nil
  then show ?case by simp
next
  case (Cons p ps)
  show ?case
  proof (cases "p = Hole raw")
    case True
    then have "TrimSpace raw \<in> set (add_port ports p)" by (simp add: add_port_def)
    moreover obtain zs where "ports_from (add_port ports p) ps = add_port ports p @ zs"
      using ports_from_extends by blast
    ultimately show ?thesis by simp
  next
    case False
    with Cons show ?thesis by simp
  qed
qed

lemma position_stable:
  assumes "x \<in> set ports"
  shows "position (ports_from ports ps) x = position ports x"
proof -
  obtain zs where "ports_from ports ps = ports @ zs" using ports_from_extends by blast
  with assms show ?thesis by (simp add: position_append)
qed

text \<open>The map \<open>index\<close> of the loop names the position of every port found so far.\<close>

definition indexes :: "nat gomap \<Rightarrow> string list \<Rightarrow> bool" where
  "indexes index ports \<longleftrightarrow>
     (\<forall>name. map_of index name = (if name \<in> set ports then Some (position ports name) else None))"

lemma indexes_mem:
  "indexes index ports \<Longrightarrow> name \<in> set ports \<Longrightarrow> map_of index name = Some (position ports name)"
  "indexes index ports \<Longrightarrow> name \<notin> set ports \<Longrightarrow> map_of index name = None"
  by (simp_all add: indexes_def)

lemma indexes_put:
  "indexes index ports \<Longrightarrow> name \<notin> set ports \<Longrightarrow>
   indexes (put name (length ports) index) (ports @ [name])"
  using position_append [of _ ports "[name]"] by (auto simp: indexes_def position_fresh)

lemma openTag_closeTag [simp]: "openTag \<noteq> []" "closeTag \<noteq> []"
  by (simp_all add: openTag_def closeTag_def)

lemma canonical_no_tag: "canonical ps \<Longrightarrow> Index (concat (map piece_text ps)) openTag = None \<Longrightarrow>
   ps = [] \<or> (\<exists>l. ps = [Lit l])"
proof (induction ps rule: canonical.induct)
  case (3 l raw ps)
  have "sublist openTag (l @ openTag @ raw @ closeTag @ concat (map piece_text ps))"
    by (metis sublist_appendI append.assoc)
  with 3 show ?case by (simp add: Index_None_iff)
next
  case (5 raw ps)
  have "sublist openTag (openTag @ raw @ closeTag @ concat (map piece_text ps))"
    by (simp add: prefix_imp_sublist)
  with 5 show ?case by (simp add: Index_None_iff)
qed simp_all

text \<open>
  The reading of a text with an opening tag: an optional literal, a placeholder, and the
  reading of the remainder.
\<close>

lemma canonical_first_tag:
  assumes "canonical ps" "Index (concat (map piece_text ps)) openTag = Some start"
  obtains raw ps' where
    "ps = (if start > 0 then [Lit (take start (concat (map piece_text ps)))] else []) @ Hole raw # ps'"
    "canonical (Hole raw # ps')"
    "drop (start + length openTag) (concat (map piece_text ps)) = raw @ closeTag @ concat (map piece_text ps')"
proof -
  from assms show ?thesis
  proof (cases ps rule: canonical.cases)
    case (3 l raw qs)
    with assms(1) have "Index (concat (map piece_text ps)) openTag = Some (length l)"
      by (auto simp: Index_split)
    with assms(2) have start: "start = length l" by simp
    show ?thesis by (rule that [of raw qs]) (use 3 assms(1) start in auto)
  next
    case (5 raw qs)
    have "\<not> sublist openTag (butlast openTag)"
      using sublist_length_le [of openTag "butlast openTag"] by (auto simp: openTag_def)
    then have "Index (concat (map piece_text ps)) openTag = Some 0"
      using 5 by (subst Index_split) auto
    with assms(2) have start: "start = 0" by simp
    show ?thesis by (rule that [of raw qs]) (use 5 assms(1) start in auto)
  qed (use assms(2) in \<open>auto simp: Index_None_iff [symmetric] simp del: Index_None_iff\<close>)
qed

lemma canonical_Lit_Hole:
  "l \<noteq> [] \<Longrightarrow> canonical ([Lit l] @ Hole raw # ps) \<longleftrightarrow>
     \<not> sublist openTag (l @ butlast openTag) \<and> canonical (Hole raw # ps)"
  by simp

text \<open>One turn of the loop, once a tag has been found.\<close>

lemma parse_from_tag:
  assumes "Index rest openTag = Some start" "Index (drop (start + length openTag) rest) closeTag = Some close"
    and "raw = take close (drop (start + length openTag) rest)" "port_name (TrimSpace raw)" "indexes index ports"
  shows "\<exists>index1. indexes index1 (add_port ports (Hole raw)) \<and>
    parse_from template segments ports index rest =
      parse_from template
        (segments @ (if start > 0 then [segment_of (add_port ports (Hole raw)) (Lit (take start rest))] else []) @
           [segment_of (add_port ports (Hole raw)) (Hole raw)])
        (add_port ports (Hole raw)) index1 (drop (close + length closeTag) (drop (start + length openTag) rest))"
proof -
  have v: "validName (TrimSpace raw) template = None" using assms(4) by (simp add: validName_None)
  show ?thesis
  proof (cases "TrimSpace raw \<in> set ports")
    case True
    then have "add_port ports (Hole raw) = ports" by (simp add: add_port_def)
    with assms v True show ?thesis
      by (intro exI [of _ index]) (subst parse_from.simps, simp add: Let_def indexes_mem)
  next
    case False
    then have a: "add_port ports (Hole raw) = ports @ [TrimSpace raw]" by (simp add: add_port_def)
    from False have "position (ports @ [TrimSpace raw]) (TrimSpace raw) = length ports"
      by (rule position_fresh)
    with a assms v False show ?thesis
      by (intro exI [of _ "put (TrimSpace raw) (length ports) index"] conjI)
        (simp add: indexes_put, subst parse_from.simps, simp add: Let_def indexes_mem)
  qed
qed

lemma parse_from_complete:
  assumes "canonical ps" "rest = concat (map piece_text ps)" "indexes index ports"
  shows "parse_from template segments ports index rest =
    Inr (segments @ map (segment_of (ports_from ports ps)) ps, ports_from ports ps)"
  using assms
proof (induction "length rest" arbitrary: ps rest segments ports index rule: less_induct)
  case less
  show ?case
  proof (cases "Index rest openTag")
    case None
    then have "ps = [] \<or> (\<exists>l. ps = [Lit l])" using canonical_no_tag [OF less.prems(1)] less.prems(2) by simp
    then show ?thesis using None less.prems(1,2)
      by (auto simp: parse_from.simps [of template segments ports index] add_port_def)
  next
    case (Some start)
    then obtain raw ps' where
      ps: "ps = (if start > 0 then [Lit (take start rest)] else []) @ Hole raw # ps'"
      and c: "canonical (Hole raw # ps')"
      and d: "drop (start + length openTag) rest = raw @ closeTag @ concat (map piece_text ps')"
      using canonical_first_tag [OF less.prems(1)] less.prems(2) by metis
    from c have cl: "Index (drop (start + length openTag) rest) closeTag = Some (length raw)"
      unfolding d by (subst Index_split) auto
    have raw: "raw = take (length raw) (drop (start + length openTag) rest)" by (simp add: d)
    obtain index1 where i: "indexes index1 (add_port ports (Hole raw))"
        "parse_from template segments ports index rest =
          parse_from template
            (segments @ (if start > 0 then [segment_of (add_port ports (Hole raw)) (Lit (take start rest))] else []) @
               [segment_of (add_port ports (Hole raw)) (Hole raw)])
            (add_port ports (Hole raw)) index1 (concat (map piece_text ps'))"
      using parse_from_tag [OF Some cl raw _ less.prems(3), of template segments] c d by auto
    have "start + length openTag \<le> length rest" using Index_Some [OF Some] by blast
    then have "length (concat (map piece_text ps')) < length rest"
      using arg_cong [OF d, of length] by (simp add: openTag_def)
    from less.hyps [OF this _ refl i(1)] c
    have "parse_from template segments ports index rest =
        Inr ((segments @ (if start > 0 then [segment_of (add_port ports (Hole raw)) (Lit (take start rest))] else []) @
               [segment_of (add_port ports (Hole raw)) (Hole raw)]) @
             map (segment_of (ports_from (add_port ports (Hole raw)) ps')) ps',
             ports_from (add_port ports (Hole raw)) ps')"
      unfolding i(2) by auto
    moreover have "position (ports_from (add_port ports (Hole raw)) ps') (TrimSpace raw) =
        position (add_port ports (Hole raw)) (TrimSpace raw)"
      by (rule position_stable) (simp add: add_port_def)
    moreover have "add_port ports (Lit l) = ports" for l by (simp add: add_port_def)
    ultimately show ?thesis unfolding ps by simp
  qed
qed

lemma parse_from_sound:
  assumes "parse_from template segments ports index rest = Inr r" "indexes index ports"
  shows "\<exists>ps. canonical ps \<and> rest = concat (map piece_text ps)"
  using assms
proof (induction "length rest" arbitrary: rest segments ports index rule: less_induct)
  case less
  show ?case
  proof (cases "Index rest openTag")
    case None
    then have "\<not> sublist openTag rest" by (simp add: Index_None_iff)
    then show ?thesis by (intro exI [of _ "if rest = [] then [] else [Lit rest]"]) simp
  next
    case (Some start)
    let ?rest1 = "drop (start + length openTag) rest"
    from less.prems(1) Some obtain close where cl: "Index ?rest1 closeTag = Some close"
        and vn: "validName (TrimSpace (take close ?rest1)) template = None"
      by (subst (asm) parse_from.simps) (auto simp: Let_def split: option.splits)
    let ?raw = "take close ?rest1"
    have pn: "port_name (TrimSpace ?raw)" using vn by (simp add: validName_None)
    let ?rest2 = "drop (close + length closeTag) ?rest1"
    obtain index1 segs where i: "indexes index1 (add_port ports (Hole ?raw))"
        "parse_from template segs (add_port ports (Hole ?raw)) index1 ?rest2 = Inr r"
      using parse_from_tag [OF Some cl refl pn less.prems(2), of template segments] less.prems(1) by auto
    have "start + length openTag \<le> length rest" using Index_Some [OF Some] by blast
    then have "length ?rest2 < length rest" by (simp add: openTag_def)
    from less.hyps [OF this i(2,1)] obtain ps' where ps': "canonical ps'" "?rest2 = concat (map piece_text ps')"
      by blast
    obtain l t where l: "rest = l @ openTag @ t" "length l = start" "\<not> sublist openTag (l @ butlast openTag)"
      using Some by (auto simp: Index_split)
    obtain raw u where u: "t = raw @ closeTag @ u" "length raw = close" "\<not> sublist closeTag (raw @ butlast closeTag)"
      using cl l by (auto simp: Index_split)
    have e: "?raw = raw" "?rest2 = u" "take start rest = l" using l u by simp_all
    have "canonical (Hole raw # ps')" using u(3) pn ps'(1) e by simp
    moreover have "rest = l @ concat (map piece_text (Hole raw # ps'))" using l(1) u(1) ps'(2) e by simp
    ultimately show ?thesis using l(3)
      by (intro exI [of _ "(if l = [] then [] else [Lit l]) @ Hole raw # ps'"]) auto
  qed
qed

text \<open>
  The whole function: a template is accepted exactly when it has an unambiguous reading, and
  the result is that reading with each placeholder replaced by its port.
\<close>

lemma indexes_Nil: "indexes [] []"
  by (simp add: indexes_def)

lemma parse_template_iff:
  "parse_template template = Inr (segs, ports) \<longleftrightarrow>
     (\<exists>ps. canonical ps \<and> template = concat (map piece_text ps) \<and>
        ports = ports_from [] ps \<and> segs = map (segment_of ports) ps)"
proof
  assume p: "parse_template template = Inr (segs, ports)"
  then obtain ps where ps: "canonical ps" "template = concat (map piece_text ps)"
    unfolding parse_template_def using parse_from_sound [OF _ indexes_Nil] by blast
  from parse_from_complete [OF this indexes_Nil, of template "[]"] p ps
  show "\<exists>ps. canonical ps \<and> template = concat (map piece_text ps) \<and>
        ports = ports_from [] ps \<and> segs = map (segment_of ports) ps"
    by (auto simp: parse_template_def)
next
  assume "\<exists>ps. canonical ps \<and> template = concat (map piece_text ps) \<and>
        ports = ports_from [] ps \<and> segs = map (segment_of ports) ps"
  then show "parse_template template = Inr (segs, ports)"
    unfolding parse_template_def using parse_from_complete [OF _ refl indexes_Nil] by auto
qed

section \<open>What the node computes\<close>

lemma render_reading:
  "\<forall>raw. Hole raw \<in> set ps \<longrightarrow> TrimSpace raw \<in> set ports \<Longrightarrow>
   render_segments (map (segment_of ports) ps) (map (\<lambda>p. PText (env p)) ports) =
     Returns (concat (map (fill env) ps))"
proof (induction ps)
  case Nil
  then show ?case by simp
next
  case (Cons p ps)
  show ?case
  proof (cases p)
    case (Lit l)
    with Cons show ?thesis by simp
  next
    case (Hole raw)
    with Cons.prems have "position ports (TrimSpace raw) < length ports"
        "ports ! position ports (TrimSpace raw) = TrimSpace raw"
      using position_nth by auto
    with Hole Cons show ?thesis by simp
  qed
qed

lemma map_call_id [simp]: "map_call (\<lambda>x. x) c = c"
  by (cases c) simp_all

lemma gather_texts:
  "gather_args tText i (map (\<lambda>p. NewValue tt (PText (env p))) ports) = Inr (map (\<lambda>p. PText (env p)) ports)"
  by (induction ports arbitrary: i) (simp_all add: assert_ref_def NewValue_def)

lemma newFormat_Inr:
  "newFormat tt decode cfg = Inr (Some n) \<longleftrightarrow>
     (\<exists>template segments ports. decode cfg = Inr template \<and> template \<noteq> '''' \<and>
        parse_template template = Inr (segments, ports) \<and>
        n = NewTypedNodeN tt tText tText FormatName ports
              (\<lambda>_ _ ins. map_call (\<lambda>s. Ok (PText s)) (render_segments segments ins)))"
  by (auto simp: newFormat_def split: sum.splits if_splits)

lemma newFormat_reads:
  assumes "newFormat tt decode cfg = Inr (Some n)" "decode cfg = Inr template"
  obtains ps where "canonical ps" "template = concat (map piece_text ps)"
    "map pd_Name (d_Inputs (rn_Descriptor n)) = ports_from [] ps" "distinct (ports_from [] ps)"
    "\<And>env w ec. rn_Execute n w ec (map (\<lambda>p. NewValue tt (PText (env p))) (ports_from [] ps)) =
       Returns (erase (TypeOf tt tText) (Ok (PText (concat (map (fill env) ps)))))"
proof -
  from assms obtain segments ports where p: "parse_template template = Inr (segments, ports)"
    and n: "n = NewTypedNodeN tt tText tText FormatName ports
              (\<lambda>_ _ ins. map_call (\<lambda>s. Ok (PText s)) (render_segments segments ins))"
    by (auto simp: newFormat_Inr)
  from p obtain ps where ps: "canonical ps" "template = concat (map piece_text ps)"
      "ports = ports_from [] ps" "segments = map (segment_of ports) ps"
    by (auto simp: parse_template_iff)
  have "\<forall>raw. Hole raw \<in> set ps \<longrightarrow> TrimSpace raw \<in> set ports" using ps(3) by (simp add: ports_from_mem)
  then have "rn_Execute n w ec (map (\<lambda>p. NewValue tt (PText (env p))) ports) =
       Returns (erase (TypeOf tt tText) (Ok (PText (concat (map (fill env) ps)))))" for env w ec
    unfolding n ps(4) by (simp add: NewTypedNodeN_def Let_def typedNodeN_Execute_def gather_texts render_reading)
  moreover have "map pd_Name (d_Inputs (rn_Descriptor n)) = ports"
    unfolding n by (simp add: NewTypedNodeN_def Let_def comp_def)
  moreover have "distinct ports" unfolding ps(3) by (rule ports_from_distinct) simp
  ultimately show ?thesis using that ps(1-3) by simp
qed

section \<open>Reading a whole number from the environment\<close>

text \<open>A text that denotes a 64-bit number: an optional sign, then decimal digits.\<close>

definition int_text :: "string \<Rightarrow> int64 \<Rightarrow> bool" where
  "int_text s n \<longleftrightarrow>
     (\<exists>sgn ds. s = sgn @ ds \<and> sgn \<in> {'''', ''+'', ''-''} \<and> ds \<noteq> [] \<and> (\<forall>c\<in>set ds. is_digit c) \<and>
        sint n = (if sgn = ''-'' then - int (decimal ds) else int (decimal ds)))"

lemma ParseInt_int_text: "ParseInt s = Inr n \<longleftrightarrow> int_text s n"
  unfolding int_text_def by (rule ParseInt_Inr)

lemma parseInt_cases:
  "(\<exists>n. int_text s n \<and> parseInt s = Inr (PInt n)) \<or>
   (\<nexists>n. int_text s n) \<and> (\<exists>e. parseInt s = Inl e \<and> err_Kind e = KindPermanent \<and> \<not> err_Retryable e)"
  by (cases "ParseInt s") (auto simp: parseInt_def ParseInt_int_text [symmetric])

lemma int_text_unique: "int_text s n \<Longrightarrow> int_text s m \<Longrightarrow> n = m"
  by (simp add: ParseInt_int_text [symmetric])

lemma env_newNode_int:
  assumes "env_newNode tt lookupEnv decode cfg = Inr (Some n)" "decode cfg = Inr c" "evc_As c = ''Int''"
  shows "env_source tt lookupEnv tInt c parseInt = Inr (Some n)"
  using assms by (simp add: env_newNode_def split: if_splits)

lemma env_int_node:
  assumes "env_newNode tt lookupEnv decode cfg = Inr (Some n)" "decode cfg = Inr c" "evc_As c = ''Int''"
  shows "\<exists>res. rn_Execute n w ec [] = Returns res \<and>
    (let text = (case lookupEnv w (evc_Name c) of Some raw \<Rightarrow> Some raw | None \<Rightarrow> evc_Default c) in
       (\<forall>raw k. text = Some raw \<and> int_text raw k \<longrightarrow>
          rv_Err res = None \<and> rv_Value res = NewValue tt (PInt k)) \<and>
       ((\<nexists>raw k. text = Some raw \<and> int_text raw k) \<longrightarrow>
          (\<exists>e. rv_Err res = Some e \<and> err_Kind e = KindPermanent \<and> \<not> err_Retryable e)))"
proof -
  obtain fallback where n: "n = NewSource tt tInt env_Name (env_read lookupEnv (evc_Name c) fallback parseInt)"
    and f: "case evc_Default c of None \<Rightarrow> fallback = None | Some d \<Rightarrow> \<exists>v. parseInt d = Inr v \<and> fallback = Some v"
    using env_newNode_int [OF assms] unfolding env_source_Inr by blast
  have run: "rn_Execute n w ec [] = Returns (erase (TypeOf tt tInt)
      (case lookupEnv w (evc_Name c) of
         None \<Rightarrow> (case fallback of Some v \<Rightarrow> Ok v
           | None \<Rightarrow> Fail (Errf KindPermanent ''env_absent''
                 ''environment variable %q is not set, and no default is configured'' [AStr (evc_Name c)]))
       | Some raw \<Rightarrow> (case parseInt raw of Inl err \<Rightarrow> Fail err | Inr v \<Rightarrow> Ok v)))"
    unfolding n by (simp add: NewSource_def Let_def sourceNode_Execute_def env_read_def)
  show ?thesis
  proof (cases "lookupEnv w (evc_Name c)")
    case (Some raw)
    then show ?thesis unfolding run using parseInt_cases [of raw]
      by (auto simp: NewValue_def dest: int_text_unique)
  next
    case None
    show ?thesis
    proof (cases "evc_Default c")
      case None
      with f have "fallback = None" by simp
      with None \<open>lookupEnv w (evc_Name c) = None\<close> show ?thesis unfolding run by simp
    next
      case (Some d)
      with f obtain v where v: "parseInt d = Inr v" "fallback = Some v" by auto
      with parseInt_cases [of d] obtain k where "int_text d k" "v = PInt k" by auto
      with v Some \<open>lookupEnv w (evc_Name c) = None\<close> show ?thesis unfolding run
        by (auto simp: NewValue_def dest: int_text_unique)
    qed
  qed
qed

end
