(* ===== verification/Nodes_Json.thy ===== *)
theory Nodes_Json
  imports Node_Kit
begin

text \<open>
  The nodes over decoded documents: paths (\<^verbatim>\<open>internal/nodes/jsonpath/jsonpath.go\<close>),
  \<open>json.decode\<close>, \<open>json.encode\<close> and \<open>json.get\<close> (\<^verbatim>\<open>internal/nodes/jsonnode\<close>), \<open>condition\<close>
  (\<^verbatim>\<open>internal/nodes/condition/condition.go\<close>) and \<open>assert.true\<close>
  (\<^verbatim>\<open>internal/nodes/assert/assert.go\<close>). The JSON library's \<open>Unmarshal\<close> and \<open>Marshal\<close> are
  parameters; so is \<open>wild\<close>, the result of converting to \<open>int64\<close> a float outside its range,
  which the language leaves to the implementation.
\<close>

section \<open>Paths\<close>

definition jsonpath_Parse :: "string \<Rightarrow> string \<Rightarrow> go_error + string list" where
  "jsonpath_Parse capability raw =
     (if raw = '''' then
        Inl (ENode (Errf KindInvalidInput ''missing_path'' ''%s requires a path such as \"user.name\"'' [AStr capability]))
      else
        let segments = Split CHR ''.'' raw in
        if '''' \<in> set segments then
          Inl (ENode (Errf KindInvalidInput ''bad_path'' ''path %q has an empty segment'' [AStr raw]))
        else Inr segments)"

fun Lookup :: "any \<Rightarrow> string list \<Rightarrow> any option" where
  "Lookup current [] = Some current"
| "Lookup current (key # path) =
     (case current of
        AnyMap m \<Rightarrow> (case map_of m key of None \<Rightarrow> None | Some v \<Rightarrow> Lookup v path)
      | _ \<Rightarrow> None)"

fun Describe :: "any \<Rightarrow> string" where
  "Describe AnyNil = ''null''"
| "Describe (AnyBool _) = ''a boolean''"
| "Describe (AnyFloat64 _) = ''a number''"
| "Describe (AnyInt _) = ''a number''"
| "Describe (AnyInt64 _) = ''a number''"
| "Describe (AnyUint64 _) = ''a number''"
| "Describe (AnyString _) = ''a string''"
| "Describe (AnySlice _) = ''an array''"
| "Describe (AnyMap _) = ''an object''"
| "Describe (AnyOther _) = ''an unsupported value''"

section \<open>json.decode and json.encode\<close>

definition DecodeName :: string where "DecodeName = ''json.decode''"
definition EncodeName :: string where "EncodeName = ''json.encode''"

definition json_decode :: "(bytes \<Rightarrow> go_error + any) \<Rightarrow> 'w \<Rightarrow> ExecutionContext \<Rightarrow> payload \<Rightarrow> Result call" where
  "json_decode unmarshal w ec inp =
     (case inp of
        PBytes b \<Rightarrow>
          Returns (case unmarshal b of
             Inl err \<Rightarrow> Fail (Wrap err KindInvalidInput ''malformed_json'' ''input is not valid JSON'' [])
           | Inr r \<Rightarrow> Ok (PDocument r))
      | _ \<Rightarrow> nil_deref)"

definition json_encode :: "(any \<Rightarrow> go_error + bytes) \<Rightarrow> 'w \<Rightarrow> ExecutionContext \<Rightarrow> payload \<Rightarrow> Result call" where
  "json_encode marshal w ec doc =
     (case doc of
        PDocument r \<Rightarrow>
          Returns (case marshal r of
             Inl err \<Rightarrow> Fail (Wrap err KindInvalidInput ''unencodable'' ''document cannot be encoded as JSON'' [])
           | Inr raw \<Rightarrow> Ok (PBytes raw))
      | _ \<Rightarrow> nil_deref)"

definition DecodeDefinition ::
  "type_table \<Rightarrow> (bytes \<Rightarrow> go_error + any) \<Rightarrow> ('c \<Rightarrow> go_error option) \<Rightarrow> ('c, 'w) NodeNew Definition" where
  "DecodeDefinition tt unmarshal decode =
     Static decode DecodeName (NewTypedNode tt tBytes tDocument DecodeName (json_decode unmarshal))"

definition EncodeDefinition ::
  "type_table \<Rightarrow> (any \<Rightarrow> go_error + bytes) \<Rightarrow> ('c \<Rightarrow> go_error option) \<Rightarrow> ('c, 'w) NodeNew Definition" where
  "EncodeDefinition tt marshal decode =
     Static decode EncodeName (NewTypedNode tt tDocument tBytes EncodeName (json_encode marshal))"

section \<open>json.get\<close>

definition GetName :: string where "GetName = ''json.get''"
definition get_acceptedTypes :: string where "get_acceptedTypes = ''Text, Bytes, Bool, Int''"

record getConfig =
  gc_Path :: string
  gc_As :: string
  gc_Default :: "yaml_node option"

definition mismatch :: "string \<Rightarrow> string \<Rightarrow> any \<Rightarrow> node_error" where
  "mismatch as want got =
     Errf KindInvalidInput ''type_mismatch'' ''as: %s wants %s, but the value is %s''
       [AStr as, AStr want, AStr (Describe got)]"

definition toText :: "any \<Rightarrow> node_error + payload" where
  "toText v = (case v of AnyString s \<Rightarrow> Inr (PText s) | _ \<Rightarrow> Inl (mismatch ''Text'' ''a string'' v))"

definition toBytes :: "any \<Rightarrow> node_error + payload" where
  "toBytes v = (case v of AnyString s \<Rightarrow> Inr (PBytes s) | _ \<Rightarrow> Inl (mismatch ''Bytes'' ''a string'' v))"

definition toBool :: "any \<Rightarrow> node_error + payload" where
  "toBool v = (case v of AnyBool b \<Rightarrow> Inr (PBool b) | _ \<Rightarrow> Inl (mismatch ''Bool'' ''a boolean'' v))"

definition not_whole :: "float64 \<Rightarrow> node_error" where
  "not_whole n = Errf KindInvalidInput ''type_mismatch''
     ''as: Int wants a whole number, but the value is %v'' [AFloat n]"

definition int64_of_float :: "(rat \<Rightarrow> int64) \<Rightarrow> rat \<Rightarrow> int64" where
  "int64_of_float wild q =
     (if - (2 ^ 63) \<le> \<lfloor>q\<rfloor> \<and> \<lfloor>q\<rfloor> < 2 ^ 63 then word_of_int \<lfloor>q\<rfloor> else wild q)"

definition toInt :: "(rat \<Rightarrow> int64) \<Rightarrow> any \<Rightarrow> node_error + payload" where
  "toInt wild v =
     (case v of
        AnyFloat64 (Fin q) \<Rightarrow>
          if of_int \<lfloor>q\<rfloor> \<noteq> q then Inl (not_whole (Fin q)) else Inr (PInt (int64_of_float wild q))
      | AnyFloat64 n \<Rightarrow> Inl (not_whole n)
      | AnyInt n \<Rightarrow> Inr (PInt n)
      | AnyInt64 n \<Rightarrow> Inr (PInt n)
      | AnyUint64 n \<Rightarrow> Inr (PInt n)
      | _ \<Rightarrow> Inl (mismatch ''Int'' ''a number'' v))"

definition path_absent :: node_error where
  "path_absent = Errf KindInvalidInput ''path_absent''
     ''document has no value at the configured path, and no default is configured'' []"

definition get_read ::
  "string list \<Rightarrow> payload option \<Rightarrow> (any \<Rightarrow> node_error + payload) \<Rightarrow> 'w \<Rightarrow> ExecutionContext \<Rightarrow> payload \<Rightarrow> Result call" where
  "get_read path fallback convert w ec doc =
     (case doc of
        PDocument r \<Rightarrow>
          Returns
            (case Lookup r path of
               None \<Rightarrow> (case fallback of Some v \<Rightarrow> Ok v | None \<Rightarrow> Fail path_absent)
             | Some found \<Rightarrow> (case convert found of Inl err \<Rightarrow> Fail err | Inr v \<Rightarrow> Ok v))
      | _ \<Rightarrow> nil_deref)"

definition getter ::
  "type_table \<Rightarrow> gotype \<Rightarrow> string list \<Rightarrow> yaml_node option \<Rightarrow> (any \<Rightarrow> node_error + payload) \<Rightarrow>
   go_error + 'w RuntimeNode option" where
  "getter tt P path raw convert =
     (case (case raw of
              None \<Rightarrow> Inr None
            | Some y \<Rightarrow>
                (case yn_Decode_any y of
                   Inl err \<Rightarrow> Inl (ENode (Wrap err KindInvalidInput ''bad_default'' ''default is not a usable scalar'' []))
                 | Inr literal \<Rightarrow>
                     (case convert literal of
                        Inl err \<Rightarrow> Inl (ENode (Errf KindInvalidInput ''bad_default'' ''default is invalid: %s''
                                     [AMsg (err_Message err)]))
                      | Inr v \<Rightarrow> Inr (Some v)))) of
        Inl err \<Rightarrow> Inl err
      | Inr fallback \<Rightarrow> Inr (Some (NewTypedNode tt tDocument P GetName (get_read path fallback convert))))"

definition newGet ::
  "type_table \<Rightarrow> (rat \<Rightarrow> int64) \<Rightarrow> ('c \<Rightarrow> go_error + getConfig) \<Rightarrow> ('c, 'w) NodeNew" where
  "newGet tt wild decode cfg =
     (case decode cfg of
        Inl err \<Rightarrow> Inl (ENode (Wrap err KindInvalidInput ''bad_config'' ''invalid %s configuration'' [AStr GetName]))
      | Inr c \<Rightarrow>
          (case jsonpath_Parse GetName (gc_Path c) of
             Inl err \<Rightarrow> Inl err
           | Inr path \<Rightarrow>
               if gc_As c = ''Text'' then getter tt tText path (gc_Default c) toText
               else if gc_As c = ''Bytes'' then getter tt tBytes path (gc_Default c) toBytes
               else if gc_As c = ''Bool'' then getter tt tBool path (gc_Default c) toBool
               else if gc_As c = ''Int'' then getter tt tInt path (gc_Default c) (toInt wild)
               else if gc_As c = '''' then
                 Inl (ENode (Errf KindInvalidInput ''missing_type''
                        ''%s requires an \"as\" naming the type to read (one of: %s)''
                        [AStr GetName, AStr get_acceptedTypes]))
               else
                 Inl (ENode (Errf KindInvalidInput ''unknown_type'' ''unknown type %q for %s (accepted: %s)''
                        [AStr (gc_As c), AStr GetName, AStr get_acceptedTypes]))))"

definition GetDefinition ::
  "type_table \<Rightarrow> (rat \<Rightarrow> int64) \<Rightarrow> ('c \<Rightarrow> go_error + getConfig) \<Rightarrow> ('c, 'w) NodeNew Definition" where
  "GetDefinition tt wild decode = \<lparr>def_Name = GetName, def_New = Some (newGet tt wild decode)\<rparr>"

section \<open>condition\<close>

definition condition_Name :: string where "condition_Name = ''condition''"

record condition_config =
  cc_Path :: string
  cc_Equals :: "yaml_node option"
  cc_Exists :: "bool option"

text \<open>
  \<open>float64(n)\<close> rounds to the nearest of the numbers with 53 significant bits, ties to even.
\<close>

fun bit_length :: "nat \<Rightarrow> nat" where
  "bit_length n = (if n = 0 then 0 else Suc (bit_length (n div 2)))"

declare bit_length.simps [simp del]

definition round_nat :: "nat \<Rightarrow> nat" where
  "round_nat n =
     (let e = bit_length n - 53; q = n div 2 ^ e; r = n mod 2 ^ e in
      if e = 0 then n
      else if 2 * r > 2 ^ e \<or> (2 * r = 2 ^ e \<and> odd q) then (q + 1) * 2 ^ e else q * 2 ^ e)"

definition float_of_int :: "int \<Rightarrow> float64" where
  "float_of_int i = Fin (of_int (sgn i * int (round_nat (nat \<bar>i\<bar>))))"

definition asFloat :: "any \<Rightarrow> float64 option" where
  "asFloat v =
     (case v of
        AnyFloat64 n \<Rightarrow> Some n
      | AnyInt n \<Rightarrow> Some (float_of_int (sint n))
      | AnyInt64 n \<Rightarrow> Some (float_of_int (sint n))
      | AnyUint64 n \<Rightarrow> Some (float_of_int (uint n))
      | _ \<Rightarrow> None)"

definition float_eq :: "float64 \<Rightarrow> float64 \<Rightarrow> bool" where
  "float_eq x y \<longleftrightarrow> x = y \<and> x \<noteq> NaN"

definition equal :: "any \<Rightarrow> any \<Rightarrow> bool" where
  "equal want got =
     (case asFloat want of
        Some w \<Rightarrow> (case asFloat got of Some g \<Rightarrow> float_eq w g | None \<Rightarrow> False)
      | None \<Rightarrow>
          (case got of
             AnyString _ \<Rightarrow> want = got
           | AnyBool _ \<Rightarrow> want = got
           | AnyNil \<Rightarrow> want = got
           | _ \<Rightarrow> False))"

definition verdict :: "type_table \<Rightarrow> (any \<Rightarrow> bool) \<Rightarrow> 'w RuntimeNode" where
  "verdict tt test =
     NewTypedNode tt tDocument tBool ''condition''
       (\<lambda>_ _ doc. case doc of PDocument r \<Rightarrow> Returns (Ok (PBool (test r))) | _ \<Rightarrow> nil_deref)"

definition condition_newNode ::
  "type_table \<Rightarrow> ('c \<Rightarrow> go_error + condition_config) \<Rightarrow> ('c, 'w) NodeNew" where
  "condition_newNode tt decode cfg =
     (case decode cfg of
        Inl err \<Rightarrow> Inl err
      | Inr c \<Rightarrow>
          (case jsonpath_Parse condition_Name (cc_Path c) of
             Inl err \<Rightarrow> Inl err
           | Inr path \<Rightarrow>
               (case (cc_Equals c, cc_Exists c) of
                  (Some _, Some _) \<Rightarrow>
                    Inl (ENode (Errf KindInvalidInput ''ambiguous_test'' ''condition takes equals or exists, not both'' []))
                | (None, None) \<Rightarrow>
                    Inl (ENode (Errf KindInvalidInput ''missing_test'' ''condition requires either equals or exists'' []))
                | (None, Some want) \<Rightarrow>
                    Inr (Some (verdict tt (\<lambda>r. (Lookup r path \<noteq> None) = want)))
                | (Some y, None) \<Rightarrow>
                    if \<not> yn_Scalar y then
                      Inl (ENode (Errf KindInvalidInput ''unsupported_equals''
                             ''equals must be a scalar such as a string, a number or a boolean'' []))
                    else
                      (case yn_Decode_any y of
                         Inl err \<Rightarrow> Inl (ENode (Wrap err KindInvalidInput ''bad_equals'' ''equals is not a usable scalar'' []))
                       | Inr want \<Rightarrow>
                           Inr (Some (verdict tt
                             (\<lambda>r. case Lookup r path of None \<Rightarrow> False | Some got \<Rightarrow> equal want got)))))))"

definition condition_Definition ::
  "type_table \<Rightarrow> ('c \<Rightarrow> go_error + condition_config) \<Rightarrow> ('c, 'w) NodeNew Definition" where
  "condition_Definition tt decode = \<lparr>def_Name = ''condition'', def_New = Some (condition_newNode tt decode)\<rparr>"

section \<open>assert.true\<close>

definition TrueName :: string where "TrueName = ''assert.true''"

definition assert_verdict :: "string \<Rightarrow> 'w \<Rightarrow> ExecutionContext \<Rightarrow> payload \<Rightarrow> Result call" where
  "assert_verdict message w ec v =
     (case v of
        PBool b \<Rightarrow>
          Returns (if \<not> b then Fail (Errf KindPermanent ''assertion_failed'' ''%s'' [AStr message]) else Ok v)
      | _ \<Rightarrow> nil_deref)"

definition assert_newTrue :: "type_table \<Rightarrow> ('c \<Rightarrow> go_error + string) \<Rightarrow> ('c, 'w) NodeNew" where
  "assert_newTrue tt decode cfg =
     (case decode cfg of
        Inl err \<Rightarrow> Inl (ENode (Wrap err KindInvalidInput ''bad_config'' ''invalid %s configuration'' [AStr TrueName]))
      | Inr msg \<Rightarrow>
          let message = (if msg = '''' then ''assertion failed: the verdict is false'' else msg)
          in Inr (Some (NewTypedNode tt tBool tBool TrueName (assert_verdict message))))"

definition TrueDefinition :: "type_table \<Rightarrow> ('c \<Rightarrow> go_error + string) \<Rightarrow> ('c, 'w) NodeNew Definition" where
  "TrueDefinition tt decode = \<lparr>def_Name = TrueName, def_New = Some (assert_newTrue tt decode)\<rparr>"

section \<open>Paths round trip\<close>

lemma jsonpath_Parse_Inr:
  "jsonpath_Parse cap raw = Inr path \<longleftrightarrow>
     raw = join ''.'' path \<and> path \<noteq> [] \<and> (\<forall>s\<in>set path. s \<noteq> '''' \<and> CHR ''.'' \<notin> set s)"
proof
  assume "jsonpath_Parse cap raw = Inr path"
  then have p: "path = Split CHR ''.'' raw" "'''' \<notin> set path"
    by (auto simp: jsonpath_Parse_def Let_def split: if_splits)
  then have "\<forall>s\<in>set path. s \<noteq> '''' \<and> CHR ''.'' \<notin> set s" using Split_no_sep by force
  then show "raw = join ''.'' path \<and> path \<noteq> [] \<and> (\<forall>s\<in>set path. s \<noteq> '''' \<and> CHR ''.'' \<notin> set s)"
    unfolding p(1) by (simp add: join_Split)
next
  assume r: "raw = join ''.'' path \<and> path \<noteq> [] \<and> (\<forall>s\<in>set path. s \<noteq> '''' \<and> CHR ''.'' \<notin> set s)"
  then have "Split CHR ''.'' raw = path" by (simp add: Split_join)
  moreover have "raw \<noteq> ''''" using r by (cases path; cases "tl path") auto
  ultimately show "jsonpath_Parse cap raw = Inr path" using r by (auto simp: jsonpath_Parse_def Let_def)
qed

lemma Lookup_append: "Lookup v (p @ q) = (case Lookup v p of None \<Rightarrow> None | Some u \<Rightarrow> Lookup u q)"
  by (induction v p rule: Lookup.induct) (auto split: any.splits option.splits)

section \<open>The constructors are sound\<close>

definition typed_convert :: "gotype \<Rightarrow> (any \<Rightarrow> node_error + payload) \<Rightarrow> bool" where
  "typed_convert P f \<longleftrightarrow>
     (\<forall>v. case f v of
            Inl e \<Rightarrow> err_Kind e = KindInvalidInput \<and> err_Code e = ''type_mismatch''
          | Inr p \<Rightarrow> dyn_type p = P \<and> proper p)"

lemma typed_converts:
  "typed_convert tText toText" "typed_convert tBytes toBytes" "typed_convert tBool toBool"
  "typed_convert tInt (toInt wild)"
  by (simp_all add: typed_convert_def toText_def toBytes_def toBool_def toInt_def mismatch_def not_whole_def
      split: any.split float64.split)

lemma json_decode_typed: "dyn_type x = tBytes \<Longrightarrow> typed_call tDocument (json_decode unmarshal w ec x)"
  by (simp add: json_decode_def split: payload.split sum.split)

lemma json_encode_typed: "dyn_type x = tDocument \<Longrightarrow> typed_call tBytes (json_encode marshal w ec x)"
  by (simp add: json_encode_def split: payload.split sum.split)

lemma get_read_typed:
  assumes "typed_convert P convert" "\<And>v. fallback = Some v \<Longrightarrow> dyn_type v = P \<and> proper v"
  shows "typed_call P (get_read path fallback convert w ec doc)"
proof (cases doc)
  case (PDocument r)
  show ?thesis
  proof (cases "Lookup r path")
    case None
    with PDocument show ?thesis using assms(2) by (cases fallback) (simp_all add: get_read_def path_absent_def)
  next
    case (Some v)
    then show ?thesis using PDocument assms(1) [unfolded typed_convert_def, rule_format, of v]
      by (cases "convert v") (simp_all add: get_read_def engine_error_def)
  qed
qed (simp_all add: get_read_def)

lemma getter_Inr:
  "getter tt P path raw convert = Inr (Some n) \<longleftrightarrow>
     (\<exists>fallback. n = NewTypedNode tt tDocument P GetName (get_read path fallback convert) \<and>
        (case raw of None \<Rightarrow> fallback = None
         | Some y \<Rightarrow> \<exists>literal v. yn_Decode_any y = Inr literal \<and> convert literal = Inr v \<and> fallback = Some v))"
proof (cases raw)
  case None
  then show ?thesis by (auto simp: getter_def)
next
  case (Some y)
  show ?thesis
  proof (cases "yn_Decode_any y")
    case (Inl e)
    with Some show ?thesis by (simp add: getter_def)
  next
    case (Inr literal)
    with Some show ?thesis by (cases "convert literal") (auto simp: getter_def)
  qed
qed

lemma getter_sound:
  assumes "getter tt P path raw convert = Inr (Some n)" "typed_convert P convert"
  shows "node_sound tt [tDocument] P n"
proof -
  from assms(1) obtain fallback where
    n: "n = NewTypedNode tt tDocument P GetName (get_read path fallback convert)"
    and f: "case raw of None \<Rightarrow> fallback = None
         | Some y \<Rightarrow> \<exists>literal v. yn_Decode_any y = Inr literal \<and> convert literal = Inr v \<and> fallback = Some v"
    unfolding getter_Inr by blast
  have "dyn_type v = P \<and> proper v" if v: "fallback = Some v" for v
  proof -
    from f v obtain literal where "convert literal = Inr v" by (auto split: option.splits)
    with assms(2) [unfolded typed_convert_def, rule_format, of literal] show ?thesis by simp
  qed
  then show ?thesis unfolding n using assms(2) by (intro NewTypedNode_sound) (blast intro: get_read_typed)
qed

text \<open>What \<open>newGet\<close> returns: a getter of the parsed path for one of four types.\<close>

lemma newGet_Inr:
  assumes "newGet tt wild decode cfg = Inr (Some n)"
  obtains c path P convert where "decode cfg = Inr c" "jsonpath_Parse GetName (gc_Path c) = Inr path"
    "getter tt P path (gc_Default c) convert = Inr (Some n)"
    "(gc_As c, P, convert) \<in> {(''Text'', tText, toText), (''Bytes'', tBytes, toBytes),
       (''Bool'', tBool, toBool), (''Int'', tInt, toInt wild)}"
proof -
  from assms obtain c where c: "decode cfg = Inr c" by (simp add: newGet_def split: sum.splits)
  from assms [unfolded newGet_def c sum.case] obtain path where
    p: "jsonpath_Parse GetName (gc_Path c) = Inr path" by (simp split: sum.splits)
  note e = assms [unfolded newGet_def c sum.case p]
  show ?thesis using e c p that by (simp split: if_splits)
qed

lemma newGet_sound:
  assumes "has_domain tt"
  shows "sound_new tt (newGet tt wild decode)"
proof (rule sound_newI)
  fix cfg n assume "newGet tt wild decode cfg = Inr (Some n)"
  then obtain c :: getConfig and path P convert where g: "getter tt P path (gc_Default c) convert = Inr (Some n)"
    and t: "(gc_As c, P, convert) \<in> {(''Text'', tText, toText), (''Bytes'', tBytes, toBytes),
       (''Bool'', tBool, toBool), (''Int'', tInt, toInt wild)}"
    by (rule newGet_Inr)
  from t have "typed_convert P convert" "registered tt P" using typed_converts assms by auto
  with getter_sound [OF g] assms show "\<exists>Is O'. node_sound tt Is O' n \<and> (\<forall>t\<in>set (O' # Is). registered tt t)"
    by (intro exI [of _ "[tDocument]"] exI [of _ P]) simp
qed

lemma verdict_sound: "node_sound tt [tDocument] tBool (verdict tt test)"
  unfolding verdict_def by (rule NewTypedNode_sound) (simp split: payload.split)

lemma condition_newNode_Inr:
  "condition_newNode tt decode cfg = Inr (Some n) \<longleftrightarrow>
     (\<exists>c path. decode cfg = Inr c \<and> jsonpath_Parse condition_Name (cc_Path c) = Inr path \<and>
        ((\<exists>want. cc_Equals c = None \<and> cc_Exists c = Some want \<and>
            n = verdict tt (\<lambda>r. (Lookup r path \<noteq> None) = want)) \<or>
         (\<exists>y want. cc_Equals c = Some y \<and> cc_Exists c = None \<and> yn_Scalar y \<and> yn_Decode_any y = Inr want \<and>
            n = verdict tt (\<lambda>r. case Lookup r path of None \<Rightarrow> False | Some got \<Rightarrow> equal want got))))"
proof (cases "decode cfg")
  case (Inl e)
  then show ?thesis by (simp add: condition_newNode_def)
next
  case (Inr c)
  show ?thesis
  proof (cases "jsonpath_Parse condition_Name (cc_Path c)")
    case (Inl e)
    with Inr show ?thesis by (simp add: condition_newNode_def)
  next
    case p: (Inr path)
    with Inr show ?thesis
      by (cases "cc_Equals c"; cases "cc_Exists c") (auto simp: condition_newNode_def split: sum.split)
  qed
qed

lemma condition_newNode_sound:
  assumes "has_domain tt"
  shows "sound_new tt (condition_newNode tt decode)"
proof (rule sound_newI)
  fix cfg n assume "condition_newNode tt decode cfg = Inr (Some n)"
  then obtain test where "n = verdict tt test" unfolding condition_newNode_Inr by blast
  then have "node_sound tt [tDocument] tBool n" by (simp add: verdict_sound)
  then show "\<exists>Is O'. node_sound tt Is O' n \<and> (\<forall>t\<in>set (O' # Is). registered tt t)"
    by (rule typed_new) (simp_all add: assms)
qed

lemma assert_verdict_typed: "dyn_type x = tBool \<Longrightarrow> typed_call tBool (assert_verdict message w ec x)"
  by (simp add: assert_verdict_def split: payload.split)

lemma assert_newTrue_sound:
  assumes "has_domain tt"
  shows "sound_new tt (assert_newTrue tt decode)"
proof (rule sound_newI)
  fix cfg n assume "assert_newTrue tt decode cfg = Inr (Some n)"
  then obtain message where "n = NewTypedNode tt tBool tBool TrueName (assert_verdict message)"
    by (auto simp: assert_newTrue_def Let_def split: sum.splits)
  then have "node_sound tt [tBool] tBool n" by (simp add: NewTypedNode_sound assert_verdict_typed)
  then show "\<exists>Is O'. node_sound tt Is O' n \<and> (\<forall>t\<in>set (O' # Is). registered tt t)"
    by (rule typed_new) (simp_all add: assms)
qed

section \<open>What the nodes answer\<close>

text \<open>
  The answer of a getter, by what the path finds: the converted value, the conversion's
  error, the default, or \<open>path_absent\<close>.
\<close>

lemma getter_answers:
  assumes "getter tt P path raw convert = Inr (Some n)"
  obtains fallback where
    "\<And>w ec r. rn_Execute n w ec [NewValue tt (PDocument r)] =
       Returns (erase (TypeOf tt P)
         (case Lookup r path of
            None \<Rightarrow> (case fallback of Some v \<Rightarrow> Ok v | None \<Rightarrow> Fail path_absent)
          | Some found \<Rightarrow> (case convert found of Inl err \<Rightarrow> Fail err | Inr v \<Rightarrow> Ok v)))"
    "case raw of None \<Rightarrow> fallback = None
     | Some y \<Rightarrow> \<exists>literal v. yn_Decode_any y = Inr literal \<and> convert literal = Inr v \<and> fallback = Some v"
proof -
  from assms obtain fallback where n: "n = NewTypedNode tt tDocument P GetName (get_read path fallback convert)"
    and f: "case raw of None \<Rightarrow> fallback = None
     | Some y \<Rightarrow> \<exists>literal v. yn_Decode_any y = Inr literal \<and> convert literal = Inr v \<and> fallback = Some v"
    by (auto simp: getter_Inr)
  show ?thesis by (rule that [OF _ f]) (simp add: n NewTypedNode_run get_read_def)
qed

lemma typed_convert_not_absent: "typed_convert P convert \<Longrightarrow> convert v \<noteq> Inl path_absent"
  unfolding typed_convert_def by (drule spec [of _ v]) (auto simp: path_absent_def)

lemma getter_absent_iff:
  assumes "getter tt P path None convert = Inr (Some n)" "typed_convert P convert"
    and "rn_Execute n w ec [NewValue tt (PDocument r)] = Returns res"
  shows "rv_Err res = Some path_absent \<longleftrightarrow> Lookup r path = None"
proof -
  have "n = NewTypedNode tt tDocument P GetName (get_read path None convert)"
    using assms(1) by (simp add: getter_Inr)
  with assms(3) have
    res: "res = erase (TypeOf tt P)
         (case Lookup r path of None \<Rightarrow> Fail path_absent
          | Some found \<Rightarrow> (case convert found of Inl err \<Rightarrow> Fail err | Inr v \<Rightarrow> Ok v))"
    by (cases "Lookup r path") (simp_all add: NewTypedNode_run get_read_def)
  show ?thesis
  proof (cases "Lookup r path")
    case None
    with res show ?thesis by simp
  next
    case (Some v)
    with res typed_convert_not_absent [OF assms(2), of v] show ?thesis by (cases "convert v") auto
  qed
qed

text \<open>The whole number a decoded value is, if it is one.\<close>

fun whole_number :: "any \<Rightarrow> int option" where
  "whole_number (AnyFloat64 (Fin q)) = (if of_int \<lfloor>q\<rfloor> = q then Some \<lfloor>q\<rfloor> else None)"
| "whole_number (AnyInt n) = Some (sint n)"
| "whole_number (AnyInt64 n) = Some (sint n)"
| "whole_number (AnyUint64 n) = Some (uint n)"
| "whole_number _ = None"

lemma toInt_whole: "(\<exists>p. toInt wild v = Inr p) \<longleftrightarrow> whole_number v \<noteq> None"
  by (cases v rule: whole_number.cases) (simp_all add: toInt_def)

lemma sint_word_of_int_range: "- (2 ^ 63) \<le> i \<Longrightarrow> i < 2 ^ 63 \<Longrightarrow> sint (word_of_int i :: int64) = i"
  by (simp add: signed_of_int signed_take_bit_int_eq_self)

lemma sint_of_uint_range: "uint (w :: int64) < 2 ^ 63 \<Longrightarrow> sint w = uint w"
  using sint_word_of_int_range [of "uint w"] uint_ge_0 [of w] by simp

lemma sint_of_uint_wrap: "2 ^ 63 \<le> uint (w :: int64) \<Longrightarrow> sint w = uint w - 2 ^ 64"
proof -
  assume w: "2 ^ 63 \<le> uint w"
  have "uint w < 2 ^ 64" using unsigned_less [of w] by simp
  then have "sint (word_of_int (uint w - 2 ^ 64) :: int64) = uint w - 2 ^ 64"
    using w by (intro sint_word_of_int_range) simp_all
  moreover have "(word_of_int (uint w - 2 ^ 64) :: int64) = w"
  proof -
    have "(word_of_int (2 ^ 64) :: int64) = 0" by transfer simp
    then show ?thesis by (simp only: wi_hom_sub [symmetric] of_int_uint) simp
  qed
  ultimately show ?thesis by (simp only:)
qed

lemma toInt_exact:
  assumes "toInt wild v = Inr p" "whole_number v = Some i" "- (2 ^ 63) \<le> i" "i < 2 ^ 63"
  shows "\<exists>n. p = PInt n \<and> sint n = i"
  using assms
  by (cases v rule: whole_number.cases)
    (auto simp: toInt_def int64_of_float_def sint_word_of_int_range sint_of_uint_range split: if_splits)

section \<open>Comparisons\<close>

lemma bit_length_le: "n < 2 ^ k \<Longrightarrow> bit_length n \<le> k"
proof (induction n arbitrary: k rule: bit_length.induct)
  case (1 n)
  show ?case
  proof (cases "n = 0")
    case True
    then show ?thesis by (subst bit_length.simps) simp
  next
    case False
    with 1(2) obtain j where k: "k = Suc j" by (cases k) auto
    with 1(2) have "n div 2 < 2 ^ j" by auto
    from 1(1) [OF False this] k False show ?thesis by (simp add: bit_length.simps [of n])
  qed
qed

lemma round_nat_exact: "n \<le> 2 ^ 53 \<Longrightarrow> round_nat n = n"
proof (cases "n = 2 ^ 53")
  case True
  then show ?thesis by (simp add: round_nat_def) (simp add: bit_length.simps Let_def)
next
  case False
  assume "n \<le> 2 ^ 53"
  with False have "bit_length n \<le> 53" by (intro bit_length_le) simp
  then show ?thesis by (simp add: round_nat_def Let_def)
qed

lemma float_of_int_exact: "\<bar>i\<bar> \<le> 2 ^ 53 \<Longrightarrow> float_of_int i = Fin (of_int i)"
  by (simp add: float_of_int_def round_nat_exact nat_le_iff sgn_mult_abs)

text \<open>An integer literal matches a document's number exactly, up to 53 bits.\<close>

lemma equal_int_exact:
  assumes "\<bar>sint n\<bar> \<le> 2 ^ 53"
  shows "equal (AnyInt n) (AnyFloat64 x) \<longleftrightarrow> x = Fin (of_int (sint n))"
  using float_of_int_exact [OF assms] by (auto simp: equal_def asFloat_def float_eq_def)

lemma equal_scalar:
  "equal (AnyString s) got \<longleftrightarrow> got = AnyString s"
  "equal (AnyBool b) got \<longleftrightarrow> got = AnyBool b"
  "equal AnyNil got \<longleftrightarrow> got = AnyNil"
  by (cases got; auto simp: equal_def asFloat_def)+

section \<open>The nodes, as configured\<close>

lemma newGet_int:
  assumes "newGet tt wild decode cfg = Inr (Some n)" "decode cfg = Inr c" "gc_As c = ''Int''"
  shows "getter tt tInt (Split CHR ''.'' (gc_Path c)) (gc_Default c) (toInt wild) = Inr (Some n)"
  using assms by (simp add: newGet_def jsonpath_Parse_def Let_def split: if_splits)

lemma toInt_PInt: "toInt wild v = Inr p \<Longrightarrow> \<exists>k. p = PInt k"
  by (auto simp: toInt_def split: any.splits float64.splits if_splits)

lemma json_int_node:
  assumes "newGet tt wild decode cfg = Inr (Some n)" "decode cfg = Inr c" "gc_As c = ''Int''"
    and "Lookup doc (Split CHR ''.'' (gc_Path c)) = Some v"
  shows "\<exists>res. rn_Execute n w ec [NewValue tt (PDocument doc)] = Returns res \<and>
    (\<forall>i. whole_number v = Some i \<and> - (2 ^ 63) \<le> i \<and> i < 2 ^ 63 \<longrightarrow>
       (\<exists>k. rv_Err res = None \<and> rv_Value res = NewValue tt (PInt k) \<and> sint k = i)) \<and>
    (whole_number v = None \<longrightarrow>
       (\<exists>e. rv_Err res = Some e \<and> err_Kind e = KindInvalidInput \<and> err_Code e = ''type_mismatch'')) \<and>
    (\<forall>i. v = AnyFloat64 (Fin (of_int i)) \<and> (i < - (2 ^ 63) \<or> 2 ^ 63 \<le> i) \<longrightarrow>
       rv_Err res = None \<and> rv_Value res = NewValue tt (PInt (wild (of_int i)))) \<and>
    (\<forall>u. v = AnyUint64 u \<and> 2 ^ 63 \<le> uint u \<longrightarrow>
       (\<exists>k. rv_Err res = None \<and> rv_Value res = NewValue tt (PInt k) \<and> sint k = uint u - 2 ^ 64))"
proof -
  obtain fallback where "n = NewTypedNode tt tDocument tInt GetName
      (get_read (Split CHR ''.'' (gc_Path c)) fallback (toInt wild))"
    using newGet_int [OF assms(1-3)] unfolding getter_Inr by blast
  then have run: "rn_Execute n w ec [NewValue tt (PDocument doc)] =
      Returns (erase (TypeOf tt tInt) (case toInt wild v of Inl err \<Rightarrow> Fail err | Inr p \<Rightarrow> Ok p))"
    using assms(4) by (simp add: NewTypedNode_run get_read_def)
  have err: "toInt wild v = Inl e \<Longrightarrow> err_Kind e = KindInvalidInput \<and> err_Code e = ''type_mismatch''" for e
    using typed_converts(4) [of wild, unfolded typed_convert_def, rule_format, of v] by simp
  show ?thesis
  proof (cases "toInt wild v")
    case (Inl e)
    then have "whole_number v = None" using toInt_whole [of wild v] by auto
    then show ?thesis unfolding run using err [OF Inl] Inl by (auto simp: NewValue_def)
  next
    case (Inr p)
    define r where "r = erase (TypeOf tt tInt) (Ok p)"
    have data: "rv_Err r = None" "rv_Value r = NewValue tt p"
      using toInt_PInt [OF Inr] by (auto simp: NewValue_def r_def)
    have whole: "whole_number v \<noteq> None" using toInt_whole [of wild v] Inr by auto
    have within: "\<exists>k. rv_Err r = None \<and> rv_Value r = NewValue tt (PInt k) \<and> sint k = i"
      if "whole_number v = Some i" "- (2 ^ 63) \<le> i" "i < 2 ^ 63" for i
      using toInt_exact [OF Inr that] data by auto
    have wrapped: "\<exists>k. rv_Err r = None \<and> rv_Value r = NewValue tt (PInt k) \<and> sint k = uint u - 2 ^ 64"
      if "v = AnyUint64 u" "2 ^ 63 \<le> uint u" for u
      using that(1) Inr sint_of_uint_wrap [OF that(2)] data by (auto simp: toInt_def)
    have beyond: "rv_Err r = None \<and> rv_Value r = NewValue tt (PInt (wild (of_int i)))"
      if "v = AnyFloat64 (Fin (of_int i))" "i < - (2 ^ 63) \<or> 2 ^ 63 \<le> i" for i
      using that Inr data by (auto simp: toInt_def int64_of_float_def)
    show ?thesis unfolding run Inr sum.case r_def [symmetric]
      by (intro exI [of _ r] conjI allI impI refl) (use whole within wrapped beyond in \<open>blast+\<close>)
  qed
qed

lemma verdict_run:
  "rn_Execute (verdict tt test) w ec [NewValue tt (PDocument doc)] =
     Returns (erase (TypeOf tt tBool) (Ok (PBool (test doc))))"
  by (simp add: verdict_def NewTypedNode_run)

lemma condition_get_nodes:
  assumes "condition_newNode tt dc cfg = Inr (Some cn)" "dc cfg = Inr c" "cc_Exists c = Some want"
    and "newGet tt wild dg cfg' = Inr (Some gn)" "dg cfg' = Inr g" "gc_Path g = cc_Path c" "gc_Default g = None"
  shows "\<exists>path res. cc_Path c = join ''.'' path \<and> (\<forall>s\<in>set path. s \<noteq> '''' \<and> CHR ''.'' \<notin> set s) \<and>
    rn_Execute gn w ec [NewValue tt (PDocument doc)] = Returns res \<and>
    (rv_Err res = Some path_absent \<longleftrightarrow> Lookup doc path = None) \<and>
    rn_Execute cn w ec [NewValue tt (PDocument doc)] =
      Returns (erase (TypeOf tt tBool) (Ok (PBool ((rv_Err res \<noteq> Some path_absent) = want))))"
proof -
  obtain path where p: "jsonpath_Parse condition_Name (cc_Path c) = Inr path"
      "cn = verdict tt (\<lambda>r. (Lookup r path \<noteq> None) = want)"
    using assms(1-3) unfolding condition_newNode_Inr by auto
  obtain g' path' P convert where g: "dg cfg' = Inr g'" "jsonpath_Parse GetName (gc_Path g') = Inr path'"
      "getter tt P path' (gc_Default g') convert = Inr (Some gn)"
      "(gc_As g', P, convert) \<in> {(''Text'', tText, toText), (''Bytes'', tBytes, toBytes),
       (''Bool'', tBool, toBool), (''Int'', tInt, toInt wild)}"
    by (rule newGet_Inr [OF assms(4)])
  have gg: "g' = g" using g(1) assms(5) by simp
  have path: "path' = path" using p(1) g(2) assms(6) unfolding gg
    by (simp add: jsonpath_Parse_def Let_def split: if_splits)
  have typed: "typed_convert P convert" using g(4) typed_converts by auto
  have get: "getter tt P path None convert = Inr (Some gn)" using g(3) assms(7) unfolding gg path by simp
  obtain fallback where "gn = NewTypedNode tt tDocument P GetName (get_read path fallback convert)"
    using get unfolding getter_Inr by blast
  then obtain res where res: "rn_Execute gn w ec [NewValue tt (PDocument doc)] = Returns res"
    by (simp add: NewTypedNode_run get_read_def)
  from getter_absent_iff [OF get typed res] p res
  show ?thesis by (intro exI [of _ path] exI [of _ res]) (simp add: verdict_run jsonpath_Parse_Inr)
qed

end
