(* ===== verification/Nodes_Exec.thy ===== *)
theory Nodes_Exec
  imports Node_Kit
begin

text \<open>
  The nodes that run a local process (\<^verbatim>\<open>internal/nodes/exec\<close>): \<open>exec.command\<close>, \<open>exec\<close> and
  the three extractors. What the operating system did in one call is an observation: the
  outcome of \<open>c.Run()\<close>, the bytes written to the two pipes, and what the two contexts
  report afterwards.
\<close>

section \<open>exec.command\<close>

definition CommandName :: string where "CommandName = ''exec.command''"

record commandConfig =
  cmc_Name :: string
  cmc_Args :: "string list"
  cmc_Dir :: string
  cmc_Timeout :: string

definition command_timeout :: "(string \<Rightarrow> go_error + duration) \<Rightarrow> string \<Rightarrow> node_error + duration" where
  "command_timeout parseDuration s =
     (if s = '''' then Inr 0
      else (case parseDuration s of
              Inl err \<Rightarrow> Inl (Wrap err KindInvalidInput ''bad_timeout''
                  ''invalid timeout %q, want a duration such as \"5s\"'' [AStr s])
            | Inr parsed \<Rightarrow>
                if sint parsed \<le> 0
                then Inl (Errf KindInvalidInput ''bad_timeout'' ''timeout %q must be positive'' [AStr s])
                else Inr parsed))"

definition command_newNode ::
  "type_table \<Rightarrow> (string \<Rightarrow> go_error + duration) \<Rightarrow> ('c \<Rightarrow> go_error + commandConfig) \<Rightarrow> ('c, 'w) NodeNew" where
  "command_newNode tt parseDuration decode cfg =
     (case decode cfg of
        Inl err \<Rightarrow> Inl (ENode (Wrap err KindInvalidInput ''bad_config'' ''invalid %s configuration'' [AStr CommandName]))
      | Inr c \<Rightarrow>
          if cmc_Name c = '''' then
            Inl (ENode (Errf KindInvalidInput ''missing_name'' ''%s requires a name: the program to run'' [AStr CommandName]))
          else
            (case command_timeout parseDuration (cmc_Timeout c) of
               Inl err \<Rightarrow> Inl (ENode err)
             | Inr timeout \<Rightarrow>
                 let command = \<lparr>cm_Name = cmc_Name c, cm_Args = cmc_Args c, cm_Dir = cmc_Dir c, cm_Timeout = timeout\<rparr>
                 in Inr (Some (NewSource tt tCommand CommandName (\<lambda>_ _. Returns (Ok (PCommand command)))))))"

definition CommandDefinition ::
  "type_table \<Rightarrow> (string \<Rightarrow> go_error + duration) \<Rightarrow> ('c \<Rightarrow> go_error + commandConfig) \<Rightarrow> ('c, 'w) NodeNew Definition" where
  "CommandDefinition tt parseDuration decode =
     \<lparr>def_Name = CommandName, def_New = Some (command_newNode tt parseDuration decode)\<rparr>"

section \<open>exec\<close>

definition exec_Name :: string where "exec_Name = ''exec''"
definition killGrace :: duration where "killGrace = 500000000"

text \<open>
  The error of \<open>c.Run()\<close>: an \<open>*exec.ExitError\<close> with its exit code, one that \<open>errors.Is\<close> matches
  with \<open>exec.ErrNotFound\<close> or \<open>fs.ErrNotExist\<close>, \<open>exec.ErrWaitDelay\<close> (the process exited but a
  pipe was still open when the delay ended), or any other.
\<close>

datatype run_error = ExitError int64 go_error | NotFoundError go_error | WaitDelayError go_error | OtherError go_error

fun run_error_of :: "run_error \<Rightarrow> go_error" where
  "run_error_of (ExitError _ e) = e"
| "run_error_of (NotFoundError e) = e"
| "run_error_of (WaitDelayError e) = e"
| "run_error_of (OtherError e) = e"

record proc_obs =
  po_Run :: "run_error option"
  po_Stdout :: bytes
  po_Stderr :: bytes
  po_Outer :: "ctx_err option"
  po_Inner :: "ctx_err option"

definition normalize_ctx :: "ctx_err \<Rightarrow> node_error" where
  "normalize_ctx e = the (Normalize (Some (ctx_error e)) ''cancelled'')"

definition classify ::
  "ctx_err option \<Rightarrow> ctx_err option \<Rightarrow> Command \<Rightarrow> run_error \<Rightarrow> node_error + int64" where
  "classify outer inner cmd err =
     (case outer of
        Some e \<Rightarrow> Inl (normalize_ctx e)
      | None \<Rightarrow>
          if inner \<noteq> None then
            Inl (Errf KindTransient ''timeout'' ''command %q was killed after %s''
                   [AStr (cm_Name cmd), AInt (sint (cm_Timeout cmd))])
          else
            (case err of
               ExitError code _ \<Rightarrow> Inr code
             | NotFoundError e \<Rightarrow>
                 Inl (Wrap e KindPermanent ''not_found'' ''command %q was not found'' [AStr (cm_Name cmd)])
             | e \<Rightarrow>
                 Inl (Wrap (run_error_of e) KindPermanent ''start_failed'' ''command %q could not be started''
                        [AStr (cm_Name cmd)])))"

definition exec_run :: "('w \<Rightarrow> Command \<Rightarrow> proc_obs) \<Rightarrow> 'w \<Rightarrow> ExecutionContext \<Rightarrow> payload \<Rightarrow> Result call" where
  "exec_run process w ec p =
     (case p of
        PCommand cmd \<Rightarrow>
          Returns
            (if cm_Name cmd = '''' then Fail (Errf KindInvalidInput ''no_command'' ''command has no name'' [])
             else
               let o' = process w cmd in
               (case (case po_Run o' of
                        None \<Rightarrow> Inr 0
                      | Some err \<Rightarrow>
                          classify (po_Outer o')
                            (if sint (cm_Timeout cmd) > 0 then po_Inner o' else po_Outer o') cmd err) of
                  Inl nerr \<Rightarrow> Fail nerr
                | Inr exitCode \<Rightarrow>
                    Ok (PCommandResult \<lparr>cr_ExitCode = exitCode, cr_Stdout = po_Stdout o', cr_Stderr = po_Stderr o'\<rparr>)))
      | _ \<Rightarrow> nil_deref)"

definition runner :: "type_table \<Rightarrow> ('w \<Rightarrow> Command \<Rightarrow> proc_obs) \<Rightarrow> 'w RuntimeNode" where
  "runner tt process = AsStoppable (NewTypedNode tt tCommand tCommandResult exec_Name (exec_run process))"

definition exec_Definition ::
  "type_table \<Rightarrow> ('w \<Rightarrow> Command \<Rightarrow> proc_obs) \<Rightarrow> ('c \<Rightarrow> go_error option) \<Rightarrow> ('c, 'w) NodeNew Definition" where
  "exec_Definition tt process decode = Static decode exec_Name (runner tt process)"

section \<open>The extractors\<close>

definition StdoutName :: string where "StdoutName = ''exec.stdout''"
definition StderrName :: string where "StderrName = ''exec.stderr''"
definition ExitCodeName :: string where "ExitCodeName = ''exec.exit_code''"

definition StdoutDefinition :: "type_table \<Rightarrow> ('c \<Rightarrow> go_error option) \<Rightarrow> ('c, 'w) NodeNew Definition" where
  "StdoutDefinition tt decode = Extractor tt decode tCommandResult tBytes StdoutName
     (\<lambda>p. case p of PCommandResult r \<Rightarrow> Returns (Ok (PBytes (cr_Stdout r))) | _ \<Rightarrow> nil_deref)"

definition StderrDefinition :: "type_table \<Rightarrow> ('c \<Rightarrow> go_error option) \<Rightarrow> ('c, 'w) NodeNew Definition" where
  "StderrDefinition tt decode = Extractor tt decode tCommandResult tBytes StderrName
     (\<lambda>p. case p of PCommandResult r \<Rightarrow> Returns (Ok (PBytes (cr_Stderr r))) | _ \<Rightarrow> nil_deref)"

definition ExitCodeDefinition :: "type_table \<Rightarrow> ('c \<Rightarrow> go_error option) \<Rightarrow> ('c, 'w) NodeNew Definition" where
  "ExitCodeDefinition tt decode = Extractor tt decode tCommandResult tInt ExitCodeName
     (\<lambda>p. case p of PCommandResult r \<Rightarrow> Returns (Ok (PInt (cr_ExitCode r))) | _ \<Rightarrow> nil_deref)"

section \<open>The constructors are sound\<close>

lemma command_timeout_Inr:
  "command_timeout parseDuration s = Inr d \<longleftrightarrow>
     (s = '''' \<and> d = 0) \<or> (s \<noteq> '''' \<and> parseDuration s = Inr d \<and> 0 < sint d)"
  by (auto simp: command_timeout_def split: sum.splits)

lemma command_newNode_Inr:
  "command_newNode tt parseDuration decode cfg = Inr (Some n) \<longleftrightarrow>
     (\<exists>c timeout. decode cfg = Inr c \<and> cmc_Name c \<noteq> '''' \<and>
        command_timeout parseDuration (cmc_Timeout c) = Inr timeout \<and>
        n = NewSource tt tCommand CommandName (\<lambda>_ _. Returns (Ok (PCommand
              \<lparr>cm_Name = cmc_Name c, cm_Args = cmc_Args c, cm_Dir = cmc_Dir c, cm_Timeout = timeout\<rparr>))))"
proof (cases "decode cfg")
  case (Inl e)
  then show ?thesis by (simp add: command_newNode_def)
next
  case (Inr c)
  then show ?thesis
    by (cases "command_timeout parseDuration (cmc_Timeout c)") (auto simp: command_newNode_def)
qed

lemma command_newNode_sound:
  assumes "has_domain tt"
  shows "sound_new tt (command_newNode tt parseDuration decode)"
proof (rule sound_newI)
  fix cfg n assume "command_newNode tt parseDuration decode cfg = Inr (Some n)"
  then obtain cmd where "n = NewSource tt tCommand CommandName (\<lambda>_ _. Returns (Ok (PCommand cmd)))"
    unfolding command_newNode_Inr by blast
  then have "node_sound tt [] tCommand n" by (simp add: NewSource_sound)
  then show "\<exists>Is O'. node_sound tt Is O' n \<and> (\<forall>t\<in>set (O' # Is). registered tt t)"
    by (rule typed_new) (simp_all add: assms)
qed

lemma normalize_ctx_simps [simp]:
  "err_Kind (normalize_ctx e) = KindCancelled" "\<not> err_Retryable (normalize_ctx e)"
  "\<not> engine_error (normalize_ctx e)"
  by (cases e; simp add: normalize_ctx_def engine_error_def)+

lemma exec_run_typed: "dyn_type p = tCommand \<Longrightarrow> typed_call tCommandResult (exec_run process w ec p)"
  by (simp add: exec_run_def classify_def Let_def split: payload.split option.split run_error.split)

lemma runner_sound: "node_sound tt [tCommand] tCommandResult (runner tt process)"
  unfolding runner_def AsStoppable_sound by (rule NewTypedNode_sound) (simp add: exec_run_typed)

section \<open>What a step that runs a process reports\<close>

text \<open>
  \<open>outran\<close>: the command's own timeout had a say and its context is over. \<open>ran_to_end\<close>: the
  process exited, cleanly or with a code, while nothing was cutting it short.
\<close>

definition outran :: "Command \<Rightarrow> proc_obs \<Rightarrow> bool" where
  "outran cmd o' \<longleftrightarrow> 0 < sint (cm_Timeout cmd) \<and> po_Inner o' \<noteq> None"

definition ran_to_end :: "Command \<Rightarrow> proc_obs \<Rightarrow> int64 \<Rightarrow> bool" where
  "ran_to_end cmd o' code \<longleftrightarrow>
     po_Run o' = None \<and> code = 0 \<or>
     po_Outer o' = None \<and> \<not> outran cmd o' \<and> (\<exists>e. po_Run o' = Some (ExitError code e))"

definition as_data :: "proc_obs \<Rightarrow> int64 \<Rightarrow> payload" where
  "as_data o' code = PCommandResult \<lparr>cr_ExitCode = code, cr_Stdout = po_Stdout o', cr_Stderr = po_Stderr o'\<rparr>"

text \<open>How every way of not running to an end is reported: the error's kind, code and retryability.\<close>

definition failed_as :: "ErrorKind \<Rightarrow> string \<Rightarrow> bool \<Rightarrow> node_error option \<Rightarrow> bool" where
  "failed_as kind code retryable r \<longleftrightarrow>
     (\<exists>e. r = Some e \<and> err_Kind e = kind \<and> err_Code e = code \<and> (err_Retryable e \<longleftrightarrow> retryable))"

fun cut_code :: "ctx_err \<Rightarrow> string" where
  "cut_code Canceled = ''cancelled''"
| "cut_code DeadlineExceeded = ''deadline_exceeded''"

lemma normalize_ctx_code: "err_Code (normalize_ctx e) = cut_code e"
  by (cases e) (simp_all add: normalize_ctx_def)

lemmas exec_run_defs = exec_run_def classify_def outran_def Let_def Ok_def Fail_def as_data_def

text \<open>Every end of a process, one by one.\<close>

lemma exec_run_ends:
  assumes name: "cm_Name cmd \<noteq> ''''" and run: "exec_run process w ec (PCommand cmd) = Returns r"
  defines "o' \<equiv> process w cmd"
  shows "ran_to_end cmd o' code \<Longrightarrow> r = Ok (as_data o' code)"
    and "po_Run o' \<noteq> None \<Longrightarrow> po_Outer o' = Some c \<Longrightarrow> failed_as KindCancelled (cut_code c) False (res_Err r)"
    and "po_Run o' \<noteq> None \<Longrightarrow> po_Outer o' = None \<Longrightarrow> outran cmd o' \<Longrightarrow> failed_as KindTransient ''timeout'' True (res_Err r)"
    and "po_Run o' = Some (NotFoundError e) \<Longrightarrow> po_Outer o' = None \<Longrightarrow> \<not> outran cmd o' \<Longrightarrow>
      failed_as KindPermanent ''not_found'' False (res_Err r)"
    and "po_Run o' \<in> {Some (WaitDelayError e), Some (OtherError e)} \<Longrightarrow> po_Outer o' = None \<Longrightarrow> \<not> outran cmd o' \<Longrightarrow>
      failed_as KindPermanent ''start_failed'' False (res_Err r)"
  using run name unfolding o'_def [symmetric]
  by (auto simp: exec_run_defs ran_to_end_def failed_as_def normalize_ctx_code o'_def [symmetric] split: if_splits option.splits)

lemma run_error_cases:
  "po_Run o' = None \<or> po_Outer o' \<noteq> None \<or> outran cmd o' \<or> (\<exists>code. ran_to_end cmd o' code) \<or>
   (\<exists>e. po_Run o' \<in> {Some (NotFoundError e), Some (WaitDelayError e), Some (OtherError e)})"
  by (cases "po_Run o'"; cases "the (po_Run o')") (auto simp: ran_to_end_def)

text \<open>The same facts of the node, through its adapter.\<close>

lemma runner_run:
  "rn_Execute (runner tt process) w ec [NewValue tt (PCommand cmd)] =
     map_call (erase (TypeOf tt tCommandResult)) (exec_run process w ec (PCommand cmd))"
  by (simp add: runner_def AsStoppable_def NewTypedNode_run)

lemma erase_Err: "rv_Err (erase ty r) = res_Err r"
  by (simp add: erase_def split: option.split)

lemma runner_reports:
  assumes "cm_Name cmd \<noteq> ''''" "rn_Execute (runner tt process) w ec [NewValue tt (PCommand cmd)] = Returns res"
  defines "o' \<equiv> process w cmd"
  shows "HonoursCancellation (Some (runner tt process)) \<and>
    (rv_Err res = None \<longleftrightarrow> (\<exists>code. ran_to_end cmd o' code)) \<and>
    (\<forall>code. ran_to_end cmd o' code \<longrightarrow> rv_Value res = NewValue tt (as_data o' code)) \<and>
    (\<forall>c. po_Run o' \<noteq> None \<and> po_Outer o' = Some c \<longrightarrow> failed_as KindCancelled (cut_code c) False (rv_Err res)) \<and>
    (po_Run o' \<noteq> None \<and> po_Outer o' = None \<and> outran cmd o' \<longrightarrow> failed_as KindTransient ''timeout'' True (rv_Err res)) \<and>
    (po_Outer o' = None \<and> \<not> outran cmd o' \<longrightarrow>
       (\<forall>e. po_Run o' = Some (NotFoundError e) \<longrightarrow> failed_as KindPermanent ''not_found'' False (rv_Err res)) \<and>
       (\<forall>e. po_Run o' = Some (OtherError e) \<longrightarrow> failed_as KindPermanent ''start_failed'' False (rv_Err res)) \<and>
       (\<forall>e. po_Run o' = Some (WaitDelayError e) \<longrightarrow> failed_as KindPermanent ''start_failed'' False (rv_Err res)))"
proof -
  obtain r where r: "exec_run process w ec (PCommand cmd) = Returns r" "res = erase (TypeOf tt tCommandResult) r"
    using assms(2) unfolding runner_run map_call_Returns by blast
  have err: "rv_Err res = res_Err r" by (simp add: r(2) erase_Err)
  note ends = exec_run_ends [OF assms(1) r(1), folded o'_def, folded err]
  have data: "rv_Err res = None" "rv_Value res = NewValue tt (as_data o' code)" if "ran_to_end cmd o' code" for code
    using ends(1) [OF that] by (simp_all add: r(2) NewValue_def as_data_def)
  have some: "failed_as k c b x \<Longrightarrow> x \<noteq> None" for k c b x by (auto simp: failed_as_def)
  have "\<exists>code. ran_to_end cmd o' code" if ok: "rv_Err res = None"
  proof (cases "po_Run o' = None \<or> po_Outer o' \<noteq> None \<or> outran cmd o'")
    case True
    then have "po_Run o' = None" using ends(2,3) [THEN some] ok by (cases "po_Outer o'") blast+
    then show ?thesis by (simp add: ran_to_end_def)
  next
    case False
    then show ?thesis using ends(4,5) [THEN some] ok run_error_cases [of o' cmd] by blast
  qed
  then have "rv_Err res = None \<longleftrightarrow> (\<exists>code. ran_to_end cmd o' code)" using data(1) by blast
  moreover have "HonoursCancellation (Some (runner tt process))"
    by (simp add: HonoursCancellation_def runner_def AsStoppable_def)
  ultimately show ?thesis by (intro conjI allI impI) (use data(2) ends(2-5) in \<open>blast+\<close>)
qed

end
