(* ===== verification/Nodes_Http.thy ===== *)
theory Nodes_Http
  imports Nodes_Exec
begin

text \<open>
  The HTTP nodes (\<^verbatim>\<open>internal/nodes/httpnode\<close>) and \<open>NewCheckedURL\<close>
  (\<^verbatim>\<open>internal/nodes/types/types.go\<close>). What one call gets from the network is an observation:
  the outcome of \<open>client.Do\<close>, the reply's body with the error behind it, and what the context
  reports. \<open>url.Parse\<close>, \<open>net.SplitHostPort\<close> and \<open>net.ParseIP\<close> are parameters, and so is the
  order in which the runtime iterates a map.
\<close>

section \<open>Checked URLs\<close>

record url_parts =
  up_Scheme :: string
  up_Host :: string

definition NewCheckedURL ::
  "(string \<Rightarrow> go_error + url_parts) \<Rightarrow> string \<Rightarrow> string \<Rightarrow> node_error + CheckedURL" where
  "NewCheckedURL parseURL capability raw =
     (if raw = '''' then
        Inl (Errf KindInvalidInput ''missing_url'' ''%s requires a url'' [AStr capability])
      else
        (case parseURL raw of
           Inl err \<Rightarrow> Inl (Wrap err KindInvalidInput ''bad_url'' ''invalid url %q'' [AStr raw])
         | Inr parsed \<Rightarrow>
             if up_Scheme parsed \<noteq> ''http'' \<and> up_Scheme parsed \<noteq> ''https'' then
               Inl (Errf KindInvalidInput ''bad_url'' ''url %q must use the http or https scheme'' [AStr raw])
             else if up_Host parsed = '''' then
               Inl (Errf KindInvalidInput ''bad_url'' ''url %q has no host'' [AStr raw])
             else Inr (CheckedURL raw)))"

section \<open>Header names\<close>

definition token_byte :: "char \<Rightarrow> bool" where
  "token_byte c \<longleftrightarrow>
     (CHR ''a'' \<le> c \<and> c \<le> CHR ''z'') \<or> (CHR ''A'' \<le> c \<and> c \<le> CHR ''Z'') \<or> is_digit c \<or>
     c \<in> set [CHR ''!'', CHR ''#'', CHR ''$'', CHR ''%'', CHR ''&'', CHR 0x27, CHR ''*'', CHR ''+'', CHR ''-'',
              CHR ''.'', CHR ''^'', CHR ''_'', CHR 0x60, CHR ''|'', CHR ''~'']"

text \<open>\<open>textproto.CanonicalMIMEHeaderKey\<close>: unchanged when a byte cannot occur in a header name.\<close>

fun canonical_from :: "bool \<Rightarrow> string \<Rightarrow> string" where
  "canonical_from upper [] = []"
| "canonical_from upper (c # s) =
     (if upper then upper_char c else lower_char c) # canonical_from (c = CHR ''-'') s"

definition CanonicalMIMEHeaderKey :: "string \<Rightarrow> string" where
  "CanonicalMIMEHeaderKey s = (if list_all token_byte s then canonical_from True s else s)"

section \<open>http.build and http.from_url\<close>

definition BuildName :: string where "BuildName = ''http.build''"
definition FromURLName :: string where "FromURLName = ''http.from_url''"

record buildConfig =
  bc_Method :: string
  bc_URL :: string
  bc_Headers :: "string gomap"
  bc_Body :: string

definition default_method :: "string \<Rightarrow> string" where
  "default_method m = (let method = ToUpper m in if method = '''' then ''GET'' else method)"

definition build_newNode ::
  "type_table \<Rightarrow> (string \<Rightarrow> go_error + url_parts) \<Rightarrow> ('c \<Rightarrow> go_error + buildConfig) \<Rightarrow> ('c, 'w) NodeNew" where
  "build_newNode tt parseURL decode cfg =
     (case decode cfg of
        Inl err \<Rightarrow> Inl (ENode (Wrap err KindInvalidInput ''bad_config'' ''invalid %s configuration'' [AStr BuildName]))
      | Inr c \<Rightarrow>
          (case NewCheckedURL parseURL BuildName (bc_URL c) of
             Inl err \<Rightarrow> Inl (ENode err)
           | Inr cu \<Rightarrow>
               let request = \<lparr>rq_Method = default_method (bc_Method c), rq_URL = cu,
                              rq_Headers = bc_Headers c, rq_Body = bc_Body c\<rparr>
               in Inr (Some (NewSource tt tRequest BuildName (\<lambda>_ _. Returns (Ok (PRequest request)))))))"

definition BuildDefinition ::
  "type_table \<Rightarrow> (string \<Rightarrow> go_error + url_parts) \<Rightarrow> ('c \<Rightarrow> go_error + buildConfig) \<Rightarrow> ('c, 'w) NodeNew Definition" where
  "BuildDefinition tt parseURL decode = \<lparr>def_Name = BuildName, def_New = Some (build_newNode tt parseURL decode)\<rparr>"

definition from_url ::
  "(string \<Rightarrow> go_error + url_parts) \<Rightarrow> string \<Rightarrow> 'w \<Rightarrow> ExecutionContext \<Rightarrow> payload \<Rightarrow> Result call" where
  "from_url parseURL method w ec url =
     (case url of
        PText u \<Rightarrow>
          Returns (case NewCheckedURL parseURL FromURLName u of
             Inl err \<Rightarrow> Fail err
           | Inr cu \<Rightarrow>
               Ok (PRequest \<lparr>rq_Method = method, rq_URL = cu, rq_Headers = [], rq_Body = []\<rparr>))
      | _ \<Rightarrow> nil_deref)"

definition from_url_newNode ::
  "type_table \<Rightarrow> (string \<Rightarrow> go_error + url_parts) \<Rightarrow> ('c \<Rightarrow> go_error + string) \<Rightarrow> ('c, 'w) NodeNew" where
  "from_url_newNode tt parseURL decode cfg =
     (case decode cfg of
        Inl err \<Rightarrow> Inl (ENode (Wrap err KindInvalidInput ''bad_config'' ''invalid %s configuration'' [AStr FromURLName]))
      | Inr m \<Rightarrow> Inr (Some (NewTypedNode tt tText tRequest FromURLName (from_url parseURL (default_method m)))))"

definition FromURLDefinition ::
  "type_table \<Rightarrow> (string \<Rightarrow> go_error + url_parts) \<Rightarrow> ('c \<Rightarrow> go_error + string) \<Rightarrow> ('c, 'w) NodeNew Definition" where
  "FromURLDefinition tt parseURL decode =
     \<lparr>def_Name = FromURLName, def_New = Some (from_url_newNode tt parseURL decode)\<rparr>"

section \<open>http.with_header and http.with_body\<close>

definition WithHeaderName :: string where "WithHeaderName = ''http.with_header''"
definition WithBodyName :: string where "WithBodyName = ''http.with_body''"

text \<open>\<open>range' w m\<close> is the sequence of entries a \<open>range\<close> over the map \<open>m\<close> visits.\<close>

type_synonym 'w map_order = "'w \<Rightarrow> string gomap \<Rightarrow> (string \<times> string) list"

definition canonical_headers :: "(string \<times> string) list \<Rightarrow> string gomap" where
  "canonical_headers entries = fold (\<lambda>(k, v) h. put (CanonicalMIMEHeaderKey k) v h) entries []"

definition with_header ::
  "'w map_order \<Rightarrow> string \<Rightarrow> 'w \<Rightarrow> ExecutionContext \<Rightarrow> payload \<Rightarrow> payload \<Rightarrow> Result call" where
  "with_header range' name w ec req v =
     (case req of
        PRequest r \<Rightarrow>
          (case v of
             PText t \<Rightarrow>
               Returns (Ok (PRequest (r\<lparr>rq_Headers :=
                 put name t (canonical_headers (range' w (rq_Headers r)))\<rparr>)))
           | _ \<Rightarrow> nil_deref)
      | _ \<Rightarrow> nil_deref)"

definition with_header_newNode ::
  "type_table \<Rightarrow> 'w map_order \<Rightarrow> ('c \<Rightarrow> go_error + string) \<Rightarrow> ('c, 'w) NodeNew" where
  "with_header_newNode tt range' decode cfg =
     (case decode cfg of
        Inl err \<Rightarrow> Inl (ENode (Wrap err KindInvalidInput ''bad_config'' ''invalid %s configuration'' [AStr WithHeaderName]))
      | Inr nm \<Rightarrow>
          if nm = '''' then
            Inl (ENode (Errf KindInvalidInput ''missing_name'' ''%s requires a name: the header to set'' [AStr WithHeaderName]))
          else Inr (Some (NewTypedNode2 tt tRequest tText tRequest WithHeaderName
                 (with_header range' (CanonicalMIMEHeaderKey nm)))))"

definition WithHeaderDefinition ::
  "type_table \<Rightarrow> 'w map_order \<Rightarrow> ('c \<Rightarrow> go_error + string) \<Rightarrow> ('c, 'w) NodeNew Definition" where
  "WithHeaderDefinition tt range' decode =
     \<lparr>def_Name = WithHeaderName, def_New = Some (with_header_newNode tt range' decode)\<rparr>"

definition with_body :: "'w \<Rightarrow> ExecutionContext \<Rightarrow> payload \<Rightarrow> payload \<Rightarrow> Result call" where
  "with_body w ec req body =
     (case req of
        PRequest r \<Rightarrow>
          (case body of PBytes b \<Rightarrow> Returns (Ok (PRequest (r\<lparr>rq_Body := b\<rparr>))) | _ \<Rightarrow> nil_deref)
      | _ \<Rightarrow> nil_deref)"

definition WithBodyDefinition :: "type_table \<Rightarrow> ('c \<Rightarrow> go_error option) \<Rightarrow> ('c, 'w) NodeNew Definition" where
  "WithBodyDefinition tt decode =
     Static decode WithBodyName (NewTypedNode2 tt tRequest tBytes tRequest WithBodyName with_body)"

section \<open>The destination policy\<close>

text \<open>A \<open>net.IP\<close> is its bytes, four or sixteen of them; \<open>nil\<close> is \<open>None\<close>.\<close>

type_synonym IP = "8 word list"

definition To4 :: "IP \<Rightarrow> IP option" where
  "To4 ip =
     (if length ip = 4 then Some ip
      else if length ip = 16 \<and> take 10 ip = replicate 10 0 \<and> ip ! 10 = 0xff \<and> ip ! 11 = 0xff
      then Some (drop 12 ip) else None)"

definition IPv6loopback :: IP where "IPv6loopback = replicate 15 0 @ [1]"

definition IsLoopback :: "IP \<Rightarrow> bool" where
  "IsLoopback ip = (case To4 ip of Some ip4 \<Rightarrow> ip4 ! 0 = 127 | None \<Rightarrow> ip = IPv6loopback)"

definition IsLinkLocalUnicast :: "IP \<Rightarrow> bool" where
  "IsLinkLocalUnicast ip =
     (case To4 ip of
        Some ip4 \<Rightarrow> ip4 ! 0 = 169 \<and> ip4 ! 1 = 254
      | None \<Rightarrow> length ip = 16 \<and> ip ! 0 = 0xfe \<and> and (ip ! 1) 0xc0 = 0x80)"

definition IsLinkLocalMulticast :: "IP \<Rightarrow> bool" where
  "IsLinkLocalMulticast ip =
     (case To4 ip of
        Some ip4 \<Rightarrow> ip4 ! 0 = 224 \<and> ip4 ! 1 = 0 \<and> ip4 ! 2 = 0
      | None \<Rightarrow> length ip = 16 \<and> ip ! 0 = 0xff \<and> and (ip ! 1) 0x0f = 0x02)"

definition IsPrivate :: "IP \<Rightarrow> bool" where
  "IsPrivate ip =
     (case To4 ip of
        Some ip4 \<Rightarrow> ip4 ! 0 = 10 \<or> (ip4 ! 0 = 172 \<and> and (ip4 ! 1) 0xf0 = 16) \<or> (ip4 ! 0 = 192 \<and> ip4 ! 1 = 168)
      | None \<Rightarrow> length ip = 16 \<and> and (ip ! 0) 0xfe = 0xfc)"

definition IsUnspecified :: "IP \<Rightarrow> bool" where
  "IsUnspecified ip \<longleftrightarrow> To4 ip = Some [0, 0, 0, 0] \<or> ip = replicate 16 0"

definition IsMulticast :: "IP \<Rightarrow> bool" where
  "IsMulticast ip =
     (case To4 ip of
        Some ip4 \<Rightarrow> and (ip4 ! 0) 0xf0 = 0xe0
      | None \<Rightarrow> length ip = 16 \<and> ip ! 0 = 0xff)"

definition IsInterfaceLocalMulticast :: "IP \<Rightarrow> bool" where
  "IsInterfaceLocalMulticast ip \<longleftrightarrow> length ip = 16 \<and> ip ! 0 = 0xff \<and> and (ip ! 1) 0x0f = 0x01"

definition ip_arg :: "IP \<Rightarrow> farg" where
  "ip_arg ip = AQuoted (map (\<lambda>b. [char_of (uint b)]) ip)"

definition blockedDestination :: "IP option \<Rightarrow> go_error option" where
  "blockedDestination dest =
     (case dest of
        None \<Rightarrow> Some (EFmt (Sprintf ''could not parse the destination address'' []))
      | Some ip \<Rightarrow>
          if IsLoopback ip then Some (EFmt (Sprintf ''%s is a loopback address'' [ip_arg ip]))
          else if IsLinkLocalUnicast ip \<or> IsLinkLocalMulticast ip then
            Some (EFmt (Sprintf ''%s is a link-local address, which is where cloud metadata lives'' [ip_arg ip]))
          else if IsPrivate ip then Some (EFmt (Sprintf ''%s is a private address'' [ip_arg ip]))
          else if IsUnspecified ip then Some (EFmt (Sprintf ''%s is the unspecified address'' [ip_arg ip]))
          else if IsMulticast ip \<or> IsInterfaceLocalMulticast ip then
            Some (EFmt (Sprintf ''%s is a multicast address'' [ip_arg ip]))
          else None)"

definition controlDestination ::
  "(string \<Rightarrow> go_error + string) \<Rightarrow> (string \<Rightarrow> IP option) \<Rightarrow> string \<Rightarrow> go_error option" where
  "controlDestination splitHost parseIP address =
     (case splitHost address of
        Inl err \<Rightarrow> Some (EWrap (Sprintf ''refusing to dial %q: %w'' [AStr address]) err)
      | Inr host \<Rightarrow>
          (case blockedDestination (parseIP host) of
             Some err \<Rightarrow>
               Some (EWrap (Sprintf ''refusing to dial %s: %w, and this step did not set allow_private'' [AStr address]) err)
           | None \<Rightarrow> None))"

section \<open>http.request\<close>

definition RequestName :: string where "RequestName = ''http.request''"
definition BodyName :: string where "BodyName = ''http.body''"
definition defaultTimeout :: duration where "defaultTimeout = 30000000000"
definition defaultMaxBodyBytes :: int64 where "defaultMaxBodyBytes = 10485760"
definition maxRedirects :: nat where "maxRedirects = 10"

text \<open>\<open>tp_Control\<close> is the dialer's hook; the guarded transport has one and the open one has none.\<close>

record transport =
  tp_Control :: "(string \<Rightarrow> go_error option) option"
  tp_DialTimeout :: duration
  tp_KeepAlive :: duration
  tp_MaxIdleConns :: int
  tp_MaxIdleConnsPerHost :: int
  tp_IdleConnTimeout :: duration
  tp_TLSHandshakeTimeout :: duration
  tp_ExpectContinueTimeout :: duration

definition newTransport :: "(string \<Rightarrow> go_error option) option \<Rightarrow> transport" where
  "newTransport control =
     \<lparr>tp_Control = control, tp_DialTimeout = 10000000000, tp_KeepAlive = 30000000000,
      tp_MaxIdleConns = 100, tp_MaxIdleConnsPerHost = 32, tp_IdleConnTimeout = 90000000000,
      tp_TLSHandshakeTimeout = 10000000000, tp_ExpectContinueTimeout = 1000000000\<rparr>"

definition guardedTransport ::
  "(string \<Rightarrow> go_error + string) \<Rightarrow> (string \<Rightarrow> IP option) \<Rightarrow> transport" where
  "guardedTransport splitHost parseIP = newTransport (Some (controlDestination splitHost parseIP))"

definition openTransport :: transport where
  "openTransport = newTransport None"

text \<open>\<open>checkRedirect\<close> sees the next request's scheme and the number of requests made so far.\<close>

definition checkRedirect :: "string \<Rightarrow> nat \<Rightarrow> go_error option" where
  "checkRedirect scheme via =
     (if via \<ge> maxRedirects then Some (EFmt (Sprintf ''stopped after %d redirects'' [AInt (int maxRedirects)]))
      else if scheme \<noteq> ''http'' \<and> scheme \<noteq> ''https''
      then Some (EFmt (Sprintf ''refusing to follow a redirect to scheme %q'' [AStr scheme]))
      else None)"

record requestConfig =
  rc_Timeout :: string
  rc_MaxBodyBytes :: int64
  rc_AllowPrivate :: bool

record http_client =
  hc_Transport :: transport
  hc_Timeout :: duration
  hc_CheckRedirect :: "string \<Rightarrow> nat \<Rightarrow> go_error option"

definition parseTimeout :: "(string \<Rightarrow> go_error + duration) \<Rightarrow> string \<Rightarrow> node_error + duration" where
  "parseTimeout parseDuration s =
     (if s = '''' then Inr defaultTimeout
      else (case parseDuration s of
              Inl err \<Rightarrow> Inl (Wrap err KindInvalidInput ''bad_config'' ''timeout %q is not a duration such as \"10s\"'' [AStr s])
            | Inr d \<Rightarrow>
                if sint d \<le> 0 then Inl (Errf KindInvalidInput ''bad_config'' ''timeout must be positive, got %q'' [AStr s])
                else Inr d))"

definition maxBodyBytes :: "int64 \<Rightarrow> node_error + int64" where
  "maxBodyBytes n =
     (if n = 0 then Inr defaultMaxBodyBytes
      else if sint n < 0
      then Inl (Errf KindInvalidInput ''bad_config'' ''max_body_bytes must be positive, got %d'' [AInt (sint n)])
      else Inr n)"

text \<open>The \<open>*http.Request\<close> that \<open>build\<close> makes.\<close>

record out_request =
  oq_Method :: string
  oq_URL :: url_parts
  oq_Header :: "string gomap"
  oq_Body :: "bytes option"

definition NewRequest ::
  "(string \<Rightarrow> go_error + url_parts) \<Rightarrow> string \<Rightarrow> string \<Rightarrow> bytes option \<Rightarrow> go_error + out_request" where
  "NewRequest parseURL method url body =
     (if method = '''' \<or> \<not> list_all token_byte method
      then Inl (EFmt (Sprintf ''net/http: invalid method %q'' [AStr method]))
      else (case parseURL url of
              Inl err \<Rightarrow> Inl err
            | Inr u \<Rightarrow> Inr \<lparr>oq_Method = method, oq_URL = u, oq_Header = [], oq_Body = body\<rparr>))"

definition http_build ::
  "(string \<Rightarrow> go_error + url_parts) \<Rightarrow> 'w map_order \<Rightarrow> 'w \<Rightarrow> Request \<Rightarrow> node_error + out_request" where
  "http_build parseURL range' w req =
     (let method = (if rq_Method req = '''' then ''GET'' else rq_Method req);
          body = (if rq_Body req \<noteq> [] then Some (rq_Body req) else None)
      in case NewRequest parseURL method (url_value (rq_URL req)) body of
           Inl err \<Rightarrow> Inl (Wrap err KindPermanent ''invalid_request'' ''cannot build a %s request for %q''
                            [AStr method, AStr (url_value (rq_URL req))])
         | Inr httpReq \<Rightarrow>
             if up_Scheme (oq_URL httpReq) \<noteq> ''http'' \<and> up_Scheme (oq_URL httpReq) \<noteq> ''https'' then
               Inl (Errf KindPermanent ''unsupported_scheme'' ''scheme %q in %q is not supported, want http or https''
                      [AStr (up_Scheme (oq_URL httpReq)), AStr (url_value (rq_URL req))])
             else Inr (httpReq\<lparr>oq_Header := canonical_headers (range' w (rq_Headers req))\<rparr>))"

text \<open>What \<open>client.Do\<close> and the read of the body yielded, and \<open>ctx.Err()\<close> after a failure.\<close>

record http_reply =
  re_Status :: int64
  re_Header :: "string list gomap"
  re_Body :: bytes
  re_BodyErr :: "go_error option"

record http_obs =
  ob_Do :: "(go_error \<times> bool) + http_reply"
  ob_Ctx :: "ctx_err option"

definition transportError :: "ctx_err option \<Rightarrow> go_error \<Rightarrow> bool \<Rightarrow> node_error" where
  "transportError ctx err is_timeout =
     (case ctx of
        Some e \<Rightarrow> normalize_ctx e
      | None \<Rightarrow>
          if is_timeout then Wrap err KindTransient ''timeout'' ''request timed out'' []
          else Wrap err KindTransient ''transport'' ''request failed'' [])"

text \<open>\<open>limited.N\<close> once the body was read: what is left of a limit of \<open>n\<close> after \<open>k\<close> bytes.\<close>

definition http_call ::
  "(string \<Rightarrow> go_error + url_parts) \<Rightarrow> 'w map_order \<Rightarrow> ('w \<Rightarrow> http_client \<Rightarrow> out_request \<Rightarrow> http_obs) \<Rightarrow>
   http_client \<Rightarrow> int64 \<Rightarrow> 'w \<Rightarrow> ExecutionContext \<Rightarrow> payload \<Rightarrow> Result call" where
  "http_call parseURL range' do' client maxBody w ec p =
     (case p of
        PRequest req \<Rightarrow>
          Returns
            (case http_build parseURL range' w req of
               Inl nerr \<Rightarrow> Fail nerr
             | Inr httpReq \<Rightarrow>
                 let o' = do' w client httpReq in
                 (case ob_Do o' of
                    Inl (err, is_timeout) \<Rightarrow> Fail (transportError (ob_Ctx o') err is_timeout)
                  | Inr resp \<Rightarrow>
                      (case read_limited (maxBody + 1) (re_Body resp) (re_BodyErr resp) of
                         Inl err \<Rightarrow>
                           (case ob_Ctx o' of
                              Some e \<Rightarrow> Fail (normalize_ctx e)
                            | None \<Rightarrow> Fail (Wrap err KindTransient ''body_read''
                                ''reading the response body from %s failed'' [AStr (url_value (rq_URL req))]))
                       | Inr body \<Rightarrow>
                           if maxBody + 1 - of_nat (length body) = 0
                           then Fail (Errf KindPermanent ''body_too_large''
                                  ''response body from %s exceeds the configured limit of %d bytes''
                                  [AStr (url_value (rq_URL req)), AInt (sint maxBody)])
                           else Ok (PResponse \<lparr>rs_Status = re_Status resp, rs_Headers = re_Header resp, rs_Body = body\<rparr>))))
      | _ \<Rightarrow> nil_deref)"

definition request_client ::
  "(string \<Rightarrow> go_error + string) \<Rightarrow> (string \<Rightarrow> IP option) \<Rightarrow> bool \<Rightarrow> duration \<Rightarrow> http_client" where
  "request_client splitHost parseIP allowPrivate timeout =
     \<lparr>hc_Transport = (if allowPrivate then openTransport else guardedTransport splitHost parseIP),
      hc_Timeout = timeout, hc_CheckRedirect = checkRedirect\<rparr>"

definition request_newNode ::
  "type_table \<Rightarrow> (string \<Rightarrow> go_error + url_parts) \<Rightarrow> (string \<Rightarrow> go_error + duration) \<Rightarrow>
   (string \<Rightarrow> go_error + string) \<Rightarrow> (string \<Rightarrow> IP option) \<Rightarrow> 'w map_order \<Rightarrow>
   ('w \<Rightarrow> http_client \<Rightarrow> out_request \<Rightarrow> http_obs) \<Rightarrow> ('c \<Rightarrow> go_error + requestConfig) \<Rightarrow> ('c, 'w) NodeNew" where
  "request_newNode tt parseURL parseDuration splitHost parseIP range' do' decode cfg =
     (case decode cfg of
        Inl err \<Rightarrow> Inl (ENode (Wrap err KindInvalidInput ''bad_config'' ''invalid %s configuration'' [AStr RequestName]))
      | Inr c \<Rightarrow>
          (case parseTimeout parseDuration (rc_Timeout c) of
             Inl err \<Rightarrow> Inl (ENode err)
           | Inr timeout \<Rightarrow>
               (case maxBodyBytes (rc_MaxBodyBytes c) of
                  Inl err \<Rightarrow> Inl (ENode err)
                | Inr maxBody \<Rightarrow>
                    Inr (Some (NewTypedNode tt tRequest tResponse RequestName
                      (http_call parseURL range' do'
                         (request_client splitHost parseIP (rc_AllowPrivate c) timeout) maxBody))))))"

definition RequestDefinition ::
  "type_table \<Rightarrow> (string \<Rightarrow> go_error + url_parts) \<Rightarrow> (string \<Rightarrow> go_error + duration) \<Rightarrow>
   (string \<Rightarrow> go_error + string) \<Rightarrow> (string \<Rightarrow> IP option) \<Rightarrow> 'w map_order \<Rightarrow>
   ('w \<Rightarrow> http_client \<Rightarrow> out_request \<Rightarrow> http_obs) \<Rightarrow> ('c \<Rightarrow> go_error + requestConfig) \<Rightarrow>
   ('c, 'w) NodeNew Definition" where
  "RequestDefinition tt parseURL parseDuration splitHost parseIP range' do' decode =
     \<lparr>def_Name = RequestName,
      def_New = Some (request_newNode tt parseURL parseDuration splitHost parseIP range' do' decode)\<rparr>"

definition BodyDefinition :: "type_table \<Rightarrow> ('c \<Rightarrow> go_error option) \<Rightarrow> ('c, 'w) NodeNew Definition" where
  "BodyDefinition tt decode = Extractor tt decode tResponse tBytes BodyName
     (\<lambda>p. case p of PResponse r \<Rightarrow> Returns (Ok (PBytes (rs_Body r))) | _ \<Rightarrow> nil_deref)"

section \<open>http.status and http.header\<close>

definition StatusName :: string where "StatusName = ''http.status''"
definition HeaderName :: string where "HeaderName = ''http.header''"

definition StatusDefinition :: "type_table \<Rightarrow> ('c \<Rightarrow> go_error option) \<Rightarrow> ('c, 'w) NodeNew Definition" where
  "StatusDefinition tt decode = Extractor tt decode tResponse tInt StatusName
     (\<lambda>p. case p of PResponse r \<Rightarrow> Returns (Ok (PInt (rs_Status r))) | _ \<Rightarrow> nil_deref)"

record headerConfig =
  hd_Name :: string
  hd_Default :: "string option"

definition Header_Values :: "string list gomap \<Rightarrow> string \<Rightarrow> string list" where
  "Header_Values h name = (case map_of h (CanonicalMIMEHeaderKey name) of Some vs \<Rightarrow> vs | None \<Rightarrow> [])"

definition header_read :: "string \<Rightarrow> string option \<Rightarrow> 'w \<Rightarrow> ExecutionContext \<Rightarrow> payload \<Rightarrow> Result call" where
  "header_read name fallback w ec p =
     (case p of
        PResponse resp \<Rightarrow>
          Returns
            (case Header_Values (rs_Headers resp) name of
               v # _ \<Rightarrow> Ok (PText v)
             | [] \<Rightarrow>
                 (case fallback of
                    Some d \<Rightarrow> Ok (PText d)
                  | None \<Rightarrow> Fail (Errf KindPermanent ''header_absent''
                      ''response carries no %q header, and no default is configured'' [AStr name])))
      | _ \<Rightarrow> nil_deref)"

definition header_newNode :: "type_table \<Rightarrow> ('c \<Rightarrow> go_error + headerConfig) \<Rightarrow> ('c, 'w) NodeNew" where
  "header_newNode tt decode cfg =
     (case decode cfg of
        Inl err \<Rightarrow> Inl (ENode (Wrap err KindInvalidInput ''bad_config'' ''invalid %s configuration'' [AStr HeaderName]))
      | Inr c \<Rightarrow>
          if hd_Name c = '''' then
            Inl (ENode (Errf KindInvalidInput ''missing_name'' ''%s requires a name: the header to read'' [AStr HeaderName]))
          else Inr (Some (NewTypedNode tt tResponse tText HeaderName (header_read (hd_Name c) (hd_Default c)))))"

definition HeaderDefinition :: "type_table \<Rightarrow> ('c \<Rightarrow> go_error + headerConfig) \<Rightarrow> ('c, 'w) NodeNew Definition" where
  "HeaderDefinition tt decode = \<lparr>def_Name = HeaderName, def_New = Some (header_newNode tt decode)\<rparr>"

section \<open>http.assert_status\<close>

definition AssertStatusName :: string where "AssertStatusName = ''http.assert_status''"
definition minStatus :: int where "minStatus = 100"
definition maxStatus :: int where "maxStatus = 599"

record assertStatusConfig =
  as_Equals :: "int option"
  as_Min :: "int option"
  as_Max :: "int option"

definition inRange :: "int \<Rightarrow> node_error option" where
  "inRange status =
     (if status < minStatus \<or> status > maxStatus
      then Some (Errf KindInvalidInput ''bad_status'' ''%d is not an HTTP status code, which run from %d to %d''
             [AInt status, AInt minStatus, AInt maxStatus])
      else None)"

text \<open>A bound of the range: the given one when it is in range, else the limit.\<close>

definition status_bound :: "int option \<Rightarrow> int \<Rightarrow> node_error + int" where
  "status_bound given limit =
     (case given of
        None \<Rightarrow> Inr limit
      | Some s \<Rightarrow> (case inRange s of Some err \<Rightarrow> Inl err | None \<Rightarrow> Inr s))"

definition bounds :: "assertStatusConfig \<Rightarrow> node_error + (int \<times> int)" where
  "bounds c =
     (let hasRange = (as_Min c \<noteq> None \<or> as_Max c \<noteq> None) in
      case as_Equals c of
        Some s \<Rightarrow>
          if hasRange then
            Inl (Errf KindInvalidInput ''ambiguous_test'' ''%s takes equals or a min/max range, not both'' [AStr AssertStatusName])
          else (case inRange s of Some err \<Rightarrow> Inl err | None \<Rightarrow> Inr (s, s))
      | None \<Rightarrow>
          if \<not> hasRange then
            Inl (Errf KindInvalidInput ''missing_test''
                   ''%s requires equals, or min and max, naming the status to accept'' [AStr AssertStatusName])
          else
            (case status_bound (as_Min c) minStatus of
               Inl err \<Rightarrow> Inl err
             | Inr low \<Rightarrow>
                 (case status_bound (as_Max c) maxStatus of
                    Inl err \<Rightarrow> Inl err
                  | Inr high \<Rightarrow>
                      if low > high then
                        Inl (Errf KindInvalidInput ''bad_range'' ''%s has min %d above max %d, which accepts nothing''
                               [AStr AssertStatusName, AInt low, AInt high])
                      else Inr (low, high))))"

definition describe :: "int \<Rightarrow> int \<Rightarrow> message" where
  "describe low high =
     (if low = high then Sprintf ''%d'' [AInt low]
      else if low = minStatus then Sprintf ''at most %d'' [AInt high]
      else if high = maxStatus then Sprintf ''at least %d'' [AInt low]
      else Sprintf ''%d to %d'' [AInt low, AInt high])"

definition assert_status :: "int \<Rightarrow> int \<Rightarrow> 'w \<Rightarrow> ExecutionContext \<Rightarrow> payload \<Rightarrow> Result call" where
  "assert_status low high w ec p =
     (case p of
        PResponse resp \<Rightarrow>
          Returns
            (if sint (rs_Status resp) < low \<or> sint (rs_Status resp) > high
             then Fail (Errf KindPermanent ''unexpected_status'' ''response status is %d, want %s''
                    [AInt (sint (rs_Status resp)), AMsg (describe low high)])
             else Ok p)
      | _ \<Rightarrow> nil_deref)"

definition assert_status_newNode :: "type_table \<Rightarrow> ('c \<Rightarrow> go_error + assertStatusConfig) \<Rightarrow> ('c, 'w) NodeNew" where
  "assert_status_newNode tt decode cfg =
     (case decode cfg of
        Inl err \<Rightarrow> Inl (ENode (Wrap err KindInvalidInput ''bad_config'' ''invalid %s configuration'' [AStr AssertStatusName]))
      | Inr c \<Rightarrow>
          (case bounds c of
             Inl err \<Rightarrow> Inl (ENode err)
           | Inr (low, high) \<Rightarrow>
               Inr (Some (NewTypedNode tt tResponse tResponse AssertStatusName (assert_status low high)))))"

definition AssertStatusDefinition ::
  "type_table \<Rightarrow> ('c \<Rightarrow> go_error + assertStatusConfig) \<Rightarrow> ('c, 'w) NodeNew Definition" where
  "AssertStatusDefinition tt decode =
     \<lparr>def_Name = AssertStatusName, def_New = Some (assert_status_newNode tt decode)\<rparr>"

section \<open>The constructors are sound\<close>

lemma NewCheckedURL_Inl: "NewCheckedURL parseURL cap raw = Inl e \<Longrightarrow> err_Kind e = KindInvalidInput"
  by (auto simp: NewCheckedURL_def split: if_splits sum.splits)

lemma NewCheckedURL_Inr:
  "NewCheckedURL parseURL cap raw = Inr u \<longleftrightarrow>
     u = CheckedURL raw \<and> raw \<noteq> '''' \<and>
     (\<exists>p. parseURL raw = Inr p \<and> up_Scheme p \<in> {''http'', ''https''} \<and> up_Host p \<noteq> '''')"
  by (auto simp: NewCheckedURL_def split: sum.splits)

lemma build_newNode_Inr:
  "build_newNode tt parseURL decode cfg = Inr (Some n) \<longleftrightarrow>
     (\<exists>c u. decode cfg = Inr c \<and> NewCheckedURL parseURL BuildName (bc_URL c) = Inr u \<and>
        n = NewSource tt tRequest BuildName (\<lambda>_ _. Returns (Ok (PRequest
              \<lparr>rq_Method = default_method (bc_Method c), rq_URL = u, rq_Headers = bc_Headers c, rq_Body = bc_Body c\<rparr>))))"
proof (cases "decode cfg")
  case (Inl e)
  then show ?thesis by (simp add: build_newNode_def)
next
  case (Inr c)
  then show ?thesis
    by (cases "NewCheckedURL parseURL BuildName (bc_URL c)") (auto simp: build_newNode_def)
qed

lemma build_newNode_sound:
  assumes "has_domain tt"
  shows "sound_new tt (build_newNode tt parseURL decode)"
proof (rule sound_newI)
  fix cfg n assume "build_newNode tt parseURL decode cfg = Inr (Some n)"
  then obtain r where "n = NewSource tt tRequest BuildName (\<lambda>_ _. Returns (Ok (PRequest r)))"
    unfolding build_newNode_Inr by blast
  then have "node_sound tt [] tRequest n" by (simp add: NewSource_sound)
  with assms show "\<exists>Is O'. node_sound tt Is O' n \<and> (\<forall>t\<in>set (O' # Is). registered tt t)"
    by (intro exI [of _ "[]"] exI [of _ tRequest]) simp
qed

lemma from_url_typed: "dyn_type p = tText \<Longrightarrow> typed_call tRequest (from_url parseURL method w ec p)"
  by (auto simp: from_url_def engine_error_def dest!: NewCheckedURL_Inl split: payload.split sum.split)

lemma with_header_typed:
  "dyn_type p = tRequest \<Longrightarrow> dyn_type q = tText \<Longrightarrow> typed_call tRequest (with_header range' name w ec p q)"
  by (simp add: with_header_def split: payload.split)

lemma with_body_typed:
  "dyn_type p = tRequest \<Longrightarrow> dyn_type q = tBytes \<Longrightarrow> typed_call tRequest (with_body w ec p q)"
  by (simp add: with_body_def split: payload.split)

lemma transportError_kind [simp]: "err_Kind (transportError ctx err b) \<noteq> KindInternal"
  by (simp add: transportError_def split: option.split)

lemma http_build_Inl: "http_build parseURL range' w req = Inl e \<Longrightarrow> err_Kind e = KindPermanent"
  by (auto simp: http_build_def Let_def split: sum.splits if_splits)

lemma http_call_typed:
  "dyn_type p = tRequest \<Longrightarrow> typed_call tResponse (http_call parseURL range' do' client maxBody w ec p)"
  by (auto simp: http_call_def Let_def engine_error_def dest!: http_build_Inl
      split: payload.split sum.split option.split)

lemma header_read_typed: "dyn_type p = tResponse \<Longrightarrow> typed_call tText (header_read name fallback w ec p)"
  by (simp add: header_read_def split: payload.split list.split option.split)

lemma assert_status_typed: "dyn_type p = tResponse \<Longrightarrow> typed_call tResponse (assert_status low high w ec p)"
  by (simp add: assert_status_def split: payload.split)

lemma from_url_newNode_sound:
  assumes "has_domain tt"
  shows "sound_new tt (from_url_newNode tt parseURL decode)"
proof (rule sound_newI)
  fix cfg n assume "from_url_newNode tt parseURL decode cfg = Inr (Some n)"
  then obtain m where "n = NewTypedNode tt tText tRequest FromURLName (from_url parseURL m)"
    by (auto simp: from_url_newNode_def split: sum.splits)
  then have "node_sound tt [tText] tRequest n" by (simp add: NewTypedNode_sound from_url_typed)
  then show "\<exists>Is O'. node_sound tt Is O' n \<and> (\<forall>t\<in>set (O' # Is). registered tt t)"
    by (rule typed_new) (simp_all add: assms)
qed

lemma with_header_newNode_sound:
  assumes "has_domain tt"
  shows "sound_new tt (with_header_newNode tt range' decode)"
proof (rule sound_newI)
  fix cfg n assume "with_header_newNode tt range' decode cfg = Inr (Some n)"
  then obtain nm where "n = NewTypedNode2 tt tRequest tText tRequest WithHeaderName (with_header range' nm)"
    by (auto simp: with_header_newNode_def split: sum.splits if_splits)
  then have "node_sound tt [tRequest, tText] tRequest n" by (simp add: NewTypedNode2_sound with_header_typed)
  then show "\<exists>Is O'. node_sound tt Is O' n \<and> (\<forall>t\<in>set (O' # Is). registered tt t)"
    by (rule typed_new) (simp_all add: assms)
qed

lemma request_newNode_Inr:
  assumes "request_newNode tt parseURL parseDuration splitHost parseIP range' do' decode cfg = Inr (Some n)"
  obtains c :: requestConfig and timeout maxBody where "decode cfg = Inr c"
    "parseTimeout parseDuration (rc_Timeout c) = Inr timeout" "maxBodyBytes (rc_MaxBodyBytes c) = Inr maxBody"
    "n = NewTypedNode tt tRequest tResponse RequestName
           (http_call parseURL range' do' (request_client splitHost parseIP (rc_AllowPrivate c) timeout) maxBody)"
proof -
  from assms obtain c where c: "decode cfg = Inr c" by (simp add: request_newNode_def split: sum.splits)
  from assms [unfolded request_newNode_def c sum.case] obtain timeout where
    t: "parseTimeout parseDuration (rc_Timeout c) = Inr timeout" by (simp split: sum.splits)
  from assms [unfolded request_newNode_def c sum.case t] obtain maxBody where
    m: "maxBodyBytes (rc_MaxBodyBytes c) = Inr maxBody" by (simp split: sum.splits)
  show ?thesis by (rule that [OF c t m]) (use assms [unfolded request_newNode_def c sum.case t m] in simp)
qed

lemma request_newNode_sound:
  assumes "has_domain tt"
  shows "sound_new tt (request_newNode tt parseURL parseDuration splitHost parseIP range' do' decode)"
proof (rule sound_newI)
  fix cfg n assume "request_newNode tt parseURL parseDuration splitHost parseIP range' do' decode cfg = Inr (Some n)"
  then obtain client maxBody where
    "n = NewTypedNode tt tRequest tResponse RequestName (http_call parseURL range' do' client maxBody)"
    by (rule request_newNode_Inr)
  then have "node_sound tt [tRequest] tResponse n" by (simp add: NewTypedNode_sound http_call_typed)
  then show "\<exists>Is O'. node_sound tt Is O' n \<and> (\<forall>t\<in>set (O' # Is). registered tt t)"
    by (rule typed_new) (simp_all add: assms)
qed

lemma header_newNode_sound:
  assumes "has_domain tt"
  shows "sound_new tt (header_newNode tt decode)"
proof (rule sound_newI)
  fix cfg n assume "header_newNode tt decode cfg = Inr (Some n)"
  then obtain nm d where "n = NewTypedNode tt tResponse tText HeaderName (header_read nm d)"
    by (auto simp: header_newNode_def split: sum.splits if_splits)
  then have "node_sound tt [tResponse] tText n" by (simp add: NewTypedNode_sound header_read_typed)
  then show "\<exists>Is O'. node_sound tt Is O' n \<and> (\<forall>t\<in>set (O' # Is). registered tt t)"
    by (rule typed_new) (simp_all add: assms)
qed

lemma assert_status_newNode_sound:
  assumes "has_domain tt"
  shows "sound_new tt (assert_status_newNode tt decode)"
proof (rule sound_newI)
  fix cfg n assume "assert_status_newNode tt decode cfg = Inr (Some n)"
  then obtain low high where "n = NewTypedNode tt tResponse tResponse AssertStatusName (assert_status low high)"
    by (auto simp: assert_status_newNode_def split: sum.splits)
  then have "node_sound tt [tResponse] tResponse n" by (simp add: NewTypedNode_sound assert_status_typed)
  then show "\<exists>Is O'. node_sound tt Is O' n \<and> (\<forall>t\<in>set (O' # Is). registered tt t)"
    by (rule typed_new) (simp_all add: assms)
qed

section \<open>The body limit\<close>

text \<open>
  Below the largest limit, a response is delivered with its whole body, and one byte over the
  limit is an error.
\<close>

lemma read_within_limit:
  assumes "0 \<le> sint m" "m \<noteq> 9223372036854775807" "read_limited (m + 1) body err = Inr b"
  shows "(m + 1 - of_nat (length b) = 0 \<longleftrightarrow> sint m < int (length body)) \<and>
    (int (length body) \<le> sint m \<longrightarrow> b = body \<and> err = None)"
proof -
  have s: "sint (m + 1) = sint m + 1" by (rule sint_succ) (rule assms(2))
  have lt: "sint m < 2 ^ 63 - 1"
  proof -
    have "sint m < 2 ^ 63" using sint_lt [of m] by simp
    moreover have "sint m \<noteq> 2 ^ 63 - 1"
    proof
      assume "sint m = 2 ^ 63 - 1"
      then have "sint m = sint (9223372036854775807 :: int64)" by simp
      then show False using assms(2) sint_inj by blast
    qed
    ultimately show ?thesis by simp
  qed
  have z: "m + 1 - of_nat k = 0 \<longleftrightarrow> int k = sint m + 1" if "int k \<le> sint m + 1" for k
  proof -
    from that lt have "sint (of_nat k :: int64) = int k" by (intro of_nat_word_sint) simp
    then have "of_nat k = m + 1 \<longleftrightarrow> int k = sint m + 1" using s sint_inj [of "of_nat k" "m + 1"] by metis
    moreover have "m + 1 - of_nat k = 0 \<longleftrightarrow> of_nat k = m + 1" unfolding right_minus_eq by (rule eq_commute)
    ultimately show ?thesis by (rule trans [rotated])
  qed
  show ?thesis
  proof (cases "sint m + 1 \<le> int (length body)")
    case True
    with assms(1,3) s have "b = take (nat (sint m + 1)) body" by (simp add: read_limited_def)
    with True assms(1) have "int (length b) = sint m + 1" by simp
    with z [of "length b"] True show ?thesis by simp
  next
    case False
    with assms(1,3) s have "b = body" "err = None" by (auto simp: read_limited_def split: option.splits)
    with z [of "length b"] False show ?thesis by simp
  qed
qed

lemma http_call_reply:
  assumes "http_build parseURL range' w req = Inr q" "ob_Do (do' w client q) = Inr resp"
    and "0 \<le> sint maxBody" "maxBody \<noteq> 9223372036854775807" "re_BodyErr resp = None"
  shows "http_call parseURL range' do' client maxBody w ec (PRequest req) =
    Returns (if int (length (re_Body resp)) \<le> sint maxBody
       then Ok (PResponse \<lparr>rs_Status = re_Status resp, rs_Headers = re_Header resp, rs_Body = re_Body resp\<rparr>)
       else Fail (Errf KindPermanent ''body_too_large''
              ''response body from %s exceeds the configured limit of %d bytes''
              [AStr (url_value (rq_URL req)), AInt (sint maxBody)]))"
proof -
  have "\<exists>b. read_limited (maxBody + 1) (re_Body resp) (re_BodyErr resp) = Inr b"
    using assms(5) by (simp add: read_limited_def)
  then obtain b where b: "read_limited (maxBody + 1) (re_Body resp) (re_BodyErr resp) = Inr b" ..
  from read_within_limit [OF assms(3,4) b] assms(1,2) b show ?thesis by (auto simp: http_call_def Let_def)
qed

lemma http_call_overflow:
  assumes "http_build parseURL range' w req = Inr q" "ob_Do (do' w client q) = Inr resp"
  shows "http_call parseURL range' do' client 9223372036854775807 w ec (PRequest req) =
    Returns (Ok (PResponse \<lparr>rs_Status = re_Status resp, rs_Headers = re_Header resp, rs_Body = []\<rparr>))"
proof -
  have "read_limited (9223372036854775807 + 1) (re_Body resp) (re_BodyErr resp) = Inr []"
    by (simp add: read_limited_def)
  moreover have "(9223372036854775807 + 1 - of_nat (length ([] :: string)) :: int64) \<noteq> 0" by simp
  ultimately show ?thesis using assms by (simp add: http_call_def Let_def)
qed

section \<open>Headers\<close>

lemma char_range: "CHR ''a'' \<le> c \<and> c \<le> CHR ''z'' \<longleftrightarrow> 97 \<le> (of_char c :: nat) \<and> (of_char c :: nat) \<le> 122"
  "CHR ''A'' \<le> c \<and> c \<le> CHR ''Z'' \<longleftrightarrow> 65 \<le> (of_char c :: nat) \<and> (of_char c :: nat) \<le> 90"
  by (simp_all add: less_eq_char_def)

lemma of_char_upper: "(of_char (upper_char c) :: nat) =
    (if 97 \<le> (of_char c :: nat) \<and> (of_char c :: nat) \<le> 122 then of_char c - 32 else of_char c)"
  by (auto simp: upper_char_def char_range)

lemma of_char_lower: "(of_char (lower_char c) :: nat) =
    (if 65 \<le> (of_char c :: nat) \<and> (of_char c :: nat) \<le> 90 then of_char c + 32 else of_char c)"
  by (auto simp: lower_char_def char_range)

lemma char_eqI: "(of_char c :: nat) = of_char d \<Longrightarrow> c = d"
  by (simp add: of_char_eq_iff)

lemma case_idem: "upper_char (upper_char c) = upper_char c" "lower_char (lower_char c) = lower_char c"
  by (rule char_eqI, auto simp: of_char_upper of_char_lower)+

lemma case_dash: "upper_char c = CHR ''-'' \<longleftrightarrow> c = CHR ''-''" "lower_char c = CHR ''-'' \<longleftrightarrow> c = CHR ''-''"
proof -
  have dash: "d = CHR ''-'' \<longleftrightarrow> (of_char d :: nat) = 45" for d :: char
    using char_eqI [of d "CHR ''-''"] by auto
  show "upper_char c = CHR ''-'' \<longleftrightarrow> c = CHR ''-''" "lower_char c = CHR ''-'' \<longleftrightarrow> c = CHR ''-''"
    unfolding dash of_char_upper of_char_lower by auto
qed

lemma token_case: "token_byte c \<Longrightarrow> token_byte (upper_char c)" "token_byte c \<Longrightarrow> token_byte (lower_char c)"
proof -
  assume t: "token_byte c"
  show "token_byte (upper_char c)"
  proof (cases "97 \<le> (of_char c :: nat) \<and> (of_char c :: nat) \<le> 122")
    case True
    then have "65 \<le> (of_char (upper_char c) :: nat) \<and> (of_char (upper_char c) :: nat) \<le> 90"
      by (auto simp: of_char_upper)
    then show ?thesis unfolding token_byte_def char_range by blast
  next
    case False
    then have "upper_char c = c" by (intro char_eqI) (auto simp: of_char_upper)
    with t show ?thesis by simp
  qed
  show "token_byte (lower_char c)"
  proof (cases "65 \<le> (of_char c :: nat) \<and> (of_char c :: nat) \<le> 90")
    case True
    then have "97 \<le> (of_char (lower_char c) :: nat) \<and> (of_char (lower_char c) :: nat) \<le> 122"
      by (auto simp: of_char_lower)
    then show ?thesis unfolding token_byte_def char_range by blast
  next
    case False
    then have "lower_char c = c" by (intro char_eqI) (auto simp: of_char_lower)
    with t show ?thesis by simp
  qed
qed

lemma canonical_from_idem: "canonical_from u (canonical_from u s) = canonical_from u s"
  by (induction u s rule: canonical_from.induct) (auto simp: case_idem case_dash)

lemma canonical_from_token: "list_all token_byte s \<Longrightarrow> list_all token_byte (canonical_from u s)"
  by (induction u s rule: canonical_from.induct) (auto simp: token_case)

lemma CanonicalMIMEHeaderKey_idem [simp]:
  "CanonicalMIMEHeaderKey (CanonicalMIMEHeaderKey s) = CanonicalMIMEHeaderKey s"
  by (simp add: CanonicalMIMEHeaderKey_def canonical_from_idem canonical_from_token)

text \<open>
  Ranging over a map visits each entry once, in some order. Copying headers under their
  canonical names does not depend on that order as long as no two names coincide.
\<close>

definition ranges :: "'w map_order \<Rightarrow> bool" where
  "ranges range' \<longleftrightarrow> (\<forall>w m. distinct (map fst (range' w m)) \<and> map_of (range' w m) = map_of m)"

definition one_spelling :: "string gomap \<Rightarrow> bool" where
  "one_spelling h \<longleftrightarrow> inj_on CanonicalMIMEHeaderKey (dom (map_of h))"

lemma canonical_headers_fold:
  "map_of (fold (\<lambda>(k, v) h. put (CanonicalMIMEHeaderKey k) v h) es h0) =
   map_of h0 ++ map_of (rev (map (\<lambda>(k, v). (CanonicalMIMEHeaderKey k, v)) es))"
  by (induction es arbitrary: h0) (auto simp: map_add_def fun_eq_iff split: option.split)

lemma canonical_headers_map:
  "map_of (canonical_headers es) = map_of (rev (map (\<lambda>(k, v). (CanonicalMIMEHeaderKey k, v)) es))"
  by (simp add: canonical_headers_def canonical_headers_fold)

lemma map_of_rev_distinct: "distinct (map fst xs) \<Longrightarrow> map_of (rev xs) = map_of xs"
  by (intro map_of_inject_set [THEN iffD2]) (auto simp: rev_map [symmetric])

lemma canonical_headers_lookup:
  assumes "distinct (map fst es)" "inj_on CanonicalMIMEHeaderKey (fst ` set es)" "(k, v) \<in> set es"
  shows "map_of (canonical_headers es) (CanonicalMIMEHeaderKey k) = Some v"
proof -
  let ?xs = "map (\<lambda>(k, v). (CanonicalMIMEHeaderKey k, v)) es"
  have "map fst ?xs = map CanonicalMIMEHeaderKey (map fst es)" by (simp add: case_prod_beta comp_def)
  moreover have "distinct (map CanonicalMIMEHeaderKey (map fst es))" using assms(1,2) by (simp only: distinct_map set_map simp_thms)
  ultimately have d: "distinct (map fst ?xs)" by (simp only:)
  have "(CanonicalMIMEHeaderKey k, v) \<in> set ?xs" using assms(3) by force
  with d show ?thesis by (simp add: canonical_headers_map map_of_rev_distinct del: map_map set_map)
qed

lemma canonical_headers_dom:
  "dom (map_of (canonical_headers es)) = CanonicalMIMEHeaderKey ` fst ` set es"
  by (force simp: canonical_headers_map dom_map_of_conv_image_fst)

lemma ranges_set: "ranges range' \<Longrightarrow> (k, v) \<in> set (range' w m) \<longleftrightarrow> map_of m k = Some v"
  unfolding ranges_def by (metis map_of_eq_Some_iff)

lemma ranges_dom: "ranges range' \<Longrightarrow> fst ` set (range' w m) = dom (map_of m)"
  unfolding ranges_def by (metis dom_map_of_conv_image_fst)

lemma canonical_headers_range:
  assumes "ranges range'" "one_spelling m"
  shows "map_of (canonical_headers (range' w m)) key = Some v \<longleftrightarrow>
    (\<exists>k. key = CanonicalMIMEHeaderKey k \<and> map_of m k = Some v)"
proof
  have d: "distinct (map fst (range' w m))" using assms(1) by (simp add: ranges_def)
  have inj: "inj_on CanonicalMIMEHeaderKey (fst ` set (range' w m))"
    using assms by (simp add: ranges_dom one_spelling_def)
  note lookup = canonical_headers_lookup [OF d inj]
  {
    assume "\<exists>k. key = CanonicalMIMEHeaderKey k \<and> map_of m k = Some v"
    then show "map_of (canonical_headers (range' w m)) key = Some v" using lookup ranges_set [OF assms(1)] by blast
  }
  assume k: "map_of (canonical_headers (range' w m)) key = Some v"
  then have "key \<in> dom (map_of (canonical_headers (range' w m)))" by blast
  then obtain k u where ku: "key = CanonicalMIMEHeaderKey k" "(k, u) \<in> set (range' w m)"
    unfolding canonical_headers_dom by force
  with lookup k have "u = v" by fastforce
  with ku ranges_set [OF assms(1)] show "\<exists>k. key = CanonicalMIMEHeaderKey k \<and> map_of m k = Some v" by blast
qed

text \<open>A header set by \<open>http.with_header\<close> is the one \<open>http.request\<close> sends.\<close>

lemma map_of_canonical_put:
  assumes "ranges range'" "\<forall>k\<in>dom (map_of m). CanonicalMIMEHeaderKey k = k" "map_of m k = Some v"
  shows "map_of (canonical_headers (range' w m)) k = Some v"
proof -
  have "one_spelling m" using assms(2) by (simp add: one_spelling_def inj_on_def)
  moreover have "CanonicalMIMEHeaderKey k = k" using assms(2,3) by blast
  ultimately show ?thesis using canonical_headers_range [OF assms(1)] assms(3) by metis
qed

lemma canonical_headers_keys:
  "k \<in> dom (map_of (canonical_headers es)) \<Longrightarrow> CanonicalMIMEHeaderKey k = k"
  by (auto simp: canonical_headers_dom)

lemma with_header_sent:
  assumes "ranges range'" and "http_build parseURL range' w' (r\<lparr>rq_Headers :=
      put (CanonicalMIMEHeaderKey name) t (canonical_headers (range' w (rq_Headers r)))\<rparr>) = Inr q"
  shows "map_of (oq_Header q) (CanonicalMIMEHeaderKey name) = Some t"
    and "one_spelling (rq_Headers r) \<Longrightarrow> CanonicalMIMEHeaderKey k \<noteq> CanonicalMIMEHeaderKey name \<Longrightarrow>
      map_of (rq_Headers r) k = Some v \<Longrightarrow> map_of (oq_Header q) (CanonicalMIMEHeaderKey k) = Some v"
proof -
  let ?m = "put (CanonicalMIMEHeaderKey name) t (canonical_headers (range' w (rq_Headers r)))"
  have q: "oq_Header q = canonical_headers (range' w' ?m)"
    using assms(2) by (auto simp: http_build_def Let_def split: sum.splits if_splits)
  have keys: "\<forall>k\<in>dom (map_of ?m). CanonicalMIMEHeaderKey k = k"
    using canonical_headers_keys by (auto split: if_splits)
  show "map_of (oq_Header q) (CanonicalMIMEHeaderKey name) = Some t"
    unfolding q by (rule map_of_canonical_put [OF assms(1) keys]) simp
  assume "one_spelling (rq_Headers r)" "CanonicalMIMEHeaderKey k \<noteq> CanonicalMIMEHeaderKey name"
    "map_of (rq_Headers r) k = Some v"
  then have "map_of ?m (CanonicalMIMEHeaderKey k) = Some v"
    using canonical_headers_range [OF assms(1)] by auto
  then show "map_of (oq_Header q) (CanonicalMIMEHeaderKey k) = Some v"
    unfolding q by (rule map_of_canonical_put [OF assms(1) keys])
qed

text \<open>Two spellings of one name: which value is sent depends on the order of the iteration.\<close>

lemma two_spellings_race:
  "map_of (canonical_headers [(''x-a'', u), (''X-A'', v)]) ''X-A'' = Some v"
  "map_of (canonical_headers [(''X-A'', v), (''x-a'', u)]) ''X-A'' = Some u"
  by code_simp+

section \<open>Checked URLs reach the network\<close>

definition url_checked :: "(string \<Rightarrow> go_error + url_parts) \<Rightarrow> Request \<Rightarrow> bool" where
  "url_checked parseURL r \<longleftrightarrow>
     (\<exists>p. parseURL (url_value (rq_URL r)) = Inr p \<and> up_Scheme p \<in> {''http'', ''https''} \<and> up_Host p \<noteq> '''')"

lemma NewCheckedURL_checked: "NewCheckedURL parseURL cap raw = Inr u \<Longrightarrow> rq_URL r = u \<Longrightarrow> url_checked parseURL r"
  by (auto simp: NewCheckedURL_Inr url_checked_def)

text \<open>The only thing left that can stop a request with a checked URL is its method.\<close>

lemma http_build_checked:
  assumes "url_checked parseURL r"
  shows "(\<exists>q. http_build parseURL range' w r = Inr q \<and> up_Host (oq_URL q) \<noteq> '''' \<and>
           up_Scheme (oq_URL q) \<in> {''http'', ''https''}) \<longleftrightarrow> list_all token_byte (rq_Method r)"
  using assms by (auto simp: url_checked_def http_build_def NewRequest_def Let_def token_byte_def)

section \<open>Redirects\<close>

text \<open>\<open>hops_ok\<close>: every hop of a chain of redirects, numbered by the requests before it, is followed.\<close>

definition hops_ok :: "string list \<Rightarrow> bool" where
  "hops_ok schemes \<longleftrightarrow> (\<forall>i<length schemes. checkRedirect (schemes ! i) (Suc i) = None)"

lemma hops_ok_iff:
  "hops_ok schemes \<longleftrightarrow> length schemes < maxRedirects \<and> set schemes \<subseteq> {''http'', ''https''}
     \<or> schemes = []"
proof -
  have "checkRedirect s n = None \<longleftrightarrow> n < maxRedirects \<and> s \<in> {''http'', ''https''}" for s n
    by (auto simp: checkRedirect_def)
  then have "hops_ok schemes \<longleftrightarrow> (\<forall>i<length schemes. Suc i < maxRedirects \<and> schemes ! i \<in> {''http'', ''https''})"
    by (simp add: hops_ok_def)
  also have "\<dots> \<longleftrightarrow> (\<forall>i<length schemes. Suc i < maxRedirects) \<and> set schemes \<subseteq> {''http'', ''https''}"
    by (auto simp: set_conv_nth)
  also have "(\<forall>i<length schemes. Suc i < maxRedirects) \<longleftrightarrow> length schemes < maxRedirects \<or> schemes = []"
    by (cases schemes) (auto simp: less_Suc_eq_le dest: spec [of _ "length schemes - 1"])
  finally show ?thesis by auto
qed

section \<open>Status assertions\<close>

lemma inRange_None [simp]: "inRange s = None \<longleftrightarrow> minStatus \<le> s \<and> s \<le> maxStatus"
  by (auto simp: inRange_def)

lemma status_bound_Inr:
  "status_bound given limit = Inr b \<longleftrightarrow>
     (given = None \<and> b = limit) \<or> (given = Some b \<and> minStatus \<le> b \<and> b \<le> maxStatus)"
  by (auto simp: status_bound_def split: option.splits simp flip: inRange_None)

lemma bounds_Inr:
  "bounds c = Inr (low, high) \<longleftrightarrow>
     (as_Equals c = Some low \<and> high = low \<and> as_Min c = None \<and> as_Max c = None \<and> minStatus \<le> low \<and> low \<le> maxStatus) \<or>
     (as_Equals c = None \<and> (as_Min c \<noteq> None \<or> as_Max c \<noteq> None) \<and> low \<le> high \<and>
        status_bound (as_Min c) minStatus = Inr low \<and> status_bound (as_Max c) maxStatus = Inr high)"
  by (auto simp: bounds_def Let_def split: option.splits sum.splits simp flip: inRange_None)

lemma bounds_in_range:
  "bounds c = Inr (low, high) \<Longrightarrow> minStatus \<le> low \<and> low \<le> high \<and> high \<le> maxStatus"
  by (auto simp: bounds_Inr status_bound_Inr minStatus_def maxStatus_def)

section \<open>Which destinations are refused\<close>

text \<open>A property of octets is checked on all 256 of them.\<close>

lemma octet_all: "list_all P [0..<256] \<Longrightarrow> P (unat (b :: 8 word))"
  using unsigned_less [of b, where 'a = nat] by (simp add: list_all_iff)

lemma octet_masks:
  "and b 0xf0 = 16 \<longleftrightarrow> 16 \<le> unat b \<and> unat b \<le> 31"
  "and b 0xf0 = 0xe0 \<longleftrightarrow> 224 \<le> unat b \<and> unat b \<le> 239"
  "and b 0xc0 = 0x80 \<longleftrightarrow> 128 \<le> unat b \<and> unat b \<le> 191"
  "and b 0xfe = 0xfc \<longleftrightarrow> 252 \<le> unat b \<and> unat b \<le> 253"
  for b :: "8 word"
proof -
  let ?P = "\<lambda>n. let w = (word_of_nat n :: 8 word) in
    (and w 0xf0 = 16) = (16 \<le> n \<and> n \<le> 31) \<and> (and w 0xf0 = 0xe0) = (224 \<le> n \<and> n \<le> 239) \<and>
    (and w 0xc0 = 0x80) = (128 \<le> n \<and> n \<le> 191) \<and> (and w 0xfe = 0xfc) = (252 \<le> n \<and> n \<le> 253)"
  have "list_all ?P [0..<256]" by code_simp
  then have "?P (unat b)" by (rule octet_all)
  then show "and b 0xf0 = 16 \<longleftrightarrow> 16 \<le> unat b \<and> unat b \<le> 31"
    "and b 0xf0 = 0xe0 \<longleftrightarrow> 224 \<le> unat b \<and> unat b \<le> 239"
    "and b 0xc0 = 0x80 \<longleftrightarrow> 128 \<le> unat b \<and> unat b \<le> 191"
    "and b 0xfe = 0xfc \<longleftrightarrow> 252 \<le> unat b \<and> unat b \<le> 253"
    by (simp_all add: Let_def)
qed

text \<open>The refused destinations, as ranges.\<close>

definition internal4 :: "nat \<Rightarrow> nat \<Rightarrow> nat \<Rightarrow> nat \<Rightarrow> bool" where
  "internal4 a b c d \<longleftrightarrow>
     a = 127 \<or> (a = 169 \<and> b = 254) \<or> a = 10 \<or> (a = 172 \<and> 16 \<le> b \<and> b \<le> 31) \<or> (a = 192 \<and> b = 168) \<or>
     (a = 0 \<and> b = 0 \<and> c = 0 \<and> d = 0) \<or> (224 \<le> a \<and> a \<le> 239)"

definition mapped4 :: "IP \<Rightarrow> IP" where
  "mapped4 ip4 = replicate 10 0 @ [0xff, 0xff] @ ip4"

definition internal6 :: "IP \<Rightarrow> bool" where
  "internal6 ip \<longleftrightarrow>
     ip = replicate 15 0 @ [1] \<or> ip = replicate 16 0 \<or>
     (unat (ip ! 0) = 254 \<and> 128 \<le> unat (ip ! 1) \<and> unat (ip ! 1) \<le> 191) \<or>
     (252 \<le> unat (ip ! 0) \<and> unat (ip ! 0) \<le> 253) \<or> unat (ip ! 0) = 255"

lemma unat_eq_numeral:
  "unat (b :: 8 word) = 0 \<longleftrightarrow> b = 0" "unat b = 127 \<longleftrightarrow> b = 127" "unat b = 169 \<longleftrightarrow> b = 169"
  "unat b = 254 \<longleftrightarrow> b = 254" "unat b = 10 \<longleftrightarrow> b = 10" "unat b = 172 \<longleftrightarrow> b = 172" "unat b = 192 \<longleftrightarrow> b = 192"
  "unat b = 168 \<longleftrightarrow> b = 168" "unat b = 255 \<longleftrightarrow> b = 255"
  by (auto simp: word_unat_eq_iff)

lemma To4_mapped: "To4 (mapped4 [a, b, c, d]) = Some [a, b, c, d]"
  by (simp add: To4_def mapped4_def eval_nat_numeral)

lemma blocked4:
  assumes "To4 ip = Some [a, b, c, d]"
  shows "blockedDestination (Some ip) = None \<longleftrightarrow> \<not> internal4 (unat a) (unat b) (unat c) (unat d)"
proof -
  have "\<not> (length ip = 16 \<and> ip ! 0 = 0xff)"
  proof
    assume ip: "length ip = 16 \<and> ip ! 0 = 0xff"
    then have "take 10 ip = replicate 10 0" using assms by (simp add: To4_def split: if_splits)
    then have "take 10 ip ! 0 = 0" by simp
    with ip show False by simp
  qed
  moreover have "ip \<noteq> replicate 16 0 \<or> internal4 (unat a) (unat b) (unat c) (unat d)"
    using assms by (auto simp: To4_def eval_nat_numeral internal4_def split: if_splits)
  ultimately show ?thesis using assms
    unfolding blockedDestination_def IsLoopback_def IsLinkLocalUnicast_def IsLinkLocalMulticast_def IsPrivate_def
      IsUnspecified_def IsMulticast_def IsInterfaceLocalMulticast_def internal4_def unat_eq_numeral octet_masks
    by (auto simp: word_unat_eq_iff)
qed

lemma blocked6:
  assumes "length ip = 16" "To4 ip = None"
  shows "blockedDestination (Some ip) = None \<longleftrightarrow> \<not> internal6 ip"
  using assms
  unfolding blockedDestination_def IsLoopback_def IsLinkLocalUnicast_def IsLinkLocalMulticast_def IsPrivate_def
    IsUnspecified_def IsMulticast_def IsInterfaceLocalMulticast_def internal6_def unat_eq_numeral octet_masks
    IPv6loopback_def
  by auto

lemma controlDestination_None:
  "controlDestination splitHost parseIP address = None \<longleftrightarrow>
     (\<exists>host ip. splitHost address = Inr host \<and> parseIP host = Some ip \<and> blockedDestination (Some ip) = None)"
proof (cases "splitHost address")
  case (Inl e)
  then show ?thesis by (simp add: controlDestination_def)
next
  case (Inr host)
  then show ?thesis
    by (cases "parseIP host")
      (auto simp: controlDestination_def blockedDestination_def [of None] split: option.split)
qed

section \<open>The nodes, as configured\<close>

definition body_too_large :: "Request \<Rightarrow> int64 \<Rightarrow> node_error" where
  "body_too_large req m =
     Errf KindPermanent ''body_too_large'' ''response body from %s exceeds the configured limit of %d bytes''
       [AStr (url_value (rq_URL req)), AInt (sint m)]"

lemma maxBodyBytes_positive: "maxBodyBytes n = Inr m \<Longrightarrow> 0 < sint m"
proof -
  assume m: "maxBodyBytes n = Inr m"
  have "sint n \<noteq> 0" if "n \<noteq> 0" using that sint_inj [of n 0] by auto
  with m show ?thesis by (auto simp: maxBodyBytes_def defaultMaxBodyBytes_def split: if_splits)
qed

lemma request_limits:
  assumes "request_newNode tt parseURL parseDuration splitHost parseIP rng do' decode cfg = Inr (Some n)"
    and "decode cfg = Inr c" "maxBodyBytes (rc_MaxBodyBytes c) = Inr m"
    and "http_build parseURL rng w req = Inr q" "\<And>client. ob_Do (do' w client q) = Inr resp" "re_BodyErr resp = None"
  shows "0 < sint m \<and>
    rn_Execute n w ec [NewValue tt (PRequest req)] = Returns (erase (TypeOf tt tResponse)
      (if m = 9223372036854775807 then
         Ok (PResponse \<lparr>rs_Status = re_Status resp, rs_Headers = re_Header resp, rs_Body = []\<rparr>)
       else if int (length (re_Body resp)) \<le> sint m then
         Ok (PResponse \<lparr>rs_Status = re_Status resp, rs_Headers = re_Header resp, rs_Body = re_Body resp\<rparr>)
       else Fail (body_too_large req m)))"
proof -
  have m: "0 < sint m" using assms(3) by (rule maxBodyBytes_positive)
  obtain client where n: "n = NewTypedNode tt tRequest tResponse RequestName (http_call parseURL rng do' client m)"
    using request_newNode_Inr [OF assms(1)] assms(2,3) by (metis sum.inject(2))
  show ?thesis
  proof (cases "m = 9223372036854775807")
    case True
    with http_call_overflow [of parseURL rng w req q do' client, OF assms(4) assms(5)] show ?thesis
      unfolding n by (simp add: NewTypedNode_run)
  next
    case False
    with m http_call_reply [of parseURL rng w req q do' client, OF assms(4) assms(5) _ False assms(6)] show ?thesis
      unfolding n by (simp add: NewTypedNode_run body_too_large_def)
  qed
qed

lemma with_header_node_sends:
  assumes "ranges rng" "with_header_newNode tt rng decode cfg = Inr (Some n)" "decode cfg = Inr name"
    and "rn_Execute n w ec [NewValue tt (PRequest r), NewValue tt (PText t)] = Returns res"
    and "v_ref (rv_Value res) = Some (PRequest r')" "http_build parseURL rng w' r' = Inr q"
  shows "map_of (oq_Header q) (CanonicalMIMEHeaderKey name) = Some t \<and> rq_URL r' = rq_URL r \<and>
    (one_spelling (rq_Headers r) \<longrightarrow> (\<forall>k v. map_of (rq_Headers r) k = Some v \<and>
       CanonicalMIMEHeaderKey k \<noteq> CanonicalMIMEHeaderKey name \<longrightarrow>
       map_of (oq_Header q) (CanonicalMIMEHeaderKey k) = Some v))"
proof -
  have n: "n = NewTypedNode2 tt tRequest tText tRequest WithHeaderName (with_header rng (CanonicalMIMEHeaderKey name))"
    using assms(2,3) by (simp add: with_header_newNode_def split: if_splits)
  have r': "r' = r\<lparr>rq_Headers := put (CanonicalMIMEHeaderKey name) t (canonical_headers (rng w (rq_Headers r)))\<rparr>"
    using assms(4,5) unfolding n
    by (auto simp: NewTypedNode2_def Let_def typedNode2_Execute_def assert_ref_def NewValue_def with_header_def)
  note sent = with_header_sent [OF assms(1) assms(6) [unfolded r']]
  have "rq_URL r' = rq_URL r" by (simp add: r')
  with sent show ?thesis by blast
qed

text \<open>An address is internal when its IPv4 form, or else its IPv6 form, lies in a refused range.\<close>

definition internal_ip :: "IP \<Rightarrow> bool" where
  "internal_ip ip =
     (case To4 ip of
        Some ip4 \<Rightarrow> internal4 (unat (ip4 ! 0)) (unat (ip4 ! 1)) (unat (ip4 ! 2)) (unat (ip4 ! 3))
      | None \<Rightarrow> internal6 ip)"

lemma To4_length: "To4 ip = Some ip4 \<Longrightarrow> length ip4 = 4"
  by (auto simp: To4_def split: if_splits)

lemma four_octets: "length xs = 4 \<Longrightarrow> xs = [xs ! 0, xs ! 1, xs ! 2, xs ! 3]"
  by (auto simp: eval_nat_numeral length_Suc_conv)

lemma blocked_internal:
  assumes "length ip = 4 \<or> length ip = 16"
  shows "blockedDestination (Some ip) = None \<longleftrightarrow> \<not> internal_ip ip"
proof (cases "To4 ip")
  case None
  then have "length ip = 16" using assms by (auto simp: To4_def split: if_splits)
  with None show ?thesis by (simp add: blocked6 internal_ip_def)
next
  case (Some ip4)
  then have "To4 ip = Some [ip4 ! 0, ip4 ! 1, ip4 ! 2, ip4 ! 3]" using four_octets [OF To4_length [OF Some]] by simp
  from blocked4 [OF this] Some show ?thesis by (simp add: internal_ip_def)
qed

lemma client_policy:
  assumes "\<forall>h ip. parseIP h = Some ip \<longrightarrow> length ip = 4 \<or> length ip = 16"
  shows "tp_Control (hc_Transport (request_client splitHost parseIP True timeout)) = None \<and>
    (\<exists>hook. tp_Control (hc_Transport (request_client splitHost parseIP False timeout)) = Some hook \<and>
       (\<forall>address. hook address = None \<longleftrightarrow>
          (\<exists>host ip. splitHost address = Inr host \<and> parseIP host = Some ip \<and> \<not> internal_ip ip))) \<and>
    internal_ip (mapped4 [a, b, c, d]) = internal4 (unat a) (unat b) (unat c) (unat d) \<and>
    internal_ip [a, b, c, d] = internal4 (unat a) (unat b) (unat c) (unat d) \<and>
    (\<forall>schemes allow. (\<forall>i<length schemes.
         hc_CheckRedirect (request_client splitHost parseIP allow timeout) (schemes ! i) (Suc i) = None) \<longrightarrow>
       length schemes < 10 \<and> set schemes \<subseteq> {''http'', ''https''})"
proof (intro conjI allI impI)
  show "tp_Control (hc_Transport (request_client splitHost parseIP True timeout)) = None"
    by (simp add: request_client_def openTransport_def newTransport_def)
  have "controlDestination splitHost parseIP address = None \<longleftrightarrow>
      (\<exists>host ip. splitHost address = Inr host \<and> parseIP host = Some ip \<and> \<not> internal_ip ip)" for address
    unfolding controlDestination_None using assms blocked_internal by blast
  then show "\<exists>hook. tp_Control (hc_Transport (request_client splitHost parseIP False timeout)) = Some hook \<and>
       (\<forall>address. hook address = None \<longleftrightarrow>
          (\<exists>host ip. splitHost address = Inr host \<and> parseIP host = Some ip \<and> \<not> internal_ip ip))"
    by (simp add: request_client_def guardedTransport_def newTransport_def)
  show "internal_ip (mapped4 [a, b, c, d]) = internal4 (unat a) (unat b) (unat c) (unat d)"
    by (simp add: internal_ip_def To4_mapped)
  show "internal_ip [a, b, c, d] = internal4 (unat a) (unat b) (unat c) (unat d)"
    by (simp add: internal_ip_def To4_def)
next
  fix schemes allow
  assume "\<forall>i<length schemes. hc_CheckRedirect (request_client splitHost parseIP allow timeout) (schemes ! i) (Suc i) = None"
  then have "hops_ok schemes" by (simp add: hops_ok_def request_client_def)
  then show "length schemes < 10" "set schemes \<subseteq> {''http'', ''https''}"
    by (auto simp: hops_ok_iff maxRedirects_def)
qed

lemma assert_status_node:
  assumes "assert_status_newNode tt decode cfg = Inr (Some n)" "decode cfg = Inr c"
  shows "\<exists>low high. bounds c = Inr (low, high) \<and> 100 \<le> low \<and> low \<le> high \<and> high \<le> 599 \<and>
    (\<forall>resp w ec. \<exists>res. rn_Execute n w ec [NewValue tt (PResponse resp)] = Returns res \<and>
       (low \<le> sint (rs_Status resp) \<and> sint (rs_Status resp) \<le> high \<longrightarrow>
          rv_Err res = None \<and> rv_Value res = NewValue tt (PResponse resp)) \<and>
       (\<not> (low \<le> sint (rs_Status resp) \<and> sint (rs_Status resp) \<le> high) \<longrightarrow>
          (\<exists>e. rv_Err res = Some e \<and> err_Kind e = KindPermanent \<and> err_Code e = ''unexpected_status'')))"
proof -
  obtain low high where b: "bounds c = Inr (low, high)"
    and n: "n = NewTypedNode tt tResponse tResponse AssertStatusName (assert_status low high)"
    using assms by (auto simp: assert_status_newNode_def split: sum.splits)
  have "100 \<le> low \<and> low \<le> high \<and> high \<le> 599" using bounds_in_range [OF b] by (simp add: minStatus_def maxStatus_def)
  moreover have "\<exists>res. rn_Execute n w ec [NewValue tt (PResponse resp)] = Returns res \<and>
       (low \<le> sint (rs_Status resp) \<and> sint (rs_Status resp) \<le> high \<longrightarrow>
          rv_Err res = None \<and> rv_Value res = NewValue tt (PResponse resp)) \<and>
       (\<not> (low \<le> sint (rs_Status resp) \<and> sint (rs_Status resp) \<le> high) \<longrightarrow>
          (\<exists>e. rv_Err res = Some e \<and> err_Kind e = KindPermanent \<and> err_Code e = ''unexpected_status''))" for resp w ec
    unfolding n by (simp add: NewTypedNode_run assert_status_def) (auto simp: NewValue_def)
  ultimately show ?thesis using b by blast
qed

end
