(* ===== verification/Builtin_Nodes.thy ===== *)
theory Builtin_Nodes
  imports Nodes_Data Nodes_Json Nodes_Http
begin

text \<open>
  The built-in node registry (\<^verbatim>\<open>internal/nodes/nodes.go\<close>): all twenty-two capabilities, over
  one record of everything their sources take from outside the repository. The registry is
  total and every node it can build is sound, so the results on compiled plans and runs hold
  for it with no assumption on nodes.
\<close>

section \<open>What the nodes take from outside\<close>

text \<open>
  \<open>'c\<close> is a step's undecoded \<open>with\<close> block and \<open>'w\<close> the part of the world one call observes.
  The first group decodes the block into each config struct, \<open>lb_no_config\<close> into the empty
  one; the second is library code; the third is what a call observes.
\<close>

record ('c, 'w) library =
  lb_no_config :: "'c \<Rightarrow> go_error option"
  lb_value :: "'c \<Rightarrow> go_error + value_config"
  lb_env :: "'c \<Rightarrow> go_error + env_config"
  lb_format :: "'c \<Rightarrow> go_error + string"
  lb_get :: "'c \<Rightarrow> go_error + getConfig"
  lb_condition :: "'c \<Rightarrow> go_error + condition_config"
  lb_assert :: "'c \<Rightarrow> go_error + string"
  lb_command :: "'c \<Rightarrow> go_error + commandConfig"
  lb_build :: "'c \<Rightarrow> go_error + buildConfig"
  lb_request :: "'c \<Rightarrow> go_error + requestConfig"
  lb_header :: "'c \<Rightarrow> go_error + headerConfig"
  lb_from_url :: "'c \<Rightarrow> go_error + string"
  lb_with_header :: "'c \<Rightarrow> go_error + string"
  lb_assert_status :: "'c \<Rightarrow> go_error + assertStatusConfig"
  lb_Unmarshal :: "bytes \<Rightarrow> go_error + any"
  lb_Marshal :: "any \<Rightarrow> go_error + bytes"
  lb_wild :: "rat \<Rightarrow> int64"
  lb_ParseDuration :: "string \<Rightarrow> go_error + duration"
  lb_ParseURL :: "string \<Rightarrow> go_error + url_parts"
  lb_SplitHost :: "string \<Rightarrow> go_error + string"
  lb_ParseIP :: "string \<Rightarrow> IP option"
  lb_LookupEnv :: "'w \<Rightarrow> string \<Rightarrow> string option"
  lb_process :: "'w \<Rightarrow> Command \<Rightarrow> proc_obs"
  lb_do :: "'w \<Rightarrow> http_client \<Rightarrow> out_request \<Rightarrow> http_obs"
  lb_range :: "'w map_order"

definition node_Definitions :: "type_table \<Rightarrow> ('c, 'w) library \<Rightarrow> ('c, 'w) NodeNew Definition list" where
  "node_Definitions tt L =
     [value_Definition tt (lb_value L),
      env_Definition tt (lb_LookupEnv L) (lb_env L),
      FormatDefinition tt (lb_format L),
      DecodeDefinition tt (lb_Unmarshal L) (lb_no_config L),
      EncodeDefinition tt (lb_Marshal L) (lb_no_config L),
      GetDefinition tt (lb_wild L) (lb_get L),
      condition_Definition tt (lb_condition L),
      TrueDefinition tt (lb_assert L),
      CommandDefinition tt (lb_ParseDuration L) (lb_command L),
      exec_Definition tt (lb_process L) (lb_no_config L),
      StdoutDefinition tt (lb_no_config L),
      StderrDefinition tt (lb_no_config L),
      ExitCodeDefinition tt (lb_no_config L),
      BuildDefinition tt (lb_ParseURL L) (lb_build L),
      RequestDefinition tt (lb_ParseURL L) (lb_ParseDuration L) (lb_SplitHost L) (lb_ParseIP L) (lb_range L)
        (lb_do L) (lb_request L),
      BodyDefinition tt (lb_no_config L),
      StatusDefinition tt (lb_no_config L),
      HeaderDefinition tt (lb_header L),
      FromURLDefinition tt (lb_ParseURL L) (lb_from_url L),
      WithHeaderDefinition tt (lb_range L) (lb_with_header L),
      WithBodyDefinition tt (lb_no_config L),
      AssertStatusDefinition tt (lb_assert_status L)]"

text \<open>The body of \<open>once.Do\<close>; a failed registration panics.\<close>

definition node_Registry :: "type_table \<Rightarrow> ('c, 'w) library \<Rightarrow> go_error + ('c, 'w) NodeNew Registry" where
  "node_Registry tt L = MustRegister_all (node_Definitions tt L) NewRegistry"

section \<open>The registry is total\<close>

lemmas node_definitions =
  value_Definition_def env_Definition_def FormatDefinition_def DecodeDefinition_def EncodeDefinition_def
  GetDefinition_def condition_Definition_def TrueDefinition_def CommandDefinition_def exec_Definition_def
  StdoutDefinition_def StderrDefinition_def ExitCodeDefinition_def BuildDefinition_def RequestDefinition_def
  BodyDefinition_def StatusDefinition_def HeaderDefinition_def FromURLDefinition_def WithHeaderDefinition_def
  WithBodyDefinition_def AssertStatusDefinition_def

lemmas node_names =
  env_Name_def FormatName_def DecodeName_def EncodeName_def GetName_def TrueName_def CommandName_def
  exec_Name_def StdoutName_def StderrName_def ExitCodeName_def BuildName_def RequestName_def BodyName_def
  StatusName_def HeaderName_def FromURLName_def WithHeaderName_def WithBodyName_def AssertStatusName_def

definition builtin_names :: "string list" where
  "builtin_names =
     [''value'', ''env.get'', ''text.format'', ''json.decode'', ''json.encode'', ''json.get'', ''condition'',
      ''assert.true'', ''exec.command'', ''exec'', ''exec.stdout'', ''exec.stderr'', ''exec.exit_code'',
      ''http.build'', ''http.request'', ''http.body'', ''http.status'', ''http.header'', ''http.from_url'',
      ''http.with_header'', ''http.with_body'', ''http.assert_status'']"

lemma def_Name_Static [simp]:
  "def_Name (Static d name n) = name" "\<exists>new. def_New (Static d name n) = Some new"
  "def_Name (Extractor tt d I O' name read) = name" "\<exists>new. def_New (Extractor tt d I O' name read) = Some new"
  by (simp_all add: Static_def Extractor_def)

lemma node_Definitions_names: "map def_Name (node_Definitions tt L) = builtin_names"
  by (simp add: node_Definitions_def node_definitions node_names builtin_names_def)

lemma node_Definitions_new: "\<forall>d\<in>set (node_Definitions tt L). def_New d \<noteq> None"
  by (simp add: node_Definitions_def node_definitions)

lemma builtin_names_distinct: "distinct builtin_names" "'''' \<notin> set builtin_names"
  by (simp_all add: builtin_names_def)

lemma node_Registry_total: "\<exists>R. node_Registry tt L = Inr R"
  unfolding node_Registry_def MustRegister_all_build
proof (rule node_registry.build_succeeds)
  show "distinct (map def_Name (node_Definitions tt L))"
    unfolding node_Definitions_names by (rule builtin_names_distinct)
  have "def_Name d \<noteq> ''''" if "d \<in> set (node_Definitions tt L)" for d
    using that node_Definitions_names [of tt L] builtin_names_distinct(2) by (metis imageI image_set)
  with node_Definitions_new show "\<forall>d\<in>set (node_Definitions tt L). def_Name d \<noteq> '''' \<and> def_New d \<noteq> None"
    by blast
  show "\<forall>d\<in>set (node_Definitions tt L). \<exists>e. Resolve (def_Name d) NewRegistry = Inl e"
    by (simp add: Resolve_def NewRegistry_def)
qed

lemma node_Registry_names: "node_Registry tt L = Inr R \<Longrightarrow> set (Names R) = set builtin_names"
  unfolding node_Registry_def MustRegister_all_build node_Definitions_names [symmetric, of tt L]
  by (drule node_registry.build_names) simp

section \<open>Every built-in node is sound\<close>

lemma node_Definitions_sound:
  assumes "has_domain tt" "d \<in> set (node_Definitions tt L)" "def_New d = Some new"
  shows "sound_new tt new"
proof -
  have plain: "sound_new tt new" if "def_New d = Some f" "sound_new tt f" for f
    using that assms(3) by simp
  note typed = assms(1)
  from assms(2) consider
      "d = value_Definition tt (lb_value L)" | "d = env_Definition tt (lb_LookupEnv L) (lb_env L)"
    | "d = FormatDefinition tt (lb_format L)" | "d = DecodeDefinition tt (lb_Unmarshal L) (lb_no_config L)"
    | "d = EncodeDefinition tt (lb_Marshal L) (lb_no_config L)" | "d = GetDefinition tt (lb_wild L) (lb_get L)"
    | "d = condition_Definition tt (lb_condition L)" | "d = TrueDefinition tt (lb_assert L)"
    | "d = CommandDefinition tt (lb_ParseDuration L) (lb_command L)"
    | "d = exec_Definition tt (lb_process L) (lb_no_config L)"
    | "d = StdoutDefinition tt (lb_no_config L)" | "d = StderrDefinition tt (lb_no_config L)"
    | "d = ExitCodeDefinition tt (lb_no_config L)" | "d = BodyDefinition tt (lb_no_config L)"
    | "d = StatusDefinition tt (lb_no_config L)"
    | "d = BuildDefinition tt (lb_ParseURL L) (lb_build L)"
    | "d = RequestDefinition tt (lb_ParseURL L) (lb_ParseDuration L) (lb_SplitHost L) (lb_ParseIP L) (lb_range L)
        (lb_do L) (lb_request L)"
    | "d = HeaderDefinition tt (lb_header L)" | "d = FromURLDefinition tt (lb_ParseURL L) (lb_from_url L)"
    | "d = WithHeaderDefinition tt (lb_range L) (lb_with_header L)"
    | "d = WithBodyDefinition tt (lb_no_config L)"
    | "d = AssertStatusDefinition tt (lb_assert_status L)"
    unfolding node_Definitions_def by (simp only: set_simps insert_iff empty_iff) blast
  then show ?thesis
  proof cases
    case 1
    then show ?thesis by (intro plain [OF _ value_newNode_sound [OF typed]]) (simp add: value_Definition_def)
  next
    case 2
    then show ?thesis by (intro plain [OF _ env_newNode_sound [OF typed]]) (simp add: env_Definition_def)
  next
    case 3
    then show ?thesis by (intro plain [OF _ newFormat_sound [OF typed]]) (simp add: FormatDefinition_def)
  next
    case 4
    note e = assms(3) [unfolded 4 DecodeDefinition_def]
    show ?thesis by (rule Static_new_sound [OF NewTypedNode_sound _ e]) (simp_all add: json_decode_typed typed)
  next
    case 5
    note e = assms(3) [unfolded 5 EncodeDefinition_def]
    show ?thesis by (rule Static_new_sound [OF NewTypedNode_sound _ e]) (simp_all add: json_encode_typed typed)
  next
    case 6
    then show ?thesis by (intro plain [OF _ newGet_sound [OF typed]]) (simp add: GetDefinition_def)
  next
    case 7
    then show ?thesis by (intro plain [OF _ condition_newNode_sound [OF typed]]) (simp add: condition_Definition_def)
  next
    case 8
    then show ?thesis by (intro plain [OF _ assert_newTrue_sound [OF typed]]) (simp add: TrueDefinition_def)
  next
    case 9
    then show ?thesis by (intro plain [OF _ command_newNode_sound [OF typed]]) (simp add: CommandDefinition_def)
  next
    case 10
    note e = assms(3) [unfolded 10 exec_Definition_def]
    show ?thesis by (rule Static_new_sound [OF runner_sound _ e]) (simp add: typed)
  next
    case 11
    note e = assms(3) [unfolded 11 StdoutDefinition_def]
    show ?thesis by (rule Extractor_new_sound [OF _ _ _ e]) (simp_all add: typed split: payload.split)
  next
    case 12
    note e = assms(3) [unfolded 12 StderrDefinition_def]
    show ?thesis by (rule Extractor_new_sound [OF _ _ _ e]) (simp_all add: typed split: payload.split)
  next
    case 13
    note e = assms(3) [unfolded 13 ExitCodeDefinition_def]
    show ?thesis by (rule Extractor_new_sound [OF _ _ _ e]) (simp_all add: typed split: payload.split)
  next
    case 14
    note e = assms(3) [unfolded 14 BodyDefinition_def]
    show ?thesis by (rule Extractor_new_sound [OF _ _ _ e]) (simp_all add: typed split: payload.split)
  next
    case 15
    note e = assms(3) [unfolded 15 StatusDefinition_def]
    show ?thesis by (rule Extractor_new_sound [OF _ _ _ e]) (simp_all add: typed split: payload.split)
  next
    case 16
    then show ?thesis by (intro plain [OF _ build_newNode_sound [OF typed]]) (simp add: BuildDefinition_def)
  next
    case 17
    then show ?thesis by (intro plain [OF _ request_newNode_sound [OF typed]]) (simp add: RequestDefinition_def)
  next
    case 18
    then show ?thesis by (intro plain [OF _ header_newNode_sound [OF typed]]) (simp add: HeaderDefinition_def)
  next
    case 19
    then show ?thesis by (intro plain [OF _ from_url_newNode_sound [OF typed]]) (simp add: FromURLDefinition_def)
  next
    case 20
    then show ?thesis by (intro plain [OF _ with_header_newNode_sound [OF typed]]) (simp add: WithHeaderDefinition_def)
  next
    case 21
    note e = assms(3) [unfolded 21 WithBodyDefinition_def]
    show ?thesis by (rule Static_new_sound [OF NewTypedNode2_sound _ e]) (simp_all add: with_body_typed typed)
  next
    case 22
    then show ?thesis by (intro plain [OF _ assert_status_newNode_sound [OF typed]]) (simp add: AssertStatusDefinition_def)
  qed
qed

lemma node_Registry_sound:
  assumes "has_domain tt" "node_Registry tt L = Inr R"
  shows "sound_nodes tt R"
  unfolding sound_nodes_def
proof (intro allI impI)
  fix name def new cfg n
  assume r: "Resolve name R = Inr def" "def_New def = Some new" "new cfg = Inr (Some n)"
  from assms(2) have "node_registry.build (node_Definitions tt L) NewRegistry = Inr R"
    by (simp add: node_Registry_def MustRegister_all_build)
  from node_registry.build_only [OF this r(1)] have "def \<in> set (node_Definitions tt L)"
    by (auto simp: Resolve_def NewRegistry_def)
  from node_Definitions_sound [OF assms(1) this r(2)] r(3)
  show "\<exists>Is O'. node_sound tt Is O' n \<and> (\<forall>t\<in>set (O' # Is). registered tt t)" by (rule sound_newD)
qed

end
