(* ===== verification/Demo_Nodes.thy ===== *)
theory Demo_Nodes
  imports Demo Builtin_Nodes
begin

text \<open>
  The built-in nodes at work: a library record with small concrete functions, a pipeline over
  the built-in registry that decodes a document, reads a number out of it and asserts a fact
  about it, its run, and the single nodes the theorems are applied to.
\<close>

section \<open>A library\<close>

text \<open>A \<open>with\<close> block is the config struct it decodes to.\<close>

datatype with_block =
    WNone
  | WValue value_config
  | WEnv env_config
  | WText string
  | WGet getConfig
  | WCondition condition_config
  | WCommand commandConfig
  | WBuild buildConfig
  | WRequest requestConfig
  | WHeader headerConfig
  | WStatus assertStatusConfig

definition bad_block :: "go_error + 'a" where
  "bad_block = Inl (EFmt (Sprintf ''unknown field'' []))"

definition demo_document :: any where
  "demo_document = AnyMap [(''n'', AnyFloat64 (Fin 3)), (''who'', AnyMap [(''name'', AnyString ''ann'')])]"

definition demo_reply :: http_reply where
  "demo_reply = \<lparr>re_Status = 200, re_Header = [(''Retry-After'', [''7''])], re_Body = ''ok'', re_BodyErr = None\<rparr>"

definition demo_parse_url :: "string \<Rightarrow> go_error + url_parts" where
  "demo_parse_url s =
     (if prefix ''http://'' s then Inr \<lparr>up_Scheme = ''http'', up_Host = drop 7 s\<rparr>
      else Inr \<lparr>up_Scheme = '''', up_Host = ''''\<rparr>)"

definition dec_none :: "with_block \<Rightarrow> go_error option" where
  "dec_none c = (case c of WNone \<Rightarrow> None | _ \<Rightarrow> Some (EFmt (Sprintf ''unknown field'' [])))"

definition dec_value :: "with_block \<Rightarrow> go_error + value_config" where
  "dec_value c = (case c of WValue v \<Rightarrow> Inr v | _ \<Rightarrow> bad_block)"

definition dec_env :: "with_block \<Rightarrow> go_error + env_config" where
  "dec_env c = (case c of WEnv v \<Rightarrow> Inr v | _ \<Rightarrow> bad_block)"

definition dec_format :: "with_block \<Rightarrow> go_error + string" where
  "dec_format c = (case c of WText v \<Rightarrow> Inr v | _ \<Rightarrow> bad_block)"

definition dec_get :: "with_block \<Rightarrow> go_error + getConfig" where
  "dec_get c = (case c of WGet v \<Rightarrow> Inr v | _ \<Rightarrow> bad_block)"

definition dec_condition :: "with_block \<Rightarrow> go_error + condition_config" where
  "dec_condition c = (case c of WCondition v \<Rightarrow> Inr v | _ \<Rightarrow> bad_block)"

definition dec_assert :: "with_block \<Rightarrow> go_error + string" where
  "dec_assert c = (case c of WText v \<Rightarrow> Inr v | WNone \<Rightarrow> Inr '''' | _ \<Rightarrow> bad_block)"

definition dec_command :: "with_block \<Rightarrow> go_error + commandConfig" where
  "dec_command c = (case c of WCommand v \<Rightarrow> Inr v | _ \<Rightarrow> bad_block)"

definition dec_build :: "with_block \<Rightarrow> go_error + buildConfig" where
  "dec_build c = (case c of WBuild v \<Rightarrow> Inr v | _ \<Rightarrow> bad_block)"

definition dec_request :: "with_block \<Rightarrow> go_error + requestConfig" where
  "dec_request c = (case c of WRequest v \<Rightarrow> Inr v | _ \<Rightarrow> bad_block)"

definition dec_header :: "with_block \<Rightarrow> go_error + headerConfig" where
  "dec_header c = (case c of WHeader v \<Rightarrow> Inr v | _ \<Rightarrow> bad_block)"

definition dec_from_url :: "with_block \<Rightarrow> go_error + string" where
  "dec_from_url c = (case c of WText v \<Rightarrow> Inr v | WNone \<Rightarrow> Inr '''' | _ \<Rightarrow> bad_block)"

definition dec_with_header :: "with_block \<Rightarrow> go_error + string" where
  "dec_with_header c = (case c of WText v \<Rightarrow> Inr v | _ \<Rightarrow> bad_block)"

definition dec_assert_status :: "with_block \<Rightarrow> go_error + assertStatusConfig" where
  "dec_assert_status c = (case c of WStatus v \<Rightarrow> Inr v | _ \<Rightarrow> bad_block)"

definition demo_Unmarshal :: "bytes \<Rightarrow> go_error + any" where
  "demo_Unmarshal b = (if b = ''doc'' then Inr demo_document else Inl (EFmt (Sprintf ''invalid character'' [])))"

definition demo_Marshal :: "any \<Rightarrow> go_error + bytes" where
  "demo_Marshal v = Inr ''doc''"

definition demo_wild :: "rat \<Rightarrow> int64" where
  "demo_wild q = 0"

definition demo_ParseDuration :: "string \<Rightarrow> go_error + duration" where
  "demo_ParseDuration s = Inr 1000000"

definition demo_SplitHost :: "string \<Rightarrow> go_error + string" where
  "demo_SplitHost a = Inr a"

definition demo_ParseIP :: "string \<Rightarrow> IP option" where
  "demo_ParseIP s =
     (if s = ''metadata'' then Some (mapped4 [169, 254, 169, 254])
      else if s = ''public'' then Some [93, 184, 216, 34] else None)"

definition demo_LookupEnv :: "unit \<Rightarrow> string \<Rightarrow> string option" where
  "demo_LookupEnv w n = (if n = ''LIMIT'' then Some ''-42'' else None)"

definition demo_process :: "unit \<Rightarrow> Command \<Rightarrow> proc_obs" where
  "demo_process w cmd =
     \<lparr>po_Run = Some (ExitError 3 (EFmt (Sprintf ''exit status 3'' []))), po_Stdout = ''out'', po_Stderr = '''',
      po_Outer = None, po_Inner = None\<rparr>"

definition demo_do :: "unit \<Rightarrow> http_client \<Rightarrow> out_request \<Rightarrow> http_obs" where
  "demo_do w client q = \<lparr>ob_Do = Inr demo_reply, ob_Ctx = None\<rparr>"

text \<open>Iterating an association list by its first occurrence of each key.\<close>

definition map_keys_once :: "string gomap \<Rightarrow> (string \<times> string) list" where
  "map_keys_once m = map (\<lambda>k. (k, the (map_of m k))) (sorted_keys m)"

definition demo_range :: "unit map_order" where
  "demo_range w m = map_keys_once m"

definition demo_library :: "(with_block, unit) library" where
  "demo_library =
     \<lparr>lb_no_config = dec_none, lb_value = dec_value,
      lb_env = dec_env,
      lb_format = dec_format,
      lb_get = dec_get,
      lb_condition = dec_condition,
      lb_assert = dec_assert,
      lb_command = dec_command,
      lb_build = dec_build,
      lb_request = dec_request,
      lb_header = dec_header,
      lb_from_url = dec_from_url,
      lb_with_header = dec_with_header,
      lb_assert_status = dec_assert_status,
      lb_Unmarshal = demo_Unmarshal, lb_Marshal = demo_Marshal, lb_wild = demo_wild,
      lb_ParseDuration = demo_ParseDuration, lb_ParseURL = demo_parse_url, lb_SplitHost = demo_SplitHost,
      lb_ParseIP = demo_ParseIP, lb_LookupEnv = demo_LookupEnv, lb_process = demo_process, lb_do = demo_do,
      lb_range = demo_range\<rparr>"

definition literal :: "any \<Rightarrow> string \<Rightarrow> yaml_node" where
  "literal v s = \<lparr>yn_Scalar = True, yn_Decode_string = Inr s, yn_Decode_bool = bad_block,
                  yn_Decode_int64 = bad_block, yn_Decode_any = Inr v\<rparr>"

section \<open>A pipeline over the built-in registry\<close>

definition builtin_reg :: "(with_block, unit) NodeNew Registry" where
  "builtin_reg = (case node_Registry domain_table demo_library of Inr R \<Rightarrow> R | Inl _ \<Rightarrow> [])"

text \<open>
  Equations that let a definition over the built-in registry be evaluated: the type table
  and the registry as literal lists.
\<close>

lemma domain_table_code [code]:
  "domain_table = \<lparr>byType = domain_types, byID = map (\<lambda>(t, i). (i, t)) domain_types\<rparr>"
  by (simp add: domain_table_def domain_types_def empty_types_def RegisterType_def)

lemma put_fresh: "k \<notin> fst ` set m \<Longrightarrow> put k v m = m @ [(k, v)]"
  unfolding put_def by (induction m) auto

lemma MustRegister_all_list:
  "\<forall>d\<in>set ds. def_Name d \<noteq> '''' \<and> def_New d \<noteq> None \<Longrightarrow> distinct (map def_Name ds) \<Longrightarrow>
   \<forall>d\<in>set ds. def_Name d \<notin> fst ` set r \<Longrightarrow>
   MustRegister_all ds r = Inr (r @ map (\<lambda>d. (def_Name d, d)) ds)"
proof (induction ds arbitrary: r)
  case Nil
  then show ?case by simp
next
  case (Cons d ds)
  then have "Register d r = Inr (r @ [(def_Name d, d)])"
    by (auto simp: Register_def put_fresh map_of_eq_None_iff)
  moreover have "MustRegister_all ds (r @ [(def_Name d, d)]) =
      Inr ((r @ [(def_Name d, d)]) @ map (\<lambda>d. (def_Name d, d)) ds)"
    using Cons.prems by (intro Cons.IH) (auto simp: image_iff)
  ultimately show ?case by simp
qed

lemma map_pair_zip: "map (\<lambda>x. (f x, x)) xs = zip (map f xs) xs"
  by (induction xs) auto

lemma node_Registry_list:
  "node_Registry tt L = Inr (zip builtin_names (node_Definitions tt L))"
proof -
  have "def_Name d \<noteq> ''''" if "d \<in> set (node_Definitions tt L)" for d
    using that node_Definitions_names [of tt L] builtin_names_distinct(2) by (metis imageI image_set)
  then have "node_Registry tt L = Inr (map (\<lambda>d. (def_Name d, d)) (node_Definitions tt L))"
    unfolding node_Registry_def using node_Definitions_new [of tt L] builtin_names_distinct(1)
    by (subst MustRegister_all_list) (simp_all add: NewRegistry_def node_Definitions_names)
  then show ?thesis by (simp add: map_pair_zip node_Definitions_names)
qed

lemma builtin_reg: "node_Registry domain_table demo_library = Inr builtin_reg"
  by (simp add: builtin_reg_def node_Registry_list)

definition builtin_new :: "nat \<Rightarrow> (with_block, unit) NodeNew" where
  "builtin_new i cfg = the (def_New (node_Definitions domain_table demo_library ! i)) cfg"

definition new_value :: "(with_block, unit) NodeNew" where
  "new_value cfg = value_newNode domain_table dec_value cfg"

definition new_decode :: "(with_block, unit) NodeNew" where
  "new_decode cfg = the (def_New (DecodeDefinition domain_table demo_Unmarshal dec_none)) cfg"

definition new_get :: "(with_block, unit) NodeNew" where
  "new_get cfg = newGet domain_table demo_wild dec_get cfg"

definition new_condition :: "(with_block, unit) NodeNew" where
  "new_condition cfg = condition_newNode domain_table dec_condition cfg"

definition new_assert :: "(with_block, unit) NodeNew" where
  "new_assert cfg = assert_newTrue domain_table dec_assert cfg"

lemma builtin_new_named:
  "builtin_new 0 = new_value"
  "builtin_new 3 = new_decode"
  "builtin_new 5 = new_get"
  "builtin_new 6 = new_condition"
  "builtin_new 7 = new_assert"
  by (rule ext, simp add: builtin_new_def node_Definitions_def node_definitions demo_library_def
        new_value_def new_decode_def new_get_def new_condition_def new_assert_def)+

lemma builtin_entry:
  "i < length builtin_names \<Longrightarrow> node_Definitions domain_table demo_library ! i =
     \<lparr>def_Name = builtin_names ! i, def_New = Some (builtin_new i)\<rparr>"
proof -
  let ?ds = "node_Definitions domain_table demo_library"
  assume "i < length builtin_names"
  then have i: "i < length ?ds" using node_Definitions_names [of domain_table demo_library] by (metis length_map)
  then have "def_New (?ds ! i) \<noteq> None" using node_Definitions_new [of domain_table demo_library] nth_mem by blast
  then have "def_New (?ds ! i) = Some (builtin_new i)" by (auto simp: builtin_new_def fun_eq_iff)
  moreover have "def_Name (?ds ! i) = builtin_names ! i"
    using i node_Definitions_names [of domain_table demo_library] by (metis nth_map)
  ultimately show ?thesis by simp
qed

lemma builtin_reg_entries:
  "builtin_reg = map (\<lambda>i. (builtin_names ! i, \<lparr>def_Name = builtin_names ! i, def_New = Some (builtin_new i)\<rparr>))
     [0..<length builtin_names]"
proof -
  have "length (node_Definitions domain_table demo_library) = length builtin_names"
    using node_Definitions_names [of domain_table demo_library] by (metis length_map)
  then show ?thesis
    by (intro nth_equalityI) (simp_all add: builtin_reg_def node_Registry_list builtin_entry)
qed

lemma builtin_reg_code [code]:
  "builtin_reg =
     [(''value'', \<lparr>def_Name = ''value'', def_New = Some new_value\<rparr>),
      (''env.get'', \<lparr>def_Name = ''env.get'', def_New = Some (builtin_new 1)\<rparr>),
      (''text.format'', \<lparr>def_Name = ''text.format'', def_New = Some (builtin_new 2)\<rparr>),
      (''json.decode'', \<lparr>def_Name = ''json.decode'', def_New = Some new_decode\<rparr>),
      (''json.encode'', \<lparr>def_Name = ''json.encode'', def_New = Some (builtin_new 4)\<rparr>),
      (''json.get'', \<lparr>def_Name = ''json.get'', def_New = Some new_get\<rparr>),
      (''condition'', \<lparr>def_Name = ''condition'', def_New = Some new_condition\<rparr>),
      (''assert.true'', \<lparr>def_Name = ''assert.true'', def_New = Some new_assert\<rparr>),
      (''exec.command'', \<lparr>def_Name = ''exec.command'', def_New = Some (builtin_new 8)\<rparr>),
      (''exec'', \<lparr>def_Name = ''exec'', def_New = Some (builtin_new 9)\<rparr>),
      (''exec.stdout'', \<lparr>def_Name = ''exec.stdout'', def_New = Some (builtin_new 10)\<rparr>),
      (''exec.stderr'', \<lparr>def_Name = ''exec.stderr'', def_New = Some (builtin_new 11)\<rparr>),
      (''exec.exit_code'', \<lparr>def_Name = ''exec.exit_code'', def_New = Some (builtin_new 12)\<rparr>),
      (''http.build'', \<lparr>def_Name = ''http.build'', def_New = Some (builtin_new 13)\<rparr>),
      (''http.request'', \<lparr>def_Name = ''http.request'', def_New = Some (builtin_new 14)\<rparr>),
      (''http.body'', \<lparr>def_Name = ''http.body'', def_New = Some (builtin_new 15)\<rparr>),
      (''http.status'', \<lparr>def_Name = ''http.status'', def_New = Some (builtin_new 16)\<rparr>),
      (''http.header'', \<lparr>def_Name = ''http.header'', def_New = Some (builtin_new 17)\<rparr>),
      (''http.from_url'', \<lparr>def_Name = ''http.from_url'', def_New = Some (builtin_new 18)\<rparr>),
      (''http.with_header'', \<lparr>def_Name = ''http.with_header'', def_New = Some (builtin_new 19)\<rparr>),
      (''http.with_body'', \<lparr>def_Name = ''http.with_body'', def_New = Some (builtin_new 20)\<rparr>),
      (''http.assert_status'', \<lparr>def_Name = ''http.assert_status'', def_New = Some (builtin_new 21)\<rparr>)]"
  unfolding builtin_reg_entries builtin_new_named [symmetric]
  by (simp add: builtin_names_def upt_conv_Cons eval_nat_numeral)

definition plain_step :: "string \<Rightarrow> with_block \<Rightarrow> Needs \<Rightarrow> with_block Step" where
  "plain_step uses w needs = \<lparr>st_Uses = uses, st_With = w, st_Needs = needs, st_Retry = None\<rparr>"

definition no_needs :: Needs where
  "no_needs = \<lparr>nd_order = [], nd_byPort = [], nd_named = False\<rparr>"

definition builtin_file :: "with_block File" where
  "builtin_file = \<lparr>f_Version = 1, f_Inputs = [], f_Trigger = None,
     f_Steps =
       [(''raw'', plain_step ''value'' (WValue \<lparr>vc_Type = ''Bytes'', vc_Value = Some (literal AnyNil ''doc'')\<rparr>) no_needs),
        (''doc'', plain_step ''json.decode'' WNone (demo_needs ''raw'')),
        (''n'', plain_step ''json.get'' (WGet \<lparr>gc_Path = ''n'', gc_As = ''Int'', gc_Default = None\<rparr>) (demo_needs ''doc'')),
        (''is3'', plain_step ''condition''
           (WCondition \<lparr>cc_Path = ''n'', cc_Equals = Some (literal (AnyInt 3) ''3''), cc_Exists = None\<rparr>) (demo_needs ''doc'')),
        (''ok'', plain_step ''assert.true'' WNone (demo_needs ''is3''))]\<rparr>"

definition builtin_registries :: "(with_block, unit) Registries" where
  "builtin_registries = \<lparr>rg_Nodes = Some builtin_reg, rg_Triggers = None\<rparr>"

definition builtin_plan :: "unit ExecutionPlan" where
  "builtin_plan = (case Compile domain_table builtin_file builtin_registries ''demo'' of Inr p \<Rightarrow> p | Inl _ \<Rightarrow> undefined)"

lemma builtin_compiles: "Compile domain_table builtin_file builtin_registries ''demo'' = Inr builtin_plan"
proof -
  have "case Compile domain_table builtin_file builtin_registries ''demo'' of Inr _ \<Rightarrow> True | Inl _ \<Rightarrow> False"
    by code_simp
  then show ?thesis by (auto simp: builtin_plan_def split: sum.splits)
qed

lemma builtin_valid: "valid_file builtin_file"
  unfolding validate_None_iff [symmetric] by code_simp

definition builtin_start :: "unit scheduler" where
  "builtin_start = Run_start demo_env ''fresh'' builtin_plan (demo_options\<lparr>op_Inputs := []\<rparr>)"

lemma builtin_starts_typed: "starts_typed domain_table builtin_plan builtin_start"
  unfolding starts_typed_def builtin_start_def using Compile_plan_wf [OF builtin_valid builtin_compiles]
  by (intro conjI exI [of _ demo_env] exI [of _ "demo_options\<lparr>op_Inputs := []\<rparr>"] exI [of _ "''fresh''"])
    (simp_all add: demo_env_def good_values_def)


section \<open>Single nodes\<close>

definition limit_config :: env_config where
  "limit_config = \<lparr>evc_Name = ''LIMIT'', evc_As = ''Int'', evc_Default = None\<rparr>"

lemma limit_node: "\<exists>n. env_newNode domain_table demo_LookupEnv dec_env (WEnv limit_config) = Inr (Some n)"
  by (simp add: env_newNode_def dec_env_def limit_config_def env_source_def)

lemma limit_text: "int_text ''-42'' (- 42)"
  unfolding int_text_def
  by (intro exI [of _ "''-''"] exI [of _ "''42''"])
    (simp add: decimal_def digit_val_def is_digit_def)

definition count_config :: getConfig where
  "count_config = \<lparr>gc_Path = ''n'', gc_As = ''Int'', gc_Default = None\<rparr>"

lemma count_node: "\<exists>n. newGet domain_table demo_wild dec_get (WGet count_config) = Inr (Some n)"
  by (simp add: newGet_def dec_get_def count_config_def jsonpath_Parse_def getter_def Let_def)

definition has_count :: condition_config where
  "has_count = \<lparr>cc_Path = ''n'', cc_Equals = None, cc_Exists = Some True\<rparr>"

lemma has_count_node: "\<exists>n. condition_newNode domain_table dec_condition (WCondition has_count) = Inr (Some n)"
  by (simp add: condition_newNode_def dec_condition_def has_count_def jsonpath_Parse_def Let_def)

lemma has_count_path:
  assumes "cc_Path has_count = join ''.'' path" "\<forall>s\<in>set path. s \<noteq> '''' \<and> CHR ''.'' \<notin> set s"
  shows "path = [''n'']"
proof -
  have "path \<noteq> []" using assms(1) by (auto simp: has_count_def)
  then have "path = Split CHR ''.'' (cc_Path has_count)"
    using Split_join [of path "CHR ''.''"] assms by simp
  then show ?thesis by (simp add: has_count_def)
qed

definition demo_command :: Command where
  "demo_command = \<lparr>cm_Name = ''make'', cm_Args = [''check''], cm_Dir = '''', cm_Timeout = 0\<rparr>"

lemma runner_returns:
  "\<exists>res. rn_Execute (runner domain_table demo_process) w ec [NewValue domain_table (PCommand demo_command)] = Returns res"
  by (simp add: runner_run exec_run_def demo_command_def demo_process_def Let_def classify_def)

definition small_request :: requestConfig where
  "small_request = \<lparr>rc_Timeout = '''', rc_MaxBodyBytes = 1, rc_AllowPrivate = False\<rparr>"

lemma small_request_node:
  "\<exists>n. request_newNode domain_table demo_parse_url demo_ParseDuration demo_SplitHost demo_ParseIP
      demo_range demo_do dec_request (WRequest small_request) = Inr (Some n)"
  by (simp add: request_newNode_def dec_request_def small_request_def parseTimeout_def maxBodyBytes_def)

definition demo_http_request :: Request where
  "demo_http_request = \<lparr>rq_Method = ''GET'', rq_URL = CheckedURL ''http://example.org'',
     rq_Headers = [(''Accept'', ''text/plain'')], rq_Body = ''''\<rparr>"

lemma demo_builds: "\<exists>q. http_build demo_parse_url demo_range () demo_http_request = Inr q"
  by (simp add: http_build_def demo_http_request_def NewRequest_def demo_parse_url_def token_byte_def Let_def)

lemma demo_ranges: "ranges demo_range"
proof -
  have "map fst (map_keys_once m) = sorted_keys m" for m
    by (simp add: map_keys_once_def comp_def)
  moreover have "map_of (map_keys_once m) k = map_of m k" for m k
    by (cases "k \<in> fst ` set m")
      (auto simp: map_keys_once_def map_of_map_restrict restrict_map_def sorted_keys_def weak_map_of_SomeI
        dest: map_of_eq_None_iff [THEN iffD2] intro: sym)
  ultimately show ?thesis by (simp add: ranges_def demo_range_def sorted_keys_def fun_eq_iff)
qed

lemma token_node:
  "\<exists>n. with_header_newNode domain_table demo_range dec_with_header (WText ''x-token'') = Inr (Some n)"
  by (simp add: with_header_newNode_def dec_with_header_def)

lemma token_sent:
  assumes "with_header_newNode domain_table demo_range dec_with_header (WText ''x-token'') = Inr (Some n)"
  shows "\<exists>res r' q. rn_Execute n () ec [NewValue domain_table (PRequest demo_http_request),
        NewValue domain_table (PText t)] = Returns res \<and>
    v_ref (rv_Value res) = Some (PRequest r') \<and> http_build demo_parse_url demo_range () r' = Inr q"
proof -
  have n: "n = NewTypedNode2 domain_table tRequest tText tRequest WithHeaderName
      (with_header demo_range (CanonicalMIMEHeaderKey ''x-token''))"
    using assms by (simp add: with_header_newNode_def dec_with_header_def)
  let ?r = "demo_http_request\<lparr>rq_Headers := put (CanonicalMIMEHeaderKey ''x-token'') t
      (canonical_headers (demo_range () (rq_Headers demo_http_request)))\<rparr>"
  have "rn_Execute n () ec [NewValue domain_table (PRequest demo_http_request), NewValue domain_table (PText t)] =
      Returns (erase (TypeOf domain_table tRequest) (Ok (PRequest ?r)))"
    unfolding n by (simp add: NewTypedNode2_def Let_def typedNode2_Execute_def assert_ref_def NewValue_def with_header_def)
  moreover have "\<exists>q. http_build demo_parse_url demo_range () ?r = Inr q"
    by (simp add: http_build_def demo_http_request_def NewRequest_def demo_parse_url_def token_byte_def Let_def)
  ultimately show ?thesis by auto
qed

lemma demo_addresses:
  "internal_ip (mapped4 [169, 254, 169, 254])" "\<not> internal_ip [93, 184, 216, 34]"
  by code_simp+

definition at_least_200 :: assertStatusConfig where
  "at_least_200 = \<lparr>as_Equals = None, as_Min = Some 200, as_Max = None\<rparr>"

lemma at_least_200_node:
  "\<exists>n. assert_status_newNode domain_table dec_assert_status (WStatus at_least_200) = Inr (Some n)"
proof -
  have "bounds at_least_200 = Inr (200, 599)" by code_simp
  then show ?thesis by (simp add: assert_status_newNode_def dec_assert_status_def)
qed

end
