(* ===== verification/Cli.thy ===== *)
theory Cli
  imports System Builtin_Nodes
begin

text \<open>
  The command line (\<^verbatim>\<open>cmd/p6e/main.go\<close>, \<^verbatim>\<open>serve.go\<close>): splitting arguments, building
  inputs, and the verbs with what they print and the code they exit with. A write is the
  stream it goes to and the fragments \<open>Fprintf\<close> renders; the usage text is one fragment. The
  file system, the clock's text form, the execution of a plan and the serving of a daemon are
  the fields of a record.
\<close>

section \<open>Strings and paths\<close>

definition HasPrefix :: "string \<Rightarrow> string \<Rightarrow> bool" where
  "HasPrefix s p \<longleftrightarrow> take (length p) s = p"

text \<open>\<open>strings.Cut\<close> around a one-byte separator.\<close>

definition Cut :: "string \<Rightarrow> char \<Rightarrow> (string \<times> string) option" where
  "Cut s c = (if c \<in> set s then Some (takeWhile (\<lambda>x. x \<noteq> c) s, tl (dropWhile (\<lambda>x. x \<noteq> c) s)) else None)"

text \<open>\<open>filepath.Base\<close>: the last element, trailing slashes removed.\<close>

definition Base :: "string \<Rightarrow> string" where
  "Base path =
     (let kept = dropWhile (\<lambda>c. c = CHR ''/'') (rev path);
          element = rev (takeWhile (\<lambda>c. c \<noteq> CHR ''/'') kept)
      in if path = '''' then ''.'' else if element = '''' then ''/'' else element)"

definition nameOf :: "string \<Rightarrow> string" where
  "nameOf path = (let base = Base path in TrimSuffix base (Ext base))"

section \<open>Output and exit codes\<close>

datatype stream = Stdout | Stderr

datatype fragment =
    Text message
  | Usage
  | Problems "Problem list"
  | Refusal load_error
  | Violation MutationViolation

type_synonym printed = "stream \<times> fragment list"

definition nl :: string where "nl = [CHR 0x0A]"

definition line :: "string \<Rightarrow> farg list \<Rightarrow> fragment" where
  "line format args = Text (Sprintf (format @ nl) args)"

definition exitOK :: int where "exitOK = 0"
definition exitFailure :: int where "exitFailure = 1"
definition exitUsage :: int where "exitUsage = 2"

record ('c, 'w) host =
  ho_Open :: "string \<Rightarrow> go_error + (go_error + bytes)"
  ho_Decode :: "bytes \<Rightarrow> go_error option + 'c File"
  ho_ReadFile :: "string \<Rightarrow> go_error + bytes"
  ho_ReadDir :: "string \<Rightarrow> go_error + dir_entry list"
  ho_Join :: "string \<Rightarrow> string \<Rightarrow> string"
  ho_ClaimOrder :: "string \<Rightarrow> Claim list"
  ho_ParseTime :: "string \<Rightarrow> instant option"
  ho_ParseDuration :: "string \<Rightarrow> go_error + duration"
  ho_Run :: "'w ExecutionPlan \<Rightarrow> Options \<Rightarrow> 'w Execution"
  ho_Serve :: "'w Daemon \<Rightarrow> go_error option"
  ho_Build :: "string \<times> string \<times> string \<times> string"

text \<open>
  \<open>ParseFile\<close> streams a file through \<open>Parse\<close>: \<open>os.Open\<close> either fails or gives a stream, whose
  reading may fail in turn.
\<close>

definition pipeline_ParseFile ::
  "(bytes \<Rightarrow> go_error option + 'c File) \<Rightarrow> (string \<Rightarrow> go_error + (go_error + bytes)) \<Rightarrow> string \<Rightarrow> go_error + 'c File" where
  "pipeline_ParseFile decode opened path =
     (case opened path of
        Inl err \<Rightarrow> Inl err
      | Inr stream \<Rightarrow>
          (case Parse decode stream of
             Inl err \<Rightarrow> Inl (EWrap (Sprintf ''%s: %w'' [AStr path]) err)
           | Inr f \<Rightarrow> Inr f))"

lemma ParseFile_valid: "pipeline_ParseFile decode opened path = Inr f \<Longrightarrow> valid_file f"
  by (auto simp: pipeline_ParseFile_def dest: Parse_valid split: sum.splits)

section \<open>Arguments of run\<close>

definition zero_options :: Options where
  "zero_options =
     \<lparr>op_WorkflowID = '''', op_Inputs = [], op_ExecutionID = '''', op_MaxConcurrency = 0, op_Slots = False,
      op_AbandonAfter = 0, op_DetectMutation = False, op_InlineSoloSteps = False\<rparr>"

fun split_run :: "string list \<Rightarrow> string list \<Rightarrow> Options \<Rightarrow> string list \<Rightarrow>
    string list \<times> Options \<times> string list \<times> string" where
  "split_run [] files opts inputs = (files, opts, inputs, '''')"
| "split_run (arg # rest) files opts inputs =
     (if arg = ''--detect-mutation'' then split_run rest files (opts\<lparr>op_DetectMutation := True\<rparr>) inputs
      else if arg = ''--inline'' then split_run rest files (opts\<lparr>op_InlineSoloSteps := True\<rparr>) inputs
      else if arg = ''--input'' then
        (case rest of
           [] \<Rightarrow> ([], zero_options, [], arg)
         | given # rest' \<Rightarrow> split_run rest' files opts (inputs @ [given]))
      else if HasPrefix arg ''--input='' then
        split_run rest files opts (inputs @ [drop (length ''--input='') arg])
      else if HasPrefix arg ''-'' then ([], zero_options, [], arg)
      else split_run rest (files @ [arg]) opts inputs)"

definition splitRunArgs :: "string list \<Rightarrow> string list \<times> Options \<times> string list \<times> string" where
  "splitRunArgs args = split_run args [] zero_options []"

section \<open>Inputs from the command line\<close>

definition convertInput ::
  "type_table \<Rightarrow> (string \<Rightarrow> instant option) \<Rightarrow> TypeID \<Rightarrow> string \<Rightarrow> go_error + Value" where
  "convertInput tt parseTime ty literal =
     (if ty = ''Time'' then
        (case parseTime (TrimSpace literal) of
           None \<Rightarrow> Inl (EFmt (Sprintf ''%q is not an RFC 3339 time such as %q''
                    [AStr literal, AStr ''2026-08-13T09:00:00Z'']))
         | Some t \<Rightarrow> Inr (NewValue tt (PTime t)))
      else if ty = ''Text'' then Inr (NewValue tt (PText literal))
      else if ty = ''Bytes'' then Inr (NewValue tt (PBytes literal))
      else if ty = ''Bool'' then
        (case ParseBool literal of
           Inl _ \<Rightarrow> Inl (EFmt (Sprintf ''%q is not a Bool such as \"true\"'' [AStr literal]))
         | Inr b \<Rightarrow> Inr (NewValue tt (PBool b)))
      else if ty = ''Int'' then
        (case ParseInt literal of
           Inl _ \<Rightarrow> Inl (EFmt (Sprintf ''%q is not a whole number'' [AStr literal]))
         | Inr n \<Rightarrow> Inr (NewValue tt (PInt n)))
      else Inl (EFmt (Sprintf ''the command line cannot build a %s; it supplies Text, Bytes, Bool, Int and Time''
                  [AStr ty])))"

definition read_literal :: "(string \<Rightarrow> go_error + bytes) \<Rightarrow> string \<Rightarrow> go_error + string" where
  "read_literal readFile literal =
     (case CutPrefix literal ''@'' of None \<Rightarrow> Inr literal | Some path \<Rightarrow> readFile path)"

definition build_input ::
  "type_table \<Rightarrow> (string \<Rightarrow> instant option) \<Rightarrow> (string \<Rightarrow> go_error + bytes) \<Rightarrow> TypeID gomap \<Rightarrow> string list \<Rightarrow>
   string \<Rightarrow> Value gomap \<Rightarrow> go_error + Value gomap" where
  "build_input tt parseTime readFile declared names assignment values' =
     (case Cut assignment CHR ''='' of
        None \<Rightarrow> Inl (EFmt (Sprintf ''--input %q is not of the form NAME=VALUE'' [AStr assignment]))
      | Some (name, literal) \<Rightarrow>
          (case map_of declared name of
             None \<Rightarrow>
               if names = [] then
                 Inl (EFmt (Sprintf ''--input %q: this pipeline declares no inputs'' [AStr name]))
               else
                 Inl (EFmt (Sprintf ''--input %q: this pipeline declares no such input (it declares: %s)''
                        [AStr name, AStr (join '', '' names)]))
           | Some ty \<Rightarrow>
               if map_of values' name \<noteq> None then
                 Inl (EFmt (Sprintf ''--input %q was supplied more than once'' [AStr name]))
               else
                 (case read_literal readFile literal of
                    Inl err \<Rightarrow> Inl (EWrap (Sprintf ''--input %q: %w'' [AStr name]) err)
                  | Inr text \<Rightarrow>
                      (case convertInput tt parseTime ty text of
                         Inl err \<Rightarrow> Inl (EWrap (Sprintf ''--input %q: %w'' [AStr name]) err)
                       | Inr v \<Rightarrow> Inr (put name v values')))))"

fun build_inputs ::
  "(string \<Rightarrow> Value gomap \<Rightarrow> go_error + Value gomap) \<Rightarrow> string list \<Rightarrow> Value gomap \<Rightarrow> go_error + Value gomap" where
  "build_inputs build [] values' = Inr values'"
| "build_inputs build (a # rest) values' =
     (case build a values' of Inl err \<Rightarrow> Inl err | Inr values'' \<Rightarrow> build_inputs build rest values'')"

definition buildInputs ::
  "type_table \<Rightarrow> (string \<Rightarrow> instant option) \<Rightarrow> (string \<Rightarrow> go_error + bytes) \<Rightarrow> 'w ExecutionPlan \<Rightarrow> string list \<Rightarrow>
   go_error + Value gomap" where
  "buildInputs tt parseTime readFile p assignments =
     (let declared = fold (\<lambda>inp m. put (pi_Name inp) (pi_Type inp) m) (p_Inputs p) [];
          names = map pi_Name (p_Inputs p)
      in build_inputs (build_input tt parseTime readFile declared names) assignments [])"

section \<open>Compiling and checking\<close>

definition cli_compile ::
  "type_table \<Rightarrow> ('c, 'w) Registries \<Rightarrow> ('c, 'w) host \<Rightarrow> string \<Rightarrow> (printed list \<times> int) + 'w ExecutionPlan" where
  "cli_compile tt reg h path =
     (case pipeline_ParseFile (ho_Decode h) (ho_Open h) path of
        Inl err \<Rightarrow> Inl ([(Stderr, [line ''%v'' [AErr err]])], exitFailure)
      | Inr f \<Rightarrow>
          (case Compile tt f reg (nameOf path) of
             Inl problems \<Rightarrow>
               Inl ([(Stderr, [Text (Sprintf ''%s: '' [AStr path]), Problems problems, Text (Sprintf nl [])])], exitFailure)
           | Inr p \<Rightarrow> Inr p))"

definition checkCommand ::
  "type_table \<Rightarrow> ('c, 'w) Registries \<Rightarrow> ('c, 'w) host \<Rightarrow> string \<Rightarrow> printed list \<times> int" where
  "checkCommand tt reg h path =
     (case cli_compile tt reg h path of
        Inl stop \<Rightarrow> stop
      | Inr p \<Rightarrow>
          let counts = Sprintf ''%d steps, %d starting''
                [AInt (int (Plan_Len p) - int (length (p_Inputs p))),
                 AInt (int (length (p_Roots p)) + int (length (p_Inputs p)))];
              n = length (p_Inputs p);
              counts' = (if n > 0 then Sprintf ''%d inputs, %s'' [AInt (int n), AMsg counts] else counts)
          in ([(Stdout, [line ''ok: %s compiles (%s)'' [AStr path, AMsg counts']])], exitOK))"

definition reportLoad :: "'w Loaded \<Rightarrow> printed list" where
  "reportLoad ld =
     map (\<lambda>p. (Stdout, [line ''  serving   %-24s %s'' [AStr (pl_Name p), AStr (Claim_String (pipeline_Claim p))]]))
       (ld_Served ld) @
     map (\<lambda>path. (Stdout, [line ''  by hand   %-24s no trigger'' [AStr (nameOf path)]])) (ld_Untriggered ld) @
     map (\<lambda>r. (Stderr, [Text (Sprintf ''  rejected  %-24s '' [AStr (nameOf (rj_Path r))]), Refusal (rj_Err r),
                       Text (Sprintf nl [])])) (ld_Rejected ld)"

definition load_dir ::
  "type_table \<Rightarrow> ('c, 'w) Registries \<Rightarrow> ('c, 'w) host \<Rightarrow> string \<Rightarrow> go_error + 'w Loaded" where
  "load_dir tt reg h dir =
     Load tt reg (ho_Join h dir) (pipeline_ParseFile (ho_Decode h) (ho_Open h)) (ho_ClaimOrder h dir) (ho_ReadDir h dir)"

definition checkDirCommand ::
  "type_table \<Rightarrow> ('c, 'w) Registries \<Rightarrow> ('c, 'w) host \<Rightarrow> string \<Rightarrow> printed list \<times> int" where
  "checkDirCommand tt reg h dir =
     (case load_dir tt reg h dir of
        Inl err \<Rightarrow> ([(Stderr, [line ''%v'' [AErr err]])], exitFailure)
      | Inr ld \<Rightarrow>
          if length (ld_Rejected ld) > 0 then (reportLoad ld, exitFailure)
          else (reportLoad ld @
                  [(Stdout, [line ''ok: %s (%d servable, %d to run by hand)''
                     [AStr dir, AInt (int (length (ld_Served ld))), AInt (int (length (ld_Untriggered ld)))]])],
                exitOK))"

definition dirArg :: "string list \<Rightarrow> string option" where
  "dirArg args =
     (case args of
        [] \<Rightarrow> None
      | arg # rest \<Rightarrow>
          (case CutPrefix arg ''--dir='' of
             Some given \<Rightarrow> Some given
           | None \<Rightarrow>
               if arg \<noteq> ''--dir'' then None
               else (case rest of [given] \<Rightarrow> Some given | _ \<Rightarrow> Some '''')))"

definition withFile :: "string list \<Rightarrow> (string \<Rightarrow> printed list \<times> int) \<Rightarrow> printed list \<times> int" where
  "withFile args fn =
     (case args of
        [verb, path] \<Rightarrow> fn path
      | _ \<Rightarrow> ([(Stderr, [Text (Sprintf (''%s takes exactly one pipeline file'' @ nl @ nl) [AStr (args ! 0)]), Usage])],
              exitUsage))"

section \<open>Running a pipeline\<close>

text \<open>\<open>Duration.Round\<close>, in nanoseconds: to the nearest multiple, halves away from zero, saturating.\<close>

definition Round :: "duration \<Rightarrow> int \<Rightarrow> int" where
  "Round d m =
     (let n = sint d; r = \<bar>n\<bar> mod m in
      if n < 0 then (if 2 * r < m then n + r else max (n - m + r) (- (2 ^ 63)))
      else (if 2 * r < m then n - r else min (n + m - r) (2 ^ 63 - 1)))"

definition cli_round :: "duration \<Rightarrow> int" where
  "cli_round d =
     (if sint d \<ge> 1000000000 then Round d 1000000
      else if sint d \<ge> 1000000 then Round d 10000
      else Round d 1000)"

definition detail :: "StepResult \<Rightarrow> message" where
  "detail step =
     (case sr_Err step of
        Some e \<Rightarrow> Sprintf ''%v'' [AErr (ENode e)]
      | None \<Rightarrow>
          if rm_Attempt (sr_Meta step) > 1 then
            Sprintf ''%s (attempt %d)'' [AInt (cli_round (rm_Duration (sr_Meta step))), AInt (rm_Attempt (sr_Meta step))]
          else if sint (rm_Duration (sr_Meta step)) > 0 then
            Sprintf ''%s'' [AInt (cli_round (rm_Duration (sr_Meta step)))]
          else Sprintf '''' [])"

definition report_end :: "'w Execution \<Rightarrow> printed" where
  "report_end ex =
     (if ex_FailedStep ex \<ge> 0 then
        let failed = ex_Steps ex ! nat (ex_FailedStep ex) in
        (Stderr, [line (nl @ ''failed at step %q: %v'')
           [AStr (sr_ID failed), case sr_Err failed of None \<Rightarrow> AStr ''<nil>'' | Some e \<Rightarrow> AErr (ENode e)]])
      else if ex_Cancelled ex then (Stderr, [line (nl @ ''cancelled'') []])
      else if length (ex_Mutations ex) > 0 then
        (Stderr, [line (nl @ ''every step succeeded, but the run broke the immutability rule'') []])
      else (Stdout, [line (nl @ ''ok: %d steps'') [AInt (int (length (ex_Steps ex)))]]))"

definition report :: "'w Execution \<Rightarrow> printed list" where
  "report ex =
     map (\<lambda>step. (Stdout, [line ''  %-9s %-24s %s''
        [AStr (State_String (sr_State step)), AStr (sr_ID step), AMsg (detail step)]])) (ex_Steps ex) @
     map (\<lambda>v. (Stderr, [Text (Sprintf (nl @ ''immutability violation: '') []), Violation v, Text (Sprintf nl [])]))
       (ex_Mutations ex) @
     (if ex_Abandoned ex > 0
      then [(Stderr, [line (nl @ ''%d step(s) were abandoned still running: a node is ignoring its context'')
               [AInt (int (ex_Abandoned ex))]])]
      else []) @
     [report_end ex]"

definition runCommand ::
  "type_table \<Rightarrow> ('c, 'w) Registries \<Rightarrow> ('c, 'w) host \<Rightarrow> string \<Rightarrow> Options \<Rightarrow> string list \<Rightarrow> printed list \<times> int" where
  "runCommand tt reg h path opts assignments =
     (case cli_compile tt reg h path of
        Inl stop \<Rightarrow> stop
      | Inr p \<Rightarrow>
          (case buildInputs tt (ho_ParseTime h) (ho_ReadFile h) p assignments of
             Inl err \<Rightarrow> ([(Stderr, [line ''%v'' [AErr err]])], exitUsage)
           | Inr inputs \<Rightarrow>
               let execution = ho_Run h p (opts\<lparr>op_Inputs := inputs\<rparr>) in
               (report execution,
                if Execution_Failed execution then exitFailure
                else if length (ex_Mutations execution) > 0 then exitFailure
                else exitOK)))"

section \<open>Arguments of serve\<close>

definition zero_daemon_options :: DaemonOptions where
  "zero_daemon_options =
     \<lparr>do_Addr = '''', do_AdminAddr = '''', do_MaxConcurrency = 0, do_DrainTimeout = 0, do_AbandonAfter = 0,
      do_MaxRunsPerPipeline = 0, do_ReadTimeout = 0, do_IdleTimeout = 0, do_WriteTimeout = 0\<rparr>"

text \<open>The closure \<open>take\<close>: the value of an option and the arguments left to read.\<close>

definition take_value :: "string \<Rightarrow> string list \<Rightarrow> (string \<times> string list) option" where
  "take_value arg rest =
     (case Cut arg CHR ''='' of
        Some (_, given) \<Rightarrow> Some (given, rest)
      | None \<Rightarrow> (case rest of [] \<Rightarrow> None | given # rest' \<Rightarrow> Some (given, rest')))"

lemma take_value_length: "take_value arg rest = Some (given, rest') \<Longrightarrow> length rest' \<le> length rest"
  by (auto simp: take_value_def split: option.splits list.splits)

definition option_name :: "string \<Rightarrow> string" where
  "option_name arg = (case Cut arg CHR ''='' of Some (name, _) \<Rightarrow> name | None \<Rightarrow> arg)"

function split_serve ::
  "(string \<Rightarrow> go_error + duration) \<Rightarrow> string list \<Rightarrow> string list \<Rightarrow> DaemonOptions \<Rightarrow>
   string list \<times> DaemonOptions \<times> string \<times> go_error option" where
  "split_serve parseDuration [] dirs opts = (dirs, opts, '''', None)"
| "split_serve parseDuration (arg # rest) dirs opts =
     (if option_name arg = ''--listen'' then
        (case take_value arg rest of
           None \<Rightarrow> ([], opts, arg, None)
         | Some (given, rest') \<Rightarrow> split_serve parseDuration rest' dirs (opts\<lparr>do_Addr := given\<rparr>))
      else if option_name arg = ''--admin-listen'' then
        (case take_value arg rest of
           None \<Rightarrow> ([], opts, arg, None)
         | Some (given, rest') \<Rightarrow> split_serve parseDuration rest' dirs (opts\<lparr>do_AdminAddr := given\<rparr>))
      else if option_name arg = ''--max-concurrency'' then
        (case take_value arg rest of
           None \<Rightarrow> ([], opts, arg, None)
         | Some (given, rest') \<Rightarrow>
             (case ParseInt given of
                Inr n \<Rightarrow>
                  if sint n \<le> 0 then
                    ([], opts, '''', Some (EFmt (Sprintf ''--max-concurrency wants a positive number, got %q'' [AStr given])))
                  else split_serve parseDuration rest' dirs (opts\<lparr>do_MaxConcurrency := sint n\<rparr>)
              | Inl _ \<Rightarrow>
                  ([], opts, '''', Some (EFmt (Sprintf ''--max-concurrency wants a positive number, got %q'' [AStr given])))))
      else if option_name arg = ''--drain'' then
        (case take_value arg rest of
           None \<Rightarrow> ([], opts, arg, None)
         | Some (given, rest') \<Rightarrow>
             (case parseDuration given of
                Inr d \<Rightarrow>
                  if sint d \<le> 0 then
                    ([], opts, '''', Some (EFmt (Sprintf ''--drain wants a positive duration such as \"30s\", got %q'' [AStr given])))
                  else split_serve parseDuration rest' dirs (opts\<lparr>do_DrainTimeout := d\<rparr>)
              | Inl _ \<Rightarrow>
                  ([], opts, '''', Some (EFmt (Sprintf ''--drain wants a positive duration such as \"30s\", got %q'' [AStr given])))))
      else if option_name arg = ''--max-runs'' then
        (case take_value arg rest of
           None \<Rightarrow> ([], opts, arg, None)
         | Some (given, rest') \<Rightarrow>
             (case ParseInt given of
                Inr n \<Rightarrow>
                  if sint n = 0 then
                    ([], opts, '''', Some (EFmt (Sprintf
                       ''--max-runs wants a positive number, or a negative one to remove the cap, got %q'' [AStr given])))
                  else split_serve parseDuration rest' dirs (opts\<lparr>do_MaxRunsPerPipeline := sint n\<rparr>)
              | Inl _ \<Rightarrow>
                  ([], opts, '''', Some (EFmt (Sprintf
                     ''--max-runs wants a positive number, or a negative one to remove the cap, got %q'' [AStr given])))))
      else if HasPrefix arg ''-'' then ([], opts, arg, None)
      else split_serve parseDuration rest (dirs @ [arg]) opts)"
  by pat_completeness auto

termination
  by (relation "measure (\<lambda>(pd, args, dirs, opts). length args)") (auto dest!: take_value_length)

definition splitServeArgs ::
  "(string \<Rightarrow> go_error + duration) \<Rightarrow> string list \<Rightarrow> string list \<times> DaemonOptions \<times> string \<times> go_error option" where
  "splitServeArgs parseDuration args = split_serve parseDuration args [] zero_daemon_options"

section \<open>The verbs\<close>

definition serveCommand ::
  "type_table \<Rightarrow> ('c, 'w) Registries \<Rightarrow> ('c, 'w) host \<Rightarrow> string \<Rightarrow> DaemonOptions \<Rightarrow> printed list \<times> int" where
  "serveCommand tt reg h dir opts =
     (case load_dir tt reg h dir of
        Inl err \<Rightarrow> ([(Stderr, [line ''%v'' [AErr err]])], exitFailure)
      | Inr ld \<Rightarrow>
          if length (ld_Served ld) = 0 then
            (reportLoad ld @
               [(Stderr, [line ''nothing to serve: no pipeline in %s both compiles and declares a trigger'' [AStr dir]])],
             exitFailure)
          else
            (case ho_Serve h (New (ld_Served ld) opts) of
               Some err \<Rightarrow> (reportLoad ld @ [(Stderr, [line ''%v'' [AErr err]])], exitFailure)
             | None \<Rightarrow> (reportLoad ld, exitOK)))"

definition registries ::
  "type_table \<Rightarrow> ('c, 'w) library \<Rightarrow> (bytes \<Rightarrow> bytes \<Rightarrow> bytes) \<Rightarrow> ('c \<Rightarrow> go_error + webhookConfig) \<Rightarrow>
   ('c \<Rightarrow> go_error + string) \<Rightarrow> go_error + ('c, 'w) Registries" where
  "registries tt L hmac decode_webhook decode_schedule =
     (case node_Registry tt L of
        Inl err \<Rightarrow> Inl err
      | Inr R \<Rightarrow>
          (case Builtins tt hmac (lb_ParseDuration L) decode_webhook decode_schedule of
             Inl err \<Rightarrow> Inl err
           | Inr T \<Rightarrow> Inr \<lparr>rg_Nodes = Some R, rg_Triggers = Some T\<rparr>))"

definition usage_error :: "string \<Rightarrow> farg list \<Rightarrow> printed list \<times> int" where
  "usage_error format args = ([(Stderr, [Text (Sprintf (format @ nl @ nl) args), Usage])], exitUsage)"

definition cli_run ::
  "type_table \<Rightarrow> ('c, 'w) Registries \<Rightarrow> ('c, 'w) host \<Rightarrow> string list \<Rightarrow> printed list \<times> int" where
  "cli_run tt reg h args =
     (case args of
        [] \<Rightarrow> ([(Stderr, [Usage])], exitUsage)
      | verb # rest \<Rightarrow>
          if verb = ''check'' then
            (case dirArg rest of
               Some dir \<Rightarrow>
                 if dir = '''' then usage_error ''check --dir takes exactly one directory'' []
                 else checkDirCommand tt reg h dir
             | None \<Rightarrow> withFile args (checkCommand tt reg h))
          else if verb = ''serve'' then
            (case splitServeArgs (ho_ParseDuration h) rest of
               (dirs, opts, unknown, err) \<Rightarrow>
                 if unknown \<noteq> '''' then usage_error ''unknown option %q'' [AStr unknown]
                 else
                   (case err of
                      Some e \<Rightarrow> ([(Stderr, [line ''%v'' [AErr e]])], exitUsage)
                    | None \<Rightarrow>
                        if length dirs \<noteq> 1 then usage_error ''serve takes exactly one directory'' []
                        else serveCommand tt reg h (dirs ! 0) opts))
          else if verb = ''triggers'' then
            (map (\<lambda>name. (Stdout, [line ''%s'' [AStr name]])) (trigger_Names (triggers_of reg)), exitOK)
          else if verb = ''version'' \<or> verb = ''--version'' then
            (case ho_Build h of
               (version, commit, date, go) \<Rightarrow>
                 ([(Stdout, [line ''p6e %s (commit %s, built %s, %s)''
                     [AStr version, AStr commit, AStr date, AStr go]])], exitOK))
          else if verb = ''run'' then
            (case splitRunArgs rest of
               (files, opts, inputs, unknown) \<Rightarrow>
                 if unknown \<noteq> '''' then usage_error ''unknown option %q'' [AStr unknown]
                 else withFile (verb # files) (\<lambda>path. runCommand tt reg h path opts inputs))
          else if verb = ''nodes'' then
            (map (\<lambda>name. (Stdout, [line ''%s'' [AStr name]])) (Names (nodes_of reg)), exitOK)
          else if verb = ''-h'' \<or> verb = ''--help'' \<or> verb = ''help'' then ([(Stdout, [Usage])], exitOK)
          else usage_error ''unknown command %q'' [AStr verb])"

end
