(* ===== verification/Cli_Facts.thy ===== *)
theory Cli_Facts
  imports Cli
begin

text \<open>
  What the command line guarantees: the language its arguments are written in, the typed
  inputs it builds, what each exit code means, and that checking a directory agrees with
  checking its files one by one.
\<close>

section \<open>The arguments of run\<close>

datatype run_arg = FileArg string | DetectArg | InlineArg | InputArg string | InputEqArg string

fun render_arg :: "run_arg \<Rightarrow> string list" where
  "render_arg (FileArg f) = [f]"
| "render_arg DetectArg = [''--detect-mutation'']"
| "render_arg InlineArg = [''--inline'']"
| "render_arg (InputArg a) = [''--input'', a]"
| "render_arg (InputEqArg a) = [''--input='' @ a]"

fun run_arg_ok :: "run_arg \<Rightarrow> bool" where
  "run_arg_ok (FileArg f) \<longleftrightarrow> \<not> HasPrefix f ''-''"
| "run_arg_ok _ \<longleftrightarrow> True"

fun file_of :: "run_arg \<Rightarrow> string list" where
  "file_of (FileArg f) = [f]"
| "file_of _ = []"

fun input_of :: "run_arg \<Rightarrow> string list" where
  "input_of (InputArg a) = [a]"
| "input_of (InputEqArg a) = [a]"
| "input_of _ = []"

definition run_flags :: "run_arg list \<Rightarrow> Options \<Rightarrow> Options" where
  "run_flags items opts =
     opts\<lparr>op_DetectMutation := op_DetectMutation opts \<or> DetectArg \<in> set items,
          op_InlineSoloSteps := op_InlineSoloSteps opts \<or> InlineArg \<in> set items\<rparr>"

lemma run_flags_simps [simp]:
  "run_flags [] opts = opts"
  "run_flags (DetectArg # items) opts = run_flags items (opts\<lparr>op_DetectMutation := True\<rparr>)"
  "run_flags (InlineArg # items) opts = run_flags items (opts\<lparr>op_InlineSoloSteps := True\<rparr>)"
  "run_flags (FileArg f # items) opts = run_flags items opts"
  "run_flags (InputArg a # items) opts = run_flags items opts"
  "run_flags (InputEqArg a # items) opts = run_flags items opts"
  by (simp_all add: run_flags_def)

lemma HasPrefix_simps [simp]:
  "HasPrefix s []" "\<not> HasPrefix [] (c # p)" "HasPrefix (x # s) (c # p) \<longleftrightarrow> x = c \<and> HasPrefix s p"
  by (simp_all add: HasPrefix_def)

lemma HasPrefix_Cons: "HasPrefix s (c # p) \<longleftrightarrow> (\<exists>s'. s = c # s' \<and> HasPrefix s' p)"
  by (cases s) auto

lemma split_run_render:
  "list_all run_arg_ok items \<Longrightarrow> split_run (concat (map render_arg items)) files opts inputs =
     (files @ concat (map file_of items), run_flags items opts, inputs @ concat (map input_of items), '''')"
proof (induction items arbitrary: files opts inputs)
  case Nil
  then show ?case by simp
next
  case (Cons a items)
  then show ?case by (cases a) (auto simp: HasPrefix_Cons)
qed

lemma split_run_parse:
  "split_run args files opts inputs = (fs, os, ins, '''') \<Longrightarrow>
     \<exists>items. list_all run_arg_ok items \<and> args = concat (map render_arg items)"
proof (induction args files opts inputs rule: split_run.induct)
  case (1 files opts inputs)
  then show ?case by (intro exI [of _ "[]"]) simp
next
  case (2 arg rest files opts inputs)
  have extend: "\<exists>items. list_all run_arg_ok items \<and> arg # rest = concat (map render_arg items)"
    if "run_arg_ok a" "arg # rest = render_arg a @ rest'"
      "\<exists>items. list_all run_arg_ok items \<and> rest' = concat (map render_arg items)" for a rest'
  proof -
    from that(3) obtain items where "list_all run_arg_ok items" "rest' = concat (map render_arg items)" by blast
    with that(1,2) show ?thesis by (intro exI [of _ "a # items"]) simp
  qed
  consider (detect) "arg = ''--detect-mutation''" | (inline) "arg = ''--inline''" | (input) "arg = ''--input''"
    | (other) "arg \<noteq> ''--detect-mutation''" "arg \<noteq> ''--inline''" "arg \<noteq> ''--input''" by blast
  then show ?case
  proof cases
    case detect
    with 2 show ?thesis by (intro extend [of DetectArg rest]) simp_all
  next
    case inline
    with 2 show ?thesis by (intro extend [of InlineArg rest]) simp_all
  next
    case input
    with 2(6) obtain given rest' where rest: "rest = given # rest'" by (auto split: list.splits)
    with 2(3,6) input show ?thesis by (intro extend [of "InputArg given" rest']) simp_all
  next
    case other
    show ?thesis
    proof (cases "HasPrefix arg ''--input=''")
      case True
      then have "arg = ''--input='' @ drop (length ''--input='') arg"
        unfolding HasPrefix_def by (metis append_take_drop_id)
      with True other 2(4,6) show ?thesis
        by (intro extend [of "InputEqArg (drop (length ''--input='') arg)" rest]) simp_all
    next
      case False
      with other 2(6) have "\<not> HasPrefix arg ''-''" by (auto simp: HasPrefix_Cons split: if_splits)
      with False other 2(5,6) show ?thesis by (intro extend [of "FileArg arg" rest]) simp_all
    qed
  qed
qed

theorem splitRunArgs_iff:
  "splitRunArgs args = (files, opts, inputs, '''') \<longleftrightarrow>
     (\<exists>items. list_all run_arg_ok items \<and> args = concat (map render_arg items) \<and>
        files = concat (map file_of items) \<and> inputs = concat (map input_of items) \<and>
        opts = run_flags items zero_options)"
proof
  assume s: "splitRunArgs args = (files, opts, inputs, '''')"
  then obtain items where items: "list_all run_arg_ok items" "args = concat (map render_arg items)"
    unfolding splitRunArgs_def by (auto dest: split_run_parse)
  with s split_run_render [OF items(1), of "[]" zero_options "[]"] show "\<exists>items. list_all run_arg_ok items \<and>
      args = concat (map render_arg items) \<and> files = concat (map file_of items) \<and>
      inputs = concat (map input_of items) \<and> opts = run_flags items zero_options"
    unfolding splitRunArgs_def by auto
next
  assume "\<exists>items. list_all run_arg_ok items \<and> args = concat (map render_arg items) \<and>
        files = concat (map file_of items) \<and> inputs = concat (map input_of items) \<and>
        opts = run_flags items zero_options"
  then show "splitRunArgs args = (files, opts, inputs, '''')"
    using split_run_render [where files = "[]" and opts = zero_options and inputs = "[]"]
    by (auto simp: splitRunArgs_def)
qed

section \<open>Inputs\<close>

lemma list_all2_right: "list_all2 P xs ys \<Longrightarrow> y \<in> set ys \<Longrightarrow> \<exists>x\<in>set xs. P x y"
  by (induction rule: list_all2_induct) auto

lemma list_all2_left: "list_all2 P xs ys \<Longrightarrow> x \<in> set xs \<Longrightarrow> \<exists>y\<in>set ys. P x y"
  by (induction rule: list_all2_induct) auto

text \<open>What an assignment denotes: a declared name, its type, and the value its text denotes there.\<close>

definition assigns ::
  "type_table \<Rightarrow> (string \<Rightarrow> instant option) \<Rightarrow> (string \<Rightarrow> go_error + bytes) \<Rightarrow> TypeID gomap \<Rightarrow> string \<Rightarrow>
   string \<Rightarrow> Value \<Rightarrow> bool" where
  "assigns tt parseTime readFile declared a name v \<longleftrightarrow>
     (\<exists>literal ty text. Cut a CHR ''='' = Some (name, literal) \<and> map_of declared name = Some ty \<and>
        read_literal readFile literal = Inr text \<and> convertInput tt parseTime ty text = Inr v)"

lemma build_input_Inr:
  "build_input tt parseTime readFile declared names a vs = Inr vs' \<longleftrightarrow>
     (\<exists>name v. assigns tt parseTime readFile declared a name v \<and> map_of vs name = None \<and> vs' = put name v vs)"
  by (auto simp: build_input_def assigns_def split: option.splits sum.splits prod.splits if_splits)

lemma build_inputs_Inr:
  "build_inputs (build_input tt parseTime readFile declared names) as vs = Inr vs' \<Longrightarrow>
     \<exists>ns. list_all2 (\<lambda>a (name, v). assigns tt parseTime readFile declared a name v) as ns \<and>
       distinct (map fst ns) \<and> fst ` set ns \<inter> dom (map_of vs) = {} \<and> map_of vs' = map_of vs ++ map_of ns"
proof (induction as arbitrary: vs)
  case Nil
  then show ?case by (intro exI [of _ "[]"]) simp
next
  case (Cons a as)
  from Cons.prems obtain vs1 where
    b: "build_input tt parseTime readFile declared names a vs = Inr vs1"
      "build_inputs (build_input tt parseTime readFile declared names) as vs1 = Inr vs'"
    by (auto split: sum.splits)
  from b(1) obtain name v where
    n: "assigns tt parseTime readFile declared a name v" "map_of vs name = None" "vs1 = put name v vs"
    unfolding build_input_Inr by blast
  from Cons.IH [OF b(2)] obtain ns where
    ns: "list_all2 (\<lambda>a (name, v). assigns tt parseTime readFile declared a name v) as ns" "distinct (map fst ns)"
      "fst ` set ns \<inter> dom (map_of vs1) = {}" "map_of vs' = map_of vs1 ++ map_of ns"
    by blast
  have fresh: "name \<notin> fst ` set ns" using ns(3) n(3) by auto
  then have "map_of ns name = None" by (simp add: map_of_eq_None_iff)
  then have "map_of vs' = map_of vs ++ map_of ((name, v) # ns)"
    unfolding ns(4) n(3) by (auto simp: fun_eq_iff map_add_def split: option.splits)
  moreover have "fst ` set ((name, v) # ns) \<inter> dom (map_of vs) = {}" using ns(3) n(2,3) by auto
  moreover have "distinct (map fst ((name, v) # ns))" using ns(2) fresh by simp
  moreover have "list_all2 (\<lambda>a (name, v). assigns tt parseTime readFile declared a name v) (a # as) ((name, v) # ns)"
    using n(1) ns(1) by simp
  ultimately show ?case by blast
qed

lemma convertInput_typed:
  assumes "convertInput domain_table parseTime ty text = Inr v"
  shows "v_typ v = ty \<and> (\<exists>t. registered domain_table t \<and> fits domain_table t v)"
proof -
  have fit: "fits domain_table (dyn_type p) (NewValue domain_table p)" if "proper p" for p
    using that by (simp add: fits_def NewValue_def)
  have reg: "registered domain_table t" if "t \<in> fst ` set domain_types" for t
    using has_domain_table that unfolding has_domain_def by blast
  have "\<exists>p. v = NewValue domain_table p \<and> TypeOf domain_table (dyn_type p) = ty \<and> proper p \<and>
      dyn_type p \<in> fst ` set domain_types"
    using assms unfolding convertInput_def
    by (auto simp: domain_types_def split: if_splits option.splits sum.splits)
  then show ?thesis using fit reg by (auto simp: NewValue_def)
qed

lemma fold_declared:
  "distinct (map pi_Name inps) \<Longrightarrow> set (map pi_Name inps) \<inter> dom (map_of m) = {} \<Longrightarrow>
   map_of (fold (\<lambda>inp m. put (pi_Name inp) (pi_Type inp) m) inps m) name = Some ty \<longleftrightarrow>
     map_of m name = Some ty \<or> (\<exists>inp\<in>set inps. pi_Name inp = name \<and> pi_Type inp = ty)"
proof (induction inps arbitrary: m)
  case Nil
  then show ?case by simp
next
  case (Cons inp inps)
  then have "set (map pi_Name inps) \<inter> dom (map_of (put (pi_Name inp) (pi_Type inp) m)) = {}" by auto
  with Cons show ?case by (auto split: if_splits)
qed

lemma plan_input_names: "plan_wf p \<Longrightarrow> distinct (map pi_Name (p_Inputs p))"
proof -
  assume wf: "plan_wf p"
  then have "map pi_Name (p_Inputs p) = take (length (p_Inputs p)) (map cs_ID (p_Steps p))"
    by (intro nth_equalityI) (auto simp: plan_wf_def Plan_Len_def)
  with wf show ?thesis by (simp add: plan_wf_def)
qed

theorem buildInputs_typed:
  assumes "plan_wf p" "buildInputs domain_table parseTime readFile p assignments = Inr vs"
  shows "good_values domain_table vs \<and>
    (\<forall>name v. map_of vs name = Some v \<longrightarrow>
       (\<exists>inp\<in>set (p_Inputs p). pi_Name inp = name \<and> v_typ v = pi_Type inp \<and>
          rv_Err (supply_input vs inp) = None \<and> rv_Value (supply_input vs inp) = v)) \<and>
    (\<forall>a\<in>set assignments. \<exists>literal. \<exists>name\<in>dom (map_of vs). Cut a CHR ''='' = Some (name, literal)) \<and>
    card (dom (map_of vs)) = length assignments"
proof -
  let ?d = "fold (\<lambda>inp m. put (pi_Name inp) (pi_Type inp) m) (p_Inputs p) []"
  obtain ns where ns: "list_all2 (\<lambda>a (name, v). assigns domain_table parseTime readFile ?d a name v) assignments ns"
      "distinct (map fst ns)" "map_of vs = map_of ns"
    using build_inputs_Inr [OF assms(2) [unfolded buildInputs_def Let_def]] by auto
  have decl: "map_of ?d name = Some ty \<longleftrightarrow> (\<exists>inp\<in>set (p_Inputs p). pi_Name inp = name \<and> pi_Type inp = ty)" for name ty
    using fold_declared [OF plan_input_names [OF assms(1)], of "[]"] by simp
  have elem: "\<exists>a. assigns domain_table parseTime readFile ?d a name v" if "map_of vs name = Some v" for name v
  proof -
    have "(name, v) \<in> set ns" using that ns(3) by (simp add: map_of_SomeD)
    from list_all2_right [OF ns(1) this] show ?thesis by auto
  qed
  have typed: "v_typ v = ty \<and> (\<exists>t. registered domain_table t \<and> fits domain_table t v)"
    if "assigns domain_table parseTime readFile ?d a name v" "map_of ?d name = Some ty" for a name v ty
    using that convertInput_typed by (auto simp: assigns_def)
  have declared: "\<exists>ty. map_of ?d name = Some ty" if "assigns domain_table parseTime readFile ?d a name v" for a name v
    using that by (auto simp: assigns_def)
  have "good_values domain_table vs"
    unfolding good_values_def using elem typed declared by blast
  moreover have "\<exists>inp\<in>set (p_Inputs p). pi_Name inp = name \<and> v_typ v = pi_Type inp \<and>
      rv_Err (supply_input vs inp) = None \<and> rv_Value (supply_input vs inp) = v" if nv: "map_of vs name = Some v" for name v
  proof -
    from elem [OF nv] obtain a ty where a: "assigns domain_table parseTime readFile ?d a name v" "map_of ?d name = Some ty"
      using declared by blast
    then obtain inp where inp: "inp \<in> set (p_Inputs p)" "pi_Name inp = name" "pi_Type inp = ty" using decl by auto
    with typed [OF a] nv show ?thesis by (intro bexI [of _ inp]) (simp_all add: supply_input_def)
  qed
  moreover have "\<exists>literal. \<exists>name\<in>dom (map_of vs). Cut a CHR ''='' = Some (name, literal)" if "a \<in> set assignments" for a
  proof -
    from list_all2_left [OF ns(1) that] obtain name v where
      nv: "assigns domain_table parseTime readFile ?d a name v" "(name, v) \<in> set ns" by auto
    then have "name \<in> dom (map_of vs)" unfolding ns(3) by (metis domI map_of_is_SomeI ns(2))
    with nv(1) show ?thesis unfolding assigns_def by blast
  qed
  moreover have "card (dom (map_of vs)) = length assignments"
    using ns by (simp add: dom_map_of_conv_image_fst list_all2_lengthD distinct_card flip: set_map)
  ultimately show ?thesis by blast
qed

section \<open>Exit codes\<close>

lemmas exit_codes = exitOK_def exitFailure_def exitUsage_def

lemma cli_compile_Inr:
  "cli_compile tt reg h path = Inr p \<longleftrightarrow>
     (\<exists>f. pipeline_ParseFile (ho_Decode h) (ho_Open h) path = Inr f \<and> Compile tt f reg (nameOf path) = Inr p)"
  by (auto simp: cli_compile_def split: sum.splits)

lemma cli_compile_Inl: "cli_compile tt reg h path = Inl (out, code) \<Longrightarrow> code = exitFailure"
  by (auto simp: cli_compile_def split: sum.splits)

lemma checkCommand_ok: "snd (checkCommand tt reg h path) = exitOK \<longleftrightarrow> (\<exists>p. cli_compile tt reg h path = Inr p)"
proof (cases "cli_compile tt reg h path")
  case (Inl stop)
  then show ?thesis using cli_compile_Inl [of tt reg h path "fst stop" "snd stop"]
    by (simp add: checkCommand_def exit_codes)
next
  case (Inr p)
  then show ?thesis by (simp add: checkCommand_def Let_def)
qed

text \<open>
  \<open>runtime.Run\<close> as the host's execution of a plan: it returns the execution of some finished
  run of the coordinator on that plan and those options.
\<close>

definition finished_run :: "'w ExecutionPlan \<Rightarrow> Options \<Rightarrow> 'w Execution \<Rightarrow> bool" where
  "finished_run p opts ex \<longleftrightarrow>
     (\<exists>env fresh s. en_others env \<le> en_cap env \<and> reachable (\<lambda>s. s = Run_start env fresh p opts) sched_step s \<and>
        s_pc s = Returned \<and> ex = s_ex s)"

definition runs_plans :: "('c, 'w) host \<Rightarrow> bool" where
  "runs_plans h \<longleftrightarrow> (\<forall>p opts. plan_wf p \<and> \<not> op_Slots opts \<longrightarrow> finished_run p opts (ho_Run h p opts))"

text \<open>Every well-formed plan has such a run, whatever its options.\<close>

lemma finished_run_exists:
  assumes "plan_wf p" "\<not> op_Slots opts"
  shows "\<exists>ex. finished_run p opts ex"
proof -
  define env :: environment where "env = \<lparr>en_cap = 1, en_others = 0, en_ctx_done = False, en_render = (\<lambda>_. '''')\<rparr>"
  let ?s = "Run_start env '''' p opts"
  have "starts_run p ?s" using assms unfolding starts_run_def
    by (intro conjI exI [of _ env] exI [of _ "''''"] exI [of _ opts]) (simp_all add: env_def)
  then have "run_inv p ?s" by (rule starts_run_inv)
  then obtain es t where "run_events sched_step es ?s = Some t" "s_pc t = Returned"
    using run_completes assms(1) by blast
  moreover have "reachable (\<lambda>s. s = ?s) sched_step ?s" by (rule reachable.reachable_init) simp
  ultimately have "finished_run p opts (s_ex t)"
    unfolding finished_run_def using run_events_reachable
    by (intro exI [of _ env] exI [of _ "''''"] exI [of _ t]) (auto simp: env_def)
  then show ?thesis by blast
qed

lemma reachable_weaken: "reachable P step s \<Longrightarrow> (\<And>s. P s \<Longrightarrow> Q s) \<Longrightarrow> reachable Q step s"
  by (induction rule: reachable.induct) (auto intro: reachable.intros)

lemma run_flags_slots: "op_Slots (run_flags items opts) = op_Slots opts"
  by (simp add: run_flags_def)

lemma run_executes:
  assumes "good_types tt" "sound_nodes tt (nodes_of reg)" "valid_file f" "Compile tt f reg name = Inr p"
    and "runs_plans h" "good_values tt (op_Inputs opts)" "\<not> op_Slots opts"
  shows "\<exists>ty. plan_typed tt p ty \<and> outcome_ok p (ho_Run h p opts) \<and>
    (\<forall>i<nsteps p. sr_State (ex_Steps (ho_Run h p opts) ! i) = StateSucceeded \<longrightarrow>
       fits tt (ty i) (sr_Value (ex_Steps (ho_Run h p opts) ! i)))"
proof -
  from Compile_typed [OF assms(4,1,2)] obtain ty where ty: "plan_typed tt p ty" by blast
  have wf: "plan_wf p" using Compile_plan_wf [OF assms(3,4)] .
  have tp: "typed_plan tt ty p" using ty wf assms(1) by (simp add: typed_plan_def good_types_def)
  obtain env fresh s where s: "en_others env \<le> en_cap env" "reachable (\<lambda>s. s = Run_start env fresh p opts) sched_step s"
      "s_pc s = Returned" "ho_Run h p opts = s_ex s"
    using assms(5,7) wf unfolding runs_plans_def finished_run_def by blast
  have "reachable (\<lambda>s. typed_plan tt ty p \<and> starts_typed tt p s) sched_step s"
    by (rule reachable_weaken [OF s(2)]) (use tp wf s(1) assms(6,7) in \<open>auto simp: starts_typed_def\<close>)
  from typed_runs.reachable_inv [OF this] have "run_inv p s" "typed_inv tt ty p s" by blast+
  with s(3,4) ty show ?thesis by (intro exI [of _ ty]) (auto simp: run_inv_def typed_inv_def)
qed

section \<open>Checking a directory\<close>

lemma load_entry_rejects:
  assumes "Base (ho_Join h dir (de_Name e)) = de_Name e"
  shows "(\<exists>r. load_entry tt reg (ho_Join h dir) (pipeline_ParseFile (ho_Decode h) (ho_Open h)) e = Rejects r) \<longleftrightarrow>
    snd (checkCommand tt reg h (ho_Join h dir (de_Name e))) \<noteq> exitOK"
proof -
  have "nameOf (ho_Join h dir (de_Name e)) = TrimSuffix (de_Name e) (Ext (de_Name e))"
    using assms by (simp add: nameOf_def Let_def)
  then show ?thesis
    unfolding checkCommand_ok cli_compile_Inr
    by (auto simp: load_entry_def Let_def split: sum.splits option.splits)
qed

theorem check_dir_iff:
  assumes "ho_ReadDir h dir = Inr es" "\<forall>e\<in>set es. Base (ho_Join h dir (de_Name e)) = de_Name e"
    and "cs = load_candidates tt reg (ho_Join h dir) (pipeline_ParseFile (ho_Decode h) (ho_Open h)) es"
    and "claim_order (ho_ClaimOrder h dir) cs"
  shows "snd (checkDirCommand tt reg h dir) = exitOK \<longleftrightarrow>
    (\<forall>e\<in>set es. is_pipeline_entry e \<longrightarrow> snd (checkCommand tt reg h (ho_Join h dir (de_Name e))) = exitOK) \<and>
    (\<forall>p\<in>set cs. \<not> contested cs p)"
proof -
  let ?entry = "load_entry tt reg (ho_Join h dir) (pipeline_ParseFile (ho_Decode h) (ho_Open h))"
  obtain ld where ld: "load_dir tt reg h dir = Inr ld"
    by (simp add: load_dir_def Load_def assms(1) Let_def case_prod_beta)
  have L: "Load tt reg (ho_Join h dir) (pipeline_ParseFile (ho_Decode h) (ho_Open h)) (ho_ClaimOrder h dir) (Inr es) = Inr ld"
    using ld by (simp add: load_dir_def assms(1))
  have "snd (checkDirCommand tt reg h dir) = exitOK \<longleftrightarrow> set (ld_Rejected ld) = {}"
    by (simp add: checkDirCommand_def ld exit_codes)
  also have "\<dots> \<longleftrightarrow> {r. \<exists>e\<in>set es. is_pipeline_entry e \<and> ?entry e = Rejects r} = {} \<and> {p \<in> set cs. contested cs p} = {}"
    unfolding Load_Inr(2) [OF L] set_collisions [OF assms(4) [unfolded assms(3)]] assms(3) by blast
  also have "\<dots> \<longleftrightarrow> (\<forall>e\<in>set es. is_pipeline_entry e \<longrightarrow> \<not> (\<exists>r. ?entry e = Rejects r)) \<and> (\<forall>p\<in>set cs. \<not> contested cs p)"
    by blast
  also have "\<dots> \<longleftrightarrow> (\<forall>e\<in>set es. is_pipeline_entry e \<longrightarrow> snd (checkCommand tt reg h (ho_Join h dir (de_Name e))) = exitOK) \<and>
      (\<forall>p\<in>set cs. \<not> contested cs p)"
    using load_entry_rejects [of h dir] assms(2) by blast
  finally show ?thesis .
qed

section \<open>What a successful run means\<close>

lemma registries_sound:
  assumes "registries domain_table L hmac dw ds = Inr reg"
  shows "sound_nodes domain_table (nodes_of reg)" "set (Names (nodes_of reg)) = set builtin_names"
proof -
  obtain R where R: "node_Registry domain_table L = Inr R" using node_Registry_total by blast
  with assms have "nodes_of reg = R" by (auto simp: registries_def nodes_of_def split: sum.splits)
  with node_Registry_sound [OF has_domain_table R] node_Registry_names [OF R]
  show "sound_nodes domain_table (nodes_of reg)" "set (Names (nodes_of reg)) = set builtin_names" by simp_all
qed

lemma report_end_ok:
  "\<not> Execution_Failed ex \<Longrightarrow> length (ex_Mutations ex) = 0 \<Longrightarrow>
   report_end ex = (Stdout, [line (nl @ ''ok: %d steps'') [AInt (int (length (ex_Steps ex)))]])"
  by (simp add: report_end_def Execution_Failed_def)

lemma withFile_code:
  "snd (withFile (verb # files) fn) \<noteq> exitUsage \<Longrightarrow>
     \<exists>path. files = [path] \<and> withFile (verb # files) fn = fn path"
  by (auto simp: withFile_def split: list.splits)

lemma runCommand_code: "snd (runCommand tt reg h path opts assignments) \<in> {exitOK, exitFailure, exitUsage}"
proof (cases "cli_compile tt reg h path")
  case (Inl stop)
  then show ?thesis using cli_compile_Inl [of tt reg h path "fst stop" "snd stop"] by (simp add: runCommand_def)
next
  case (Inr p)
  then show ?thesis by (auto simp: runCommand_def Let_def split: sum.split)
qed

lemma run_verb:
  "cli_run tt reg h (''run'' # args) =
     (case splitRunArgs args of
        (files, opts, inputs, unknown) \<Rightarrow>
          if unknown \<noteq> '''' then usage_error ''unknown option %q'' [AStr unknown]
          else withFile (''run'' # files) (\<lambda>path. runCommand tt reg h path opts inputs))"
  by (simp add: cli_run_def)

lemma run_exits_ok:
  assumes "snd (cli_run tt reg h (''run'' # args)) = exitOK"
  obtains path opts assignments p inputs where
    "splitRunArgs args = ([path], opts, assignments, '''')" "cli_compile tt reg h path = Inr p"
    "buildInputs tt (ho_ParseTime h) (ho_ReadFile h) p assignments = Inr inputs"
    "\<not> Execution_Failed (ho_Run h p (opts\<lparr>op_Inputs := inputs\<rparr>))"
    "ex_Mutations (ho_Run h p (opts\<lparr>op_Inputs := inputs\<rparr>)) = []"
    "fst (cli_run tt reg h (''run'' # args)) = report (ho_Run h p (opts\<lparr>op_Inputs := inputs\<rparr>))"
proof -
  obtain files opts assignments unknown where s: "splitRunArgs args = (files, opts, assignments, unknown)"
    by (metis prod_cases4)
  have u: "unknown = ''''" using assms s by (auto simp: run_verb usage_error_def exit_codes split: if_splits)
  then have run: "cli_run tt reg h (''run'' # args) =
      withFile (''run'' # files) (\<lambda>path. runCommand tt reg h path opts assignments)"
    using s by (simp add: run_verb)
  then obtain path where path: "files = [path]" "cli_run tt reg h (''run'' # args) = runCommand tt reg h path opts assignments"
    using assms withFile_code [of "''run''" files "\<lambda>path. runCommand tt reg h path opts assignments"] run
    by (auto simp: exit_codes)
  have ok: "snd (runCommand tt reg h path opts assignments) = exitOK" using assms path(2) by simp
  show thesis
  proof (cases "cli_compile tt reg h path")
    case (Inl stop)
    then have "snd stop = exitFailure" using cli_compile_Inl [of tt reg h path "fst stop" "snd stop"] by simp
    with ok Inl show thesis by (simp add: runCommand_def exit_codes)
  next
    case (Inr p)
    with ok obtain inputs where "buildInputs tt (ho_ParseTime h) (ho_ReadFile h) p assignments = Inr inputs"
      by (auto simp: runCommand_def exit_codes split: sum.splits)
    with ok Inr path s u show thesis
      by (intro that [of path opts assignments p inputs])
        (auto simp: runCommand_def exit_codes Let_def split: if_splits)
  qed
qed

lemma splitRunArgs_slots: "splitRunArgs args = (files, opts, inputs, '''') \<Longrightarrow> \<not> op_Slots opts"
  unfolding splitRunArgs_iff by (auto simp: run_flags_slots zero_options_def)

lemma run_command_ok:
  assumes reg: "registries domain_table L hmac dw ds = Inr reg" and host: "runs_plans h"
    and ok: "snd (cli_run domain_table reg h (''run'' # args)) = exitOK"
  shows "\<exists>path opts assignments f p inputs ty ex.
    splitRunArgs args = ([path], opts, assignments, '''') \<and>
    pipeline_ParseFile (ho_Decode h) (ho_Open h) path = Inr f \<and> Compile domain_table f reg (nameOf path) = Inr p \<and>
    buildInputs domain_table (ho_ParseTime h) (ho_ReadFile h) p assignments = Inr inputs \<and>
    ex = ho_Run h p (opts\<lparr>op_Inputs := inputs\<rparr>) \<and> plan_typed domain_table p ty \<and>
    length (ex_Steps ex) = nsteps p \<and> ex_Mutations ex = [] \<and> ex_Abandoned ex = 0 \<and>
    (\<forall>i<nsteps p. sr_State (ex_Steps ex ! i) = StateSucceeded \<and> fits domain_table (ty i) (sr_Value (ex_Steps ex ! i))) \<and>
    last (fst (cli_run domain_table reg h (''run'' # args))) =
      (Stdout, [line (nl @ ''ok: %d steps'') [AInt (int (nsteps p))]])"
proof -
  obtain path opts assignments p inputs where r:
    "splitRunArgs args = ([path], opts, assignments, '''')" "cli_compile domain_table reg h path = Inr p"
    "buildInputs domain_table (ho_ParseTime h) (ho_ReadFile h) p assignments = Inr inputs"
    "\<not> Execution_Failed (ho_Run h p (opts\<lparr>op_Inputs := inputs\<rparr>))"
    "ex_Mutations (ho_Run h p (opts\<lparr>op_Inputs := inputs\<rparr>)) = []"
    "fst (cli_run domain_table reg h (''run'' # args)) = report (ho_Run h p (opts\<lparr>op_Inputs := inputs\<rparr>))"
    by (rule run_exits_ok [OF ok])
  obtain f where f: "pipeline_ParseFile (ho_Decode h) (ho_Open h) path = Inr f" "Compile domain_table f reg (nameOf path) = Inr p"
    using r(2) unfolding cli_compile_Inr by blast
  have valid: "valid_file f" using f(1) by (rule ParseFile_valid)
  have good: "good_values domain_table inputs" using buildInputs_typed [OF Compile_plan_wf [OF valid f(2)] r(3)] by blast
  obtain ty where ty: "plan_typed domain_table p ty" "outcome_ok p (ho_Run h p (opts\<lparr>op_Inputs := inputs\<rparr>))"
      "\<forall>i<nsteps p. sr_State (ex_Steps (ho_Run h p (opts\<lparr>op_Inputs := inputs\<rparr>)) ! i) = StateSucceeded \<longrightarrow>
         fits domain_table (ty i) (sr_Value (ex_Steps (ho_Run h p (opts\<lparr>op_Inputs := inputs\<rparr>)) ! i))"
    using run_executes [OF domain_good registries_sound(1) [OF reg] valid f(2) host, of "opts\<lparr>op_Inputs := inputs\<rparr>"]
      good splitRunArgs_slots [OF r(1)] by auto
  show ?thesis
    using r(1,3,4,5) f ty
    by (intro exI [of _ path] exI [of _ opts] exI [of _ assignments] exI [of _ f] exI [of _ p] exI [of _ inputs]
        exI [of _ ty] exI [of _ "ho_Run h p (opts\<lparr>op_Inputs := inputs\<rparr>)"])
      (simp add: r(6) report_def report_end_ok outcome_ok_def)
qed

end
