(* ===== verification/Lifecycle.thy ===== *)
theory Lifecycle
  imports Serve
begin

text \<open>
  The life of a daemon (\<^verbatim>\<open>internal/daemon/daemon.go\<close>, \<open>Serve\<close>): the goroutines it starts,
  the select it waits in, and the order in which it shuts down, around the admission machine of
  \<open>Daemon\<close>. An event is one move of the coordinator, of a listener, of a server or of a call in
  progress; what a bounded wait took is carried by the event that ends it. The loop of a
  schedule (\<^verbatim>\<open>internal/trigger/schedule.go\<close>) is here as well.
\<close>

section \<open>The loop of a schedule\<close>

text \<open>What the select of \<open>Listen\<close> receives, in order; every tick spawns one call of \<open>fire\<close>.\<close>

datatype listen_event = Tick instant | ListenDone

fun schedule_Listen :: "type_table \<Rightarrow> listen_event list \<Rightarrow> Value gomap list" where
  "schedule_Listen tt [] = []"
| "schedule_Listen tt (ListenDone # es) = []"
| "schedule_Listen tt (Tick t # es) = schedule_tick tt t # schedule_Listen tt es"

section \<open>State\<close>

datatype serve_phase =
    PSelect | PStop | PShutServer | PListeners | PDrain | PWaitRuns | PShutAdmin | PReturned

text \<open>
  A server: not configured, inside \<open>ListenAndServe\<close>, told to shut down but not yet returned, or
  returned and reported.
\<close>

datatype server = SNone | SServing | SClosing | SReported

datatype serve_end = EndedNil | EndedClosed | EndedError go_error

definition listenAndServe :: "serve_end \<Rightarrow> string \<Rightarrow> go_error option" where
  "listenAndServe r what =
     (case r of EndedError err \<Rightarrow> Some (EWrap (Sprintf ''%s: %w'' [AStr what]) err) | _ \<Rightarrow> None)"

text \<open>
  \<open>sv_pending\<close> counts, per pipeline, the goroutines a trigger has started that have not called
  \<open>fire\<close> yet: a tick's, or the handler of an accepted request.
\<close>

record 'w serving =
  sv_phase :: serve_phase
  sv_ctx :: bool
  sv_cancelled :: bool
  sv_listening :: "bool list"
  sv_pending :: "nat list"
  sv_server :: server
  sv_admin :: server
  sv_errs :: "go_error option list"
  sv_failure :: "go_error option"
  sv_daemon :: "'w daemon_state"
  sv_waited :: int
  sv_gave_up :: bool

definition serve_begin :: "'w Daemon \<Rightarrow> go_error + 'w serving" where
  "serve_begin d =
     (if length (dm_pipelines d) = 0 then Inl (EFmt (Sprintf ''no pipelines to serve'' []))
      else Inr
        \<lparr>sv_phase = PSelect, sv_ctx = False, sv_cancelled = False,
         sv_listening = map (\<lambda>p. tr_SelfDriven (pipeline_Trigger p) \<noteq> None) (dm_pipelines d),
         sv_pending = map (\<lambda>_. 0) (dm_pipelines d),
         sv_server = (if length (dm_routes d) > 0 then SServing else SNone),
         sv_admin = (if dm_adminAddr d \<noteq> AdminDisabled then SServing else SNone),
         sv_errs = [], sv_failure = None, sv_daemon = daemon_start d, sv_waited = 0, sv_gave_up = False\<rparr>)"

section \<open>Steps\<close>

definition is_webhook :: "'w Daemon \<Rightarrow> nat \<Rightarrow> bool" where
  "is_webhook d i \<longleftrightarrow> tr_HTTPDriven (pipeline_Trigger (dm_pipelines d ! i)) \<noteq> None"

fun call_over :: "'w fire_pc \<Rightarrow> bool" where
  "call_over (F_Refused _) = True"
| "call_over (F_Returned _) = True"
| "call_over _ = False"

definition handlers_idle :: "'w Daemon \<Rightarrow> 'w serving \<Rightarrow> bool" where
  "handlers_idle d s \<longleftrightarrow>
     list_all (\<lambda>i. is_webhook d i \<longrightarrow> sv_pending s ! i = 0) [0..<length (dm_pipelines d)] \<and>
     list_all (\<lambda>(i, pc). is_webhook d i \<longrightarrow> call_over pc) (ds_fires (sv_daemon s))"

definition closing :: "server \<Rightarrow> server" where
  "closing x = (if x = SServing then SClosing else x)"

text \<open>How the coordinator leaves the point it waits at, and after how long.\<close>

datatype choice = ByCtx | ByErr | Completed int | TimedOut

text \<open>A wait of at most the drain timeout: what it adds to the time waited, and whether it gave up.\<close>

definition bounded_wait :: "'w Daemon \<Rightarrow> choice \<Rightarrow> (int \<times> bool) option" where
  "bounded_wait d c =
     (case c of
        Completed t \<Rightarrow> if 0 \<le> t \<and> t \<le> sint (dm_drain d) then Some (t, False) else None
      | TimedOut \<Rightarrow> Some (sint (dm_drain d), True)
      | _ \<Rightarrow> None)"

definition waits :: "int \<times> bool \<Rightarrow> 'w serving \<Rightarrow> 'w serving" where
  "waits w s = s\<lparr>sv_waited := sv_waited s + fst w, sv_gave_up := sv_gave_up s \<or> snd w\<rparr>"

definition serve_main :: "'w Daemon \<Rightarrow> choice \<Rightarrow> 'w serving \<Rightarrow> 'w serving option" where
  "serve_main d c s =
     (case sv_phase s of
        PSelect \<Rightarrow>
          (case c of
             ByCtx \<Rightarrow> if sv_ctx s then Some (s\<lparr>sv_phase := PStop\<rparr>) else None
           | ByErr \<Rightarrow>
               (case sv_errs s of
                  [] \<Rightarrow> None
                | e # es \<Rightarrow> Some (s\<lparr>sv_phase := PStop, sv_failure := e, sv_errs := es\<rparr>))
           | _ \<Rightarrow> None)
      | PStop \<Rightarrow> Some (s\<lparr>sv_phase := PShutServer, sv_cancelled := True, sv_server := closing (sv_server s)\<rparr>)
      | PShutServer \<Rightarrow>
          if sv_server s = SNone then Some (s\<lparr>sv_phase := PListeners\<rparr>)
          else
            (case bounded_wait d c of
               None \<Rightarrow> None
             | Some w \<Rightarrow>
                 if snd w \<or> handlers_idle d s then Some ((waits w s)\<lparr>sv_phase := PListeners\<rparr>) else None)
      | PListeners \<Rightarrow> if list_ex id (sv_listening s) then None else Some (s\<lparr>sv_phase := PDrain\<rparr>)
      | PDrain \<Rightarrow>
          (case daemon_step d SetsDraining (sv_daemon s) of
             None \<Rightarrow> None
           | Some ds \<Rightarrow> Some (s\<lparr>sv_phase := PWaitRuns, sv_daemon := ds\<rparr>))
      | PWaitRuns \<Rightarrow>
          (case bounded_wait d c of
             None \<Rightarrow> None
           | Some w \<Rightarrow>
               if snd w then Some ((waits w s)\<lparr>sv_phase := PShutAdmin, sv_admin := closing (sv_admin s)\<rparr>)
               else
                 (case daemon_step d WaitReturns (sv_daemon s) of
                    None \<Rightarrow> None
                  | Some ds \<Rightarrow>
                      Some ((waits w s)\<lparr>sv_phase := PShutAdmin, sv_admin := closing (sv_admin s), sv_daemon := ds\<rparr>)))
      | PShutAdmin \<Rightarrow>
          if sv_admin s = SNone then Some (s\<lparr>sv_phase := PReturned\<rparr>)
          else map_option (\<lambda>w. s\<lparr>sv_phase := PReturned, sv_waited := sv_waited s + fst w\<rparr>) (bounded_wait d c)
      | PReturned \<Rightarrow> None)"

datatype 'w serve_event =
    SE_CtxDone
  | SE_ListenReturns nat
  | SE_Spawns nat
  | SE_Drops nat
  | SE_Begins nat
  | SE_Moves nat "'w Execution"
  | SE_ServerEnds serve_end
  | SE_AdminEnds serve_end
  | SE_Main choice

text \<open>A server that returned sends its report on the channel, which has room for two.\<close>

definition reports :: "server \<Rightarrow> serve_end \<Rightarrow> bool" where
  "reports x r \<longleftrightarrow> x = SServing \<and> r \<noteq> EndedClosed \<or> x = SClosing"

definition serve_step :: "'w Daemon \<Rightarrow> 'w serve_event \<Rightarrow> 'w serving \<Rightarrow> 'w serving option" where
  "serve_step d e s =
     (case e of
        SE_CtxDone \<Rightarrow> if sv_ctx s then None else Some (s\<lparr>sv_ctx := True, sv_cancelled := True\<rparr>)
      | SE_ListenReturns i \<Rightarrow>
          if i < length (sv_listening s) \<and> sv_listening s ! i
          then Some (s\<lparr>sv_listening := (sv_listening s)[i := False]\<rparr>) else None
      | SE_Spawns i \<Rightarrow>
          if i < length (dm_pipelines d) \<and> (sv_listening s ! i \<or> is_webhook d i \<and> sv_server s = SServing)
          then Some (s\<lparr>sv_pending := (sv_pending s)[i := sv_pending s ! i + 1]\<rparr>) else None
      | SE_Drops i \<Rightarrow>
          if i < length (dm_pipelines d) \<and> is_webhook d i \<and> 0 < sv_pending s ! i
          then Some (s\<lparr>sv_pending := (sv_pending s)[i := sv_pending s ! i - 1]\<rparr>) else None
      | SE_Begins i \<Rightarrow>
          if i < length (dm_pipelines d) \<and> 0 < sv_pending s ! i
          then map_option (\<lambda>ds. s\<lparr>sv_pending := (sv_pending s)[i := sv_pending s ! i - 1], sv_daemon := ds\<rparr>)
                 (daemon_step d (Fires i) (sv_daemon s))
          else None
      | SE_Moves t ex \<Rightarrow> map_option (\<lambda>ds. s\<lparr>sv_daemon := ds\<rparr>) (daemon_step d (Advances t ex) (sv_daemon s))
      | SE_ServerEnds r \<Rightarrow>
          if reports (sv_server s) r \<and> length (sv_errs s) < 2
          then Some (s\<lparr>sv_server := SReported, sv_errs := sv_errs s @ [listenAndServe r ''webhook listener'']\<rparr>)
          else None
      | SE_AdminEnds r \<Rightarrow>
          if reports (sv_admin s) r \<and> length (sv_errs s) < 2
          then Some (s\<lparr>sv_admin := SReported, sv_errs := sv_errs s @ [listenAndServe r ''admin listener'']\<rparr>)
          else None
      | SE_Main c \<Rightarrow> serve_main d c s)"

section \<open>The invariant\<close>

fun senders :: "server \<Rightarrow> nat" where
  "senders SServing = 1"
| "senders SClosing = 1"
| "senders _ = 0"

fun waits_done :: "serve_phase \<Rightarrow> int" where
  "waits_done PSelect = 0"
| "waits_done PStop = 0"
| "waits_done PShutServer = 0"
| "waits_done PListeners = 1"
| "waits_done PDrain = 1"
| "waits_done PWaitRuns = 1"
| "waits_done PShutAdmin = 2"
| "waits_done PReturned = 3"

definition listener_error :: "go_error option \<Rightarrow> bool" where
  "listener_error e \<longleftrightarrow> (\<forall>err. e = Some err \<longrightarrow>
     (\<exists>what cause. what \<in> {''webhook listener'', ''admin listener''} \<and>
        err = EWrap (Sprintf ''%s: %w'' [AStr what]) cause))"

definition late :: "serve_phase \<Rightarrow> bool" where
  "late ph \<longleftrightarrow> ph \<in> {PWaitRuns, PShutAdmin, PReturned}"

definition serve_inv :: "'w Daemon \<Rightarrow> 'w serving \<Rightarrow> bool" where
  "serve_inv d s \<longleftrightarrow>
     reachable (starts_daemon d) (daemon_step d) (sv_daemon s) \<and>
     length (sv_errs s) + senders (sv_server s) + senders (sv_admin s) \<le> 2 \<and>
     (ds_draining (sv_daemon s) \<longleftrightarrow> late (sv_phase s)) \<and>
     (sv_phase s \<notin> {PSelect, PStop} \<longrightarrow> sv_cancelled s \<and> sv_server s \<noteq> SServing) \<and>
     (late (sv_phase s) \<or> sv_phase s = PDrain \<longrightarrow> \<not> list_ex id (sv_listening s)) \<and>
     (sv_admin s = SClosing \<longrightarrow> sv_phase s \<in> {PShutAdmin, PReturned}) \<and>
     listener_error (sv_failure s) \<and> list_all listener_error (sv_errs s) \<and>
     (sv_failure s \<noteq> None \<longrightarrow> sv_phase s \<noteq> PSelect) \<and>
     sv_waited s \<le> waits_done (sv_phase s) * sint (dm_drain d) \<and>
     (sv_phase s \<in> {PShutAdmin, PReturned} \<and> \<not> sv_gave_up s \<longrightarrow> ds_finished (sv_daemon s))"

lemma daemon_step_flags:
  assumes "daemon_step d e ds = Some ds'"
  shows "ds_draining ds' \<longleftrightarrow> ds_draining ds \<or> e = SetsDraining"
    "ds_finished ds' \<longleftrightarrow> ds_finished ds \<or> e = WaitReturns"
  using assms by (auto simp: daemon_step_def split: daemon_event.splits option.splits prod.splits if_splits)

lemma bounded_wait_le:
  "bounded_wait d c = Some w \<Longrightarrow> 0 \<le> sint (dm_drain d) \<Longrightarrow> fst w \<le> sint (dm_drain d)"
  by (auto simp: bounded_wait_def split: choice.splits if_splits)

lemma closing_simps [simp]:
  "senders (closing x) = senders x" "closing x = SServing \<longleftrightarrow> False"
  "closing x = SClosing \<longleftrightarrow> x = SServing \<or> x = SClosing" "closing x = SNone \<longleftrightarrow> x = SNone"
  by (cases x; simp add: closing_def)+

lemma waits_simps [simp]:
  "sv_phase (waits w s) = sv_phase s" "sv_cancelled (waits w s) = sv_cancelled s"
  "sv_listening (waits w s) = sv_listening s" "sv_server (waits w s) = sv_server s"
  "sv_admin (waits w s) = sv_admin s" "sv_errs (waits w s) = sv_errs s" "sv_failure (waits w s) = sv_failure s"
  "sv_daemon (waits w s) = sv_daemon s" "sv_waited (waits w s) = sv_waited s + fst w"
  "sv_gave_up (waits w s) \<longleftrightarrow> sv_gave_up s \<or> snd w"
  by (simp_all add: waits_def)

lemma listenAndServe_error [simp]:
  "listener_error (listenAndServe r ''webhook listener'')" "listener_error (listenAndServe r ''admin listener'')"
  "listener_error None"
  by (auto simp: listener_error_def listenAndServe_def split: serve_end.splits)

lemma list_ex_update_False: "\<not> list_ex id xs \<Longrightarrow> \<not> list_ex id (xs[i := False])"
  by (auto simp: list_ex_iff dest: set_update_subset_insert [THEN subsetD])

lemma serve_begin_inv: "serve_begin d = Inr s \<Longrightarrow> serve_inv d s"
  by (auto simp: serve_begin_def serve_inv_def late_def starts_daemon_def daemon_start_def
      intro: reachable.reachable_init split: if_splits)

lemma serve_main_inv:
  assumes inv: "serve_inv d s" and step: "serve_main d c s = Some t" and dr: "0 \<le> sint (dm_drain d)"
  shows "serve_inv d t"
proof (cases "sv_phase s")
  case PSelect
  with step show ?thesis
    using inv by (auto simp: serve_main_def serve_inv_def late_def split: choice.splits if_splits list.splits)
next
  case PStop
  with step inv show ?thesis by (auto simp: serve_main_def serve_inv_def late_def)
next
  case PShutServer
  show ?thesis
  proof (cases "sv_server s = SNone")
    case True
    with step inv PShutServer dr show ?thesis by (auto simp: serve_main_def serve_inv_def late_def)
  next
    case False
    with step PShutServer obtain w where w: "bounded_wait d c = Some w" "t = (waits w s)\<lparr>sv_phase := PListeners\<rparr>"
      by (auto simp: serve_main_def split: option.splits if_splits)
    with inv PShutServer bounded_wait_le [OF w(1) dr] show ?thesis by (auto simp: serve_inv_def late_def)
  qed
next
  case PListeners
  with step inv show ?thesis by (auto simp: serve_main_def serve_inv_def late_def split: if_splits)
next
  case PDrain
  with step obtain ds where "daemon_step d SetsDraining (sv_daemon s) = Some ds"
    "t = s\<lparr>sv_phase := PWaitRuns, sv_daemon := ds\<rparr>" by (auto simp: serve_main_def split: option.splits)
  with PDrain inv show ?thesis
    using daemon_step_flags [of d SetsDraining "sv_daemon s" ds]
    by (auto simp: serve_inv_def late_def intro: reachable.reachable_step)
next
  case PWaitRuns
  from step PWaitRuns obtain w where w: "bounded_wait d c = Some w"
    by (auto simp: serve_main_def split: option.splits)
  have le: "fst w \<le> sint (dm_drain d)" using bounded_wait_le [OF w dr] .
  show ?thesis
  proof (cases "snd w")
    case True
    with step PWaitRuns w inv le show ?thesis by (auto simp: serve_main_def serve_inv_def late_def)
  next
    case False
    with step PWaitRuns w obtain ds where "daemon_step d WaitReturns (sv_daemon s) = Some ds"
      "t = (waits w s)\<lparr>sv_phase := PShutAdmin, sv_admin := closing (sv_admin s), sv_daemon := ds\<rparr>"
      by (auto simp: serve_main_def split: option.splits)
    with PWaitRuns inv le show ?thesis
      using daemon_step_flags [of d WaitReturns "sv_daemon s" ds]
      by (auto simp: serve_inv_def late_def intro: reachable.reachable_step)
  qed
next
  case PShutAdmin
  show ?thesis
  proof (cases "sv_admin s = SNone")
    case True
    with step inv PShutAdmin dr show ?thesis by (auto simp: serve_main_def serve_inv_def late_def)
  next
    case False
    with step PShutAdmin obtain w where w: "bounded_wait d c = Some w"
      "t = s\<lparr>sv_phase := PReturned, sv_waited := sv_waited s + fst w\<rparr>"
      by (auto simp: serve_main_def)
    with inv PShutAdmin bounded_wait_le [OF w(1) dr] show ?thesis by (auto simp: serve_inv_def late_def)
  qed
next
  case PReturned
  with step show ?thesis by (simp add: serve_main_def)
qed

lemma serve_step_inv:
  assumes inv: "serve_inv d s" and step: "serve_step d e s = Some t" and dr: "0 \<le> sint (dm_drain d)"
  shows "serve_inv d t"
proof (cases e)
  case (SE_ListenReturns i)
  with step have "t = s\<lparr>sv_listening := (sv_listening s)[i := False]\<rparr>"
    by (simp add: serve_step_def split: if_splits)
  with inv list_ex_update_False [of "sv_listening s" i] show ?thesis by (simp add: serve_inv_def)
next
  case (SE_Begins i)
  with step obtain ds where "daemon_step d (Fires i) (sv_daemon s) = Some ds"
    "t = s\<lparr>sv_pending := (sv_pending s)[i := sv_pending s ! i - 1], sv_daemon := ds\<rparr>"
    by (auto simp: serve_step_def split: if_splits)
  with inv show ?thesis
    using daemon_step_flags [of d "Fires i" "sv_daemon s" ds]
    by (auto simp: serve_inv_def intro: reachable.reachable_step)
next
  case (SE_Moves k ex)
  with step obtain ds where "daemon_step d (Advances k ex) (sv_daemon s) = Some ds" "t = s\<lparr>sv_daemon := ds\<rparr>"
    by (auto simp: serve_step_def)
  with inv show ?thesis
    using daemon_step_flags [of d "Advances k ex" "sv_daemon s" ds]
    by (auto simp: serve_inv_def intro: reachable.reachable_step)
next
  case (SE_Main c)
  with step have "serve_main d c s = Some t" by (simp add: serve_step_def)
  with inv show ?thesis using dr by (rule serve_main_inv)
next
  case SE_CtxDone
  with step have "t = s\<lparr>sv_ctx := True, sv_cancelled := True\<rparr>" by (simp add: serve_step_def split: if_splits)
  with inv show ?thesis by (simp add: serve_inv_def)
next
  case (SE_Spawns i)
  with step have "t = s\<lparr>sv_pending := (sv_pending s)[i := sv_pending s ! i + 1]\<rparr>"
    by (simp add: serve_step_def split: if_splits)
  with inv show ?thesis by (simp add: serve_inv_def)
next
  case (SE_Drops i)
  with step have "t = s\<lparr>sv_pending := (sv_pending s)[i := sv_pending s ! i - 1]\<rparr>"
    by (simp add: serve_step_def split: if_splits)
  with inv show ?thesis by (simp add: serve_inv_def)
next
  case (SE_ServerEnds r)
  with step have "senders (sv_server s) = 1"
    "t = s\<lparr>sv_server := SReported, sv_errs := sv_errs s @ [listenAndServe r ''webhook listener'']\<rparr>"
    by (auto simp: serve_step_def reports_def split: if_splits)
  with inv show ?thesis by (simp add: serve_inv_def)
next
  case (SE_AdminEnds r)
  with step have "senders (sv_admin s) = 1"
    "t = s\<lparr>sv_admin := SReported, sv_errs := sv_errs s @ [listenAndServe r ''admin listener'']\<rparr>"
    by (auto simp: serve_step_def reports_def split: if_splits)
  with inv show ?thesis by (simp add: serve_inv_def)
qed

lemma New_drain: "0 < sint (dm_drain (New served opts))"
  by (simp add: New_def DefaultDrainTimeout_def)

interpretation servings: transition_system "\<lambda>s. serve_begin (New served opts) = Inr s" "serve_step (New served opts)"
  "serve_inv (New served opts)" for served :: "'w Pipeline list" and opts
proof unfold_locales
  fix s t :: "'w serving" and e
  show "serve_begin (New served opts) = Inr s \<Longrightarrow> serve_inv (New served opts) s" by (rule serve_begin_inv)
  show "serve_inv (New served opts) s \<Longrightarrow> serve_step (New served opts) e s = Some t \<Longrightarrow> serve_inv (New served opts) t"
    using serve_step_inv New_drain by (metis less_imp_le)
qed

section \<open>What a daemon's life guarantees\<close>

lemma serve_life:
  assumes "reachable (\<lambda>s. serve_begin (New served opts) = Inr s) (serve_step (New served opts)) s"
  shows "reachable (starts_daemon (New served opts)) (daemon_step (New served opts)) (sv_daemon s) \<and>
    (\<forall>r. reports (sv_server s) r \<or> reports (sv_admin s) r \<longrightarrow> length (sv_errs s) < 2) \<and>
    (ds_draining (sv_daemon s) \<longleftrightarrow> late (sv_phase s)) \<and>
    (late (sv_phase s) \<longrightarrow> sv_cancelled s \<and> sv_server s \<noteq> SServing \<and> \<not> list_ex id (sv_listening s)) \<and>
    (\<not> late (sv_phase s) \<or> sv_phase s = PWaitRuns \<longrightarrow> sv_admin s \<noteq> SClosing) \<and>
    listener_error (sv_failure s) \<and>
    sv_waited s \<le> 3 * sint (dm_drain (New served opts)) \<and>
    (sv_phase s = PReturned \<and> \<not> sv_gave_up s \<longrightarrow> (\<forall>(i, pc)\<in>set (ds_fires (sv_daemon s)). quiet pc))"
proof -
  let ?d = "New served opts"
  have inv: "serve_inv ?d s" using assms by (rule servings.reachable_inv)
  have drain: "0 < sint (dm_drain ?d)" by (rule New_drain)
  have parts: "sv_phase s \<notin> {PSelect, PStop} \<longrightarrow> sv_cancelled s \<and> sv_server s \<noteq> SServing"
    "late (sv_phase s) \<or> sv_phase s = PDrain \<longrightarrow> \<not> list_ex id (sv_listening s)"
    "sv_admin s = SClosing \<longrightarrow> sv_phase s \<in> {PShutAdmin, PReturned}"
    using inv unfolding serve_inv_def by blast+
  have sent: "reports x r \<Longrightarrow> senders x = 1" for x r by (auto simp: reports_def)
  have "sv_waited s \<le> waits_done (sv_phase s) * sint (dm_drain ?d)" using inv by (simp add: serve_inv_def)
  also have "\<dots> \<le> 3 * sint (dm_drain ?d)" using drain by (cases "sv_phase s") simp_all
  finally have "sv_waited s \<le> 3 * sint (dm_drain ?d)" .
  moreover have "\<forall>(i, pc)\<in>set (ds_fires (sv_daemon s)). quiet pc" if "sv_phase s = PReturned" "\<not> sv_gave_up s"
  proof -
    have "daemon_inv ?d (sv_daemon s)" "ds_finished (sv_daemon s)"
      using inv that by (auto simp: serve_inv_def intro: daemons.reachable_inv)
    then show ?thesis using finished_quiet by blast
  qed
  moreover have "length (sv_errs s) < 2" if "reports (sv_server s) r \<or> reports (sv_admin s) r" for r
  proof -
    have "1 \<le> senders (sv_server s) + senders (sv_admin s)"
      using that sent [of "sv_server s" r] sent [of "sv_admin s" r] by (elim disjE) simp_all
    moreover have "length (sv_errs s) + senders (sv_server s) + senders (sv_admin s) \<le> 2"
      using inv by (simp add: serve_inv_def)
    ultimately show ?thesis by linarith
  qed
  moreover have "sv_cancelled s \<and> sv_server s \<noteq> SServing \<and> \<not> list_ex id (sv_listening s)" if "late (sv_phase s)"
    using parts that by (auto simp: late_def)
  moreover have "sv_admin s \<noteq> SClosing" if "\<not> late (sv_phase s) \<or> sv_phase s = PWaitRuns"
    using parts that by (auto simp: late_def)
  moreover have "reachable (starts_daemon ?d) (daemon_step ?d) (sv_daemon s)"
      "ds_draining (sv_daemon s) \<longleftrightarrow> late (sv_phase s)" "listener_error (sv_failure s)"
    using inv unfolding serve_inv_def by blast+
  ultimately show ?thesis by blast
qed

text \<open>
  The order of closing: the webhook server stops accepting first, and only later, after the
  trigger loops have returned, does the daemon say it drains.
\<close>

lemma serve_closing_order:
  assumes "reachable (\<lambda>s. serve_begin (New served opts) = Inr s) (serve_step (New served opts)) s"
  shows "sv_phase s \<notin> {PSelect, PStop} \<longrightarrow> sv_cancelled s \<and> sv_server s \<noteq> SServing"
    and "readiness (New served opts) (sv_daemon s) = Some (Sprintf ''draining'' []) \<longleftrightarrow> late (sv_phase s)"
proof -
  have inv: "serve_inv (New served opts) s" using assms by (rule servings.reachable_inv)
  then show "sv_phase s \<notin> {PSelect, PStop} \<longrightarrow> sv_cancelled s \<and> sv_server s \<noteq> SServing"
    unfolding serve_inv_def by blast
  have "ds_draining (sv_daemon s) \<longleftrightarrow> late (sv_phase s)" using inv unfolding serve_inv_def by blast
  then show "readiness (New served opts) (sv_daemon s) = Some (Sprintf ''draining'' []) \<longleftrightarrow> late (sv_phase s)"
    by (simp add: readiness_def)
qed

end
