(* ===== verification/Shutdown.thy ===== *)
theory Shutdown
  imports Lifecycle
begin

text \<open>
  A daemon can always be stopped: from every state \<open>Serve\<close> can be in, some events make it
  return, whatever its triggers, its runs and its clients are doing. The calls that hold the read
  lock are the only ones the coordinator needs a move from, and they give it back by themselves.
\<close>

section \<open>The read lock is given back\<close>

fun lock_rank :: "'w fire_pc \<Rightarrow> int \<Rightarrow> nat" where
  "lock_rank F_Claim running = 5"
| "lock_rank (F_Swap r) running = (if r = running then 4 else 6)"
| "lock_rank F_Register running = 3"
| "lock_rank F_Count running = 2"
| "lock_rank _ running = 1"

lemma locked_step:
  assumes "locked pc"
  shows "\<exists>pc' p' dw di. fire_step p m dr ex pc s = Some (pc', p', dw, di) \<and>
    (locked pc' \<longrightarrow> lock_rank pc' (ps_inflight p') < lock_rank pc (ps_inflight s))"
  using assms by (cases pc rule: locked.cases) (auto simp: fire_step_defs split: option.split)

lemma unlock_one:
  "t < length (ds_fires s) \<Longrightarrow> ds_fires s ! t = (i, pc) \<Longrightarrow> i < length (ds_pipes s) \<Longrightarrow> locked pc \<Longrightarrow>
   \<exists>n s' pc'. run_events (daemon_step d) (replicate n (Advances t ex)) s = Some s' \<and> \<not> locked pc' \<and>
     ds_fires s' = (ds_fires s)[t := (i, pc')]"
proof (induction "lock_rank pc (ps_inflight (ds_pipes s ! i))" arbitrary: s pc rule: less_induct)
  case less
  obtain pc' p' dw di where
    f: "fire_step (dm_pipelines d ! i) (dm_maxRuns d) (ds_draining s) ex pc (ds_pipes s ! i) = Some (pc', p', dw, di)"
      "locked pc' \<longrightarrow> lock_rank pc' (ps_inflight p') < lock_rank pc (ps_inflight (ds_pipes s ! i))"
    using locked_step [OF less.prems(4)] by blast
  let ?u = "s\<lparr>ds_fires := (ds_fires s)[t := (i, pc')], ds_pipes := (ds_pipes s)[i := p'],
             ds_wg := ds_wg s + dw, ds_inflight := ds_inflight s + di\<rparr>"
  have step: "daemon_step d (Advances t ex) s = Some ?u"
    using less.prems(1,2) f(1) by (simp add: daemon_step_def)
  show ?case
  proof (cases "locked pc'")
    case False
    with step show ?thesis by (intro exI [of _ 1] exI [of _ ?u] exI [of _ pc']) simp
  next
    case True
    have "\<exists>n s' pc''. run_events (daemon_step d) (replicate n (Advances t ex)) ?u = Some s' \<and> \<not> locked pc'' \<and>
        ds_fires s' = (ds_fires ?u)[t := (i, pc'')]"
      by (rule less.hyps) (use f(2) True less.prems in simp_all)
    then obtain n s' pc'' where "run_events (daemon_step d) (replicate n (Advances t ex)) ?u = Some s'"
      "\<not> locked pc''" "ds_fires s' = (ds_fires s)[t := (i, pc'')]" by auto
    with step show ?thesis by (intro exI [of _ "Suc n"] exI [of _ s'] exI [of _ pc'']) simp
  qed
qed

definition holders :: "'w daemon_state \<Rightarrow> nat" where
  "holders s = length (filter (\<lambda>(i, pc). locked pc) (ds_fires s))"

lemma filter_update_less:
  "t < length xs \<Longrightarrow> P (xs ! t) \<Longrightarrow> \<not> P y \<Longrightarrow> length (filter P (xs[t := y])) < length (filter P xs)"
proof (induction xs arbitrary: t)
  case Nil
  then show ?case by simp
next
  case (Cons x xs)
  then show ?case by (cases t) simp_all
qed

lemma unlock_all:
  "daemon_inv d s \<Longrightarrow> \<exists>es s'. set es \<subseteq> range (\<lambda>t. Advances t ex) \<and> run_events (daemon_step d) es s = Some s' \<and>
     \<not> list_ex (\<lambda>(i, pc). locked pc) (ds_fires s')"
proof (induction "holders s" arbitrary: s rule: less_induct)
  case less
  show ?case
  proof (cases "list_ex (\<lambda>(i, pc). locked pc) (ds_fires s)")
    case False
    then show ?thesis by (intro exI [of _ "[]"] exI [of _ s]) simp
  next
    case True
    then obtain t i pc where t: "t < length (ds_fires s)" "ds_fires s ! t = (i, pc)" "locked pc"
      by (auto simp: list_ex_length)
    then have "i < length (ds_pipes s)"
      using less.prems nth_mem [OF t(1)] by (auto simp: daemon_inv_def fires_ok_def)
    from unlock_one [OF t(1,2) this t(3)] obtain n u pc' where
      u: "run_events (daemon_step d) (replicate n (Advances t ex)) s = Some u" "\<not> locked pc'"
        "ds_fires u = (ds_fires s)[t := (i, pc')]"
      by blast
    have "daemon_inv d u" using daemons.run_events_inv [OF less.prems u(1)] .
    moreover have "holders u < holders s"
      unfolding holders_def u(3) using t u(2) by (intro filter_update_less) simp_all
    ultimately obtain es s' where "set es \<subseteq> range (\<lambda>t. Advances t ex)" "run_events (daemon_step d) es u = Some s'"
        "\<not> list_ex (\<lambda>(i, pc). locked pc) (ds_fires s')"
      using less.hyps by blast
    with u(1) show ?thesis
      by (intro exI [of _ "replicate n (Advances t ex) @ es"] exI [of _ s']) (auto simp: run_events_append)
  qed
qed

section \<open>From phase to phase\<close>

definition leads :: "'w Daemon \<Rightarrow> 'w serving \<Rightarrow> 'w serving \<Rightarrow> bool" where
  "leads d s t \<longleftrightarrow> (\<exists>es. run_events (serve_step d) es s = Some t)"

lemma leads_refl: "leads d s s"
  unfolding leads_def by (intro exI [of _ "[]"]) simp

lemma leads_trans: "leads d s t \<Longrightarrow> leads d t u \<Longrightarrow> leads d s u"
  unfolding leads_def by (metis (no_types, lifting) option.simps(5) run_events_append)

lemma leads_step: "serve_step d e s = Some t \<Longrightarrow> leads d t u \<Longrightarrow> leads d s u"
  unfolding leads_def by (metis (no_types, lifting) option.simps(5) run_events.simps(2))

lemma leads_moves:
  "set es \<subseteq> range (\<lambda>t. Advances t ex) \<Longrightarrow> run_events (daemon_step d) es (sv_daemon s) = Some ds \<Longrightarrow>
   leads d s (s\<lparr>sv_daemon := ds\<rparr>)"
proof (induction es arbitrary: s)
  case Nil
  then have "s\<lparr>sv_daemon := ds\<rparr> = s" by simp
  then show ?case by (simp only: leads_refl)
next
  case (Cons e es)
  then obtain k u where e: "e = Advances k ex" "daemon_step d (Advances k ex) (sv_daemon s) = Some u"
      "run_events (daemon_step d) es u = Some ds"
    by (auto split: option.splits)
  then have "serve_step d (SE_Moves k ex) s = Some (s\<lparr>sv_daemon := u\<rparr>)" by (simp add: serve_step_def)
  moreover have "leads d (s\<lparr>sv_daemon := u\<rparr>) (s\<lparr>sv_daemon := ds\<rparr>)"
    using Cons.IH [of "s\<lparr>sv_daemon := u\<rparr>"] Cons.prems(1) e(3) by simp
  ultimately show ?case by (rule leads_step)
qed

lemma leads_listeners: "\<exists>xs. leads d s (s\<lparr>sv_listening := xs\<rparr>) \<and> \<not> list_ex id xs"
proof (induction "length (filter id (sv_listening s))" arbitrary: s rule: less_induct)
  case less
  show ?case
  proof (cases "list_ex id (sv_listening s)")
    case False
    moreover have "leads d s (s\<lparr>sv_listening := sv_listening s\<rparr>)" by (simp add: leads_refl)
    ultimately show ?thesis by blast
  next
    case True
    then obtain i where i: "i < length (sv_listening s)" "sv_listening s ! i" by (auto simp: list_ex_length)
    let ?u = "s\<lparr>sv_listening := (sv_listening s)[i := False]\<rparr>"
    have "serve_step d (SE_ListenReturns i) s = Some ?u" using i by (simp add: serve_step_def)
    moreover have "length (filter id (sv_listening ?u)) < length (filter id (sv_listening s))"
      using filter_update_less [of i "sv_listening s" id False] i by simp
    from less.hyps [OF this] obtain xs where "leads d ?u (s\<lparr>sv_listening := xs\<rparr>)" "\<not> list_ex id xs" by auto
    ultimately show ?thesis using leads_step by blast
  qed
qed

definition ends :: "'w Daemon \<Rightarrow> 'w serving \<Rightarrow> bool" where
  "ends d s \<longleftrightarrow> (\<exists>t. leads d s t \<and> sv_phase t = PReturned)"

lemma ends_step: "serve_step d e s = Some t \<Longrightarrow> ends d t \<Longrightarrow> ends d s"
  unfolding ends_def using leads_step by blast

lemma ends_leads: "leads d s t \<Longrightarrow> ends d t \<Longrightarrow> ends d s"
  unfolding ends_def using leads_trans by blast

lemma ends_admin: "sv_phase s = PShutAdmin \<Longrightarrow> ends d s"
proof -
  assume s: "sv_phase s = PShutAdmin"
  then obtain t where "serve_step d (SE_Main TimedOut) s = Some t" "sv_phase t = PReturned"
    by (cases "sv_admin s = SNone") (simp_all add: serve_step_def serve_main_def bounded_wait_def)
  then show ?thesis unfolding ends_def using leads_step leads_refl by blast
qed

lemma ends_runs: "sv_phase s = PWaitRuns \<Longrightarrow> ends d s"
  by (rule ends_step [of d "SE_Main TimedOut"])
    (auto simp: serve_step_def serve_main_def bounded_wait_def intro: ends_admin)

lemma ends_drain:
  assumes "sv_phase s = PDrain" "daemon_inv d (sv_daemon s)"
  shows "ends d s"
proof -
  obtain es ds where es: "set es \<subseteq> range (\<lambda>t. Advances t undefined)" "run_events (daemon_step d) es (sv_daemon s) = Some ds"
      "\<not> list_ex (\<lambda>(i, pc). locked pc) (ds_fires ds)"
    using unlock_all [OF assms(2)] by blast
  have "serve_step d (SE_Main ByCtx) (s\<lparr>sv_daemon := ds\<rparr>) =
      Some (s\<lparr>sv_phase := PWaitRuns, sv_daemon := ds\<lparr>ds_draining := True\<rparr>\<rparr>)"
    using assms(1) es(3) by (simp add: serve_step_def serve_main_def daemon_step_def)
  then have "ends d (s\<lparr>sv_daemon := ds\<rparr>)" by (rule ends_step) (simp add: ends_runs)
  with leads_moves [OF es(1,2)] show ?thesis by (rule ends_leads)
qed

lemma ends_listeners:
  assumes "sv_phase s = PListeners" "daemon_inv d (sv_daemon s)"
  shows "ends d s"
proof -
  obtain xs where xs: "leads d s (s\<lparr>sv_listening := xs\<rparr>)" "\<not> list_ex id xs" using leads_listeners by blast
  have "serve_step d (SE_Main ByCtx) (s\<lparr>sv_listening := xs\<rparr>) = Some (s\<lparr>sv_listening := xs, sv_phase := PDrain\<rparr>)"
    using assms(1) xs(2) by (simp add: serve_step_def serve_main_def)
  then have "ends d (s\<lparr>sv_listening := xs\<rparr>)" by (rule ends_step) (simp add: ends_drain assms(2))
  with xs(1) show ?thesis by (rule ends_leads)
qed

lemma ends_server:
  assumes "sv_phase s = PShutServer" "daemon_inv d (sv_daemon s)"
  shows "ends d s"
proof -
  obtain t where "serve_step d (SE_Main TimedOut) s = Some t" "sv_phase t = PListeners" "sv_daemon t = sv_daemon s"
    using assms(1) by (cases "sv_server s = SNone") (simp_all add: serve_step_def serve_main_def bounded_wait_def)
  with assms(2) show ?thesis by (metis ends_step ends_listeners)
qed

lemma ends_stop:
  assumes "sv_phase s = PStop" "daemon_inv d (sv_daemon s)"
  shows "ends d s"
  by (rule ends_step [of d "SE_Main ByCtx"]) (use assms in \<open>auto simp: serve_step_def serve_main_def intro: ends_server\<close>)

lemma ends_select:
  assumes "sv_phase s = PSelect" "daemon_inv d (sv_daemon s)"
  shows "ends d s"
proof -
  have told: "ends d t" if "sv_phase t = PSelect" "daemon_inv d (sv_daemon t)" "sv_ctx t" for t
    by (rule ends_step [of d "SE_Main ByCtx"]) (use that in \<open>auto simp: serve_step_def serve_main_def intro: ends_stop\<close>)
  show ?thesis
  proof (cases "sv_ctx s")
    case True
    with assms show ?thesis by (rule told)
  next
    case False
    then have "serve_step d SE_CtxDone s = Some (s\<lparr>sv_ctx := True, sv_cancelled := True\<rparr>)" by (simp add: serve_step_def)
    then show ?thesis by (rule ends_step) (use assms in \<open>simp add: told\<close>)
  qed
qed

lemma serve_ends:
  assumes "daemon_inv d (sv_daemon s)"
  shows "ends d s"
proof (cases "sv_phase s")
  case PReturned
  then show ?thesis unfolding ends_def using leads_refl by blast
qed (use assms in \<open>simp_all add: ends_select ends_stop ends_server ends_listeners ends_drain ends_runs ends_admin\<close>)

end
