(* ===== verification/Admin.thy ===== *)
theory Admin
  imports Serve
begin

text \<open>
  The admin listener (\<^verbatim>\<open>internal/daemon/admin.go\<close>): its three endpoints and the text of the
  metrics, character by character, with a reader of the exposition format against which that
  text is judged. The text is rendered from one state of the daemon; the code loads each counter
  by itself, so under load one scrape may mix values of neighbouring states. How \<open>%g\<close> writes a
  number is an argument; \<open>ServeMux\<close> is represented by its dispatch on a method and a clean path,
  where a \<open>GET\<close> pattern serves \<open>HEAD\<close> as well.
\<close>

section \<open>Endpoints\<close>

definition pathHealth :: string where "pathHealth = ''/healthz''"
definition pathReady :: string where "pathReady = ''/readyz''"
definition pathMetrics :: string where "pathMetrics = ''/metrics''"

lemmas path_defs = pathHealth_def pathReady_def pathMetrics_def

definition eol :: string where "eol = [CHR 0x0A]"

definition metric_head :: "string \<Rightarrow> string \<Rightarrow> string \<Rightarrow> string" where
  "metric_head name kind help =
     ''# HELP '' @ name @ '' '' @ help @ eol @ ''# TYPE '' @ name @ '' '' @ kind @ eol"

definition metric :: "(int \<Rightarrow> string) \<Rightarrow> string \<Rightarrow> string \<Rightarrow> string \<Rightarrow> int \<Rightarrow> string" where
  "metric g name kind help v = metric_head name kind help @ name @ '' '' @ g v @ eol"

definition sample_text :: "(int \<Rightarrow> string) \<Rightarrow> string \<Rightarrow> string \<Rightarrow> int \<Rightarrow> string" where
  "sample_text g name pipeline v =
     name @ ''{pipeline='' @ [CHR 0x22] @ escapeLabel pipeline @ [CHR 0x22] @ ''} '' @ g v @ eol"

definition perPipeline ::
  "(int \<Rightarrow> string) \<Rightarrow> 'w Daemon \<Rightarrow> 'w daemon_state \<Rightarrow> string \<Rightarrow> string \<Rightarrow> string \<Rightarrow> (pstate \<Rightarrow> int) \<Rightarrow> string" where
  "perPipeline g d s name kind help read =
     metric_head name kind help @
     concat (map (\<lambda>(p, q). sample_text g name (pl_Name p) (read q)) (zip (dm_pipelines d) (ds_pipes s)))"

definition writeMetrics :: "(int \<Rightarrow> string) \<Rightarrow> 'w Daemon \<Rightarrow> int \<Rightarrow> 'w daemon_state \<Rightarrow> string" where
  "writeMetrics g d held s =
     metric g ''p6e_pipelines_served'' ''gauge''
       ''Pipelines this daemon is serving.'' (int (length (dm_pipelines d))) @
     metric g ''p6e_pipelines_quarantined'' ''gauge''
       ''Pipelines taken out of service after repeatedly abandoning a step.'' (int (quarantined_count s)) @
     metric g ''p6e_runs_inflight'' ''gauge'' ''Runs in progress across every pipeline.'' (ds_inflight s) @
     metric g ''p6e_slots_held'' ''gauge'' ''Steps holding a slot in the shared budget.'' held @
     metric g ''p6e_slots_total'' ''gauge'' ''Size of the shared step budget.'' (dm_slots_cap d) @
     perPipeline g d s ''p6e_pipeline_runs_total'' ''counter'' ''Runs started, by pipeline.'' ps_runs @
     perPipeline g d s ''p6e_pipeline_failures_total'' ''counter'' ''Runs that failed, by pipeline.'' ps_failures @
     perPipeline g d s ''p6e_pipeline_abandoned_runs_total'' ''counter''
       ''Runs that left a step running because a node ignored its context.'' ps_abandonedRuns @
     perPipeline g d s ''p6e_pipeline_runs_inflight'' ''gauge'' ''Runs in progress, by pipeline.'' ps_inflight @
     perPipeline g d s ''p6e_pipeline_quarantined'' ''gauge''
       ''1 when the pipeline has been taken out of service.'' (\<lambda>q. if ps_quarantined q then 1 else 0)"

definition metrics_reply :: "(int \<Rightarrow> string) \<Rightarrow> 'w Daemon \<Rightarrow> int \<Rightarrow> 'w daemon_state \<Rightarrow> reply" where
  "metrics_reply g d held s = \<lparr>rp_Status = 200, rp_Body = BodyBytes (writeMetrics g d held s)\<rparr>"

definition adminHandler ::
  "(int \<Rightarrow> string) \<Rightarrow> 'w Daemon \<Rightarrow> int \<Rightarrow> 'w daemon_state \<Rightarrow> string \<Rightarrow> string \<Rightarrow> reply" where
  "adminHandler g d held s meth path =
     (if path \<notin> {pathHealth, pathReady, pathMetrics} then http_Error (Sprintf ''404 page not found'' []) 404
      else if meth \<notin> {''GET'', ''HEAD''} then http_Error (Sprintf ''Method Not Allowed'' []) 405
      else if path = pathHealth then healthz
      else if path = pathReady then readyz d s
      else metrics_reply g d held s)"

section \<open>Reading the exposition format\<close>

function text_lines :: "string \<Rightarrow> string list" where
  "text_lines s =
     (if s = [] then []
      else takeWhile (\<lambda>c. c \<noteq> CHR 0x0A) s # text_lines (tl (dropWhile (\<lambda>c. c \<noteq> CHR 0x0A) s)))"
  by pat_completeness auto

termination
proof (relation "measure length")
  fix s :: string
  assume "s \<noteq> []"
  then have "length (tl (dropWhile (\<lambda>c. c \<noteq> CHR 0x0A) s)) < length s"
    using length_dropWhile_le [of "\<lambda>c. c \<noteq> CHR 0x0A" s] by (cases s) auto
  then show "(tl (dropWhile (\<lambda>c. c \<noteq> CHR 0x0A) s), s) \<in> measure length" by simp
qed simp

declare text_lines.simps [simp del]

text \<open>A sample: the metric, the value of its only label when it has one, and the text of the value.\<close>

type_synonym sample = "string \<times> string option \<times> string"

definition read_sample :: "string \<Rightarrow> sample option" where
  "read_sample l =
     (let name = takeWhile (\<lambda>c. c \<noteq> CHR '' '' \<and> c \<noteq> CHR ''{'') l;
          rest = dropWhile (\<lambda>c. c \<noteq> CHR '' '' \<and> c \<noteq> CHR ''{'') l;
          label = ''{pipeline='' @ [CHR 0x22]
      in if l = [] \<or> hd l = CHR ''#'' then None
         else (case rest of
                 [] \<Rightarrow> None
               | c # v \<Rightarrow>
                   if c = CHR '' '' then Some (name, None, v)
                   else if take (length label) rest \<noteq> label then None
                   else (case scan_label (drop (length label) rest) of
                           None \<Rightarrow> None
                         | Some (quoted, after) \<Rightarrow>
                             if take 2 after = ''} '' then Some (name, Some (unescape quoted), drop 2 after) else None)))"

definition scrape :: "string \<Rightarrow> sample list" where
  "scrape text = List.map_filter read_sample (text_lines text)"

section \<open>What a scraper reads\<close>

lemma text_lines_line: "CHR 0x0A \<notin> set l \<Longrightarrow> text_lines (l @ eol @ rest) = l # text_lines rest"
proof -
  assume "CHR 0x0A \<notin> set l"
  then have "takeWhile (\<lambda>c. c \<noteq> CHR 0x0A) (l @ eol @ rest) = l" "dropWhile (\<lambda>c. c \<noteq> CHR 0x0A) (l @ eol @ rest) = eol @ rest"
    by (induction l) (auto simp: eol_def)
  then show ?thesis by (subst text_lines.simps) (simp add: eol_def)
qed

lemma scrape_line:
  "CHR 0x0A \<notin> set l \<Longrightarrow>
   scrape (l @ eol @ rest) = (case read_sample l of None \<Rightarrow> scrape rest | Some x \<Rightarrow> x # scrape rest)"
  by (simp add: scrape_def text_lines_line List.map_filter_simps split: option.split)

lemma scrape_Nil: "scrape [] = []"
  by (simp add: scrape_def text_lines.simps)

text \<open>The names and help texts the daemon uses, and the numbers it is given.\<close>

definition metric_name :: "string \<Rightarrow> bool" where
  "metric_name name \<longleftrightarrow> name \<noteq> [] \<and> list_all (\<lambda>c. c \<noteq> CHR '' '' \<and> c \<noteq> CHR ''{'' \<and> c \<noteq> CHR ''#'' \<and> c \<noteq> CHR 0x0A) name"

definition plain :: "string \<Rightarrow> bool" where
  "plain s \<longleftrightarrow> CHR 0x0A \<notin> set s"

lemma metric_nameD:
  "metric_name name \<Longrightarrow> name \<noteq> []" "metric_name name \<Longrightarrow> hd name \<noteq> CHR ''#''" "metric_name name \<Longrightarrow> plain name"
  "metric_name name \<Longrightarrow> c \<in> set name \<Longrightarrow> c \<noteq> CHR '' '' \<and> c \<noteq> CHR ''{''"
  by (cases name; auto simp: metric_name_def plain_def list_all_iff)+

lemma name_ends:
  assumes "metric_name name" "c = CHR '' '' \<or> c = CHR ''{''"
  shows "takeWhile (\<lambda>c. c \<noteq> CHR '' '' \<and> c \<noteq> CHR ''{'') (name @ c # rest) = name"
    "dropWhile (\<lambda>c. c \<noteq> CHR '' '' \<and> c \<noteq> CHR ''{'') (name @ c # rest) = c # rest"
  using metric_nameD(4) [OF assms(1)] assms(2) by (auto simp: takeWhile_append2 dropWhile_append2)

lemma read_plain: "metric_name name \<Longrightarrow> read_sample (name @ '' '' @ v) = Some (name, None, v)"
  using metric_nameD [of name] by (simp add: read_sample_def name_ends Let_def)

lemma read_labelled:
  "metric_name name \<Longrightarrow>
   read_sample (name @ ''{pipeline='' @ [CHR 0x22] @ escapeLabel p @ [CHR 0x22] @ ''} '' @ v) = Some (name, Some p, v)"
  using metric_nameD [of name] by (simp add: read_sample_def name_ends Let_def scan_escapeLabel unescape_escapeLabel)

lemma plain_escapeLabel: "plain (escapeLabel p)"
  by (induction p) (auto simp: escapeLabel_def escape_char_def plain_def)

lemma read_comment: "read_sample (''# '' @ l) = None"
  by (simp add: read_sample_def Let_def)

lemma scrape_head:
  "metric_name name \<Longrightarrow> plain kind \<Longrightarrow> plain help \<Longrightarrow> scrape (metric_head name kind help @ rest) = scrape rest"
proof -
  assume a: "metric_name name" "plain kind" "plain help"
  then have "scrape ((''# '' @ ''HELP '' @ name @ '' '' @ help) @ eol @ (''# '' @ ''TYPE '' @ name @ '' '' @ kind) @ eol @ rest) = scrape rest"
    using metric_nameD(3) [OF a(1)] by (subst scrape_line, simp add: plain_def, subst scrape_line, simp add: plain_def)
      (simp only: read_comment option.case)
  then show ?thesis by (simp add: metric_head_def)
qed

lemma scrape_metric:
  assumes "metric_name name" "plain kind" "plain help" "plain (g v)"
  shows "scrape (metric g name kind help v @ rest) = (name, None, g v) # scrape rest"
proof -
  have "scrape ((name @ '' '' @ g v) @ eol @ rest) = (name, None, g v) # scrape rest"
    using metric_nameD(3) [OF assms(1)] assms(4) by (subst scrape_line) (simp_all add: plain_def read_plain [OF assms(1)] del: append.simps)
  then show ?thesis using scrape_head [OF assms(1-3)] by (simp add: metric_def)
qed

lemma scrape_samples:
  assumes "metric_name name" "\<And>v. plain (g v)"
  shows "scrape (concat (map (\<lambda>(p, q). sample_text g name (pl_Name p) (read q)) xs) @ rest) =
    map (\<lambda>(p, q). (name, Some (pl_Name p), g (read q))) xs @ scrape rest"
proof (induction xs)
  case Nil
  then show ?case by simp
next
  case (Cons x xs)
  obtain p q where x: "x = (p, q)" by force
  let ?l = "name @ ''{pipeline='' @ [CHR 0x22] @ escapeLabel (pl_Name p) @ [CHR 0x22] @ ''} '' @ g (read q)"
  have "CHR 0x0A \<notin> set ?l"
    using metric_nameD(3) [OF assms(1)] plain_escapeLabel [of "pl_Name p"] assms(2) by (simp add: plain_def)
  then have "scrape (?l @ eol @ r) = (name, Some (pl_Name p), g (read q)) # scrape r" for r
    by (subst scrape_line) (simp_all add: read_labelled [OF assms(1)] del: append.simps)
  with Cons show ?case by (simp add: x sample_text_def)
qed

lemma scrape_perPipeline:
  assumes "metric_name name" "plain kind" "plain help" "\<And>v. plain (g v)"
  shows "scrape (perPipeline g d s name kind help read @ rest) =
    map (\<lambda>(p, q). (name, Some (pl_Name p), g (read q))) (zip (dm_pipelines d) (ds_pipes s)) @ scrape rest"
  using assms by (simp add: perPipeline_def scrape_head scrape_samples)

section \<open>The samples\<close>

definition samples_of ::
  "(int \<Rightarrow> string) \<Rightarrow> 'w Daemon \<Rightarrow> 'w daemon_state \<Rightarrow> string \<Rightarrow> (pstate \<Rightarrow> int) \<Rightarrow> sample list" where
  "samples_of g d s name read =
     map (\<lambda>(p, q). (name, Some (pl_Name p), g (read q))) (zip (dm_pipelines d) (ds_pipes s))"

definition exposition :: "(int \<Rightarrow> string) \<Rightarrow> 'w Daemon \<Rightarrow> int \<Rightarrow> 'w daemon_state \<Rightarrow> sample list" where
  "exposition g d held s =
     [(''p6e_pipelines_served'', None, g (int (length (dm_pipelines d)))),
      (''p6e_pipelines_quarantined'', None, g (int (quarantined_count s))),
      (''p6e_runs_inflight'', None, g (ds_inflight s)),
      (''p6e_slots_held'', None, g held),
      (''p6e_slots_total'', None, g (dm_slots_cap d))] @
     samples_of g d s ''p6e_pipeline_runs_total'' ps_runs @
     samples_of g d s ''p6e_pipeline_failures_total'' ps_failures @
     samples_of g d s ''p6e_pipeline_abandoned_runs_total'' ps_abandonedRuns @
     samples_of g d s ''p6e_pipeline_runs_inflight'' ps_inflight @
     samples_of g d s ''p6e_pipeline_quarantined'' (\<lambda>q. if ps_quarantined q then 1 else 0)"

lemma scrape_writeMetrics:
  assumes "\<And>v. plain (g v)"
  shows "scrape (writeMetrics g d held s) = exposition g d held s"
proof -
  have names: "metric_name ''p6e_pipelines_served''" "metric_name ''p6e_pipelines_quarantined''"
    "metric_name ''p6e_runs_inflight''" "metric_name ''p6e_slots_held''" "metric_name ''p6e_slots_total''"
    "metric_name ''p6e_pipeline_runs_total''" "metric_name ''p6e_pipeline_failures_total''"
    "metric_name ''p6e_pipeline_abandoned_runs_total''" "metric_name ''p6e_pipeline_runs_inflight''"
    "metric_name ''p6e_pipeline_quarantined''"
    by (simp_all add: metric_name_def)
  have texts: "plain ''gauge''" "plain ''counter''" "plain ''Pipelines this daemon is serving.''"
    "plain ''Pipelines taken out of service after repeatedly abandoning a step.''"
    "plain ''Runs in progress across every pipeline.''" "plain ''Steps holding a slot in the shared budget.''"
    "plain ''Size of the shared step budget.''" "plain ''Runs started, by pipeline.''"
    "plain ''Runs that failed, by pipeline.''"
    "plain ''Runs that left a step running because a node ignored its context.''"
    "plain ''Runs in progress, by pipeline.''" "plain ''1 when the pipeline has been taken out of service.''"
    by (simp_all add: plain_def)
  have "scrape (writeMetrics g d held s @ []) = exposition g d held s @ scrape []"
    unfolding writeMetrics_def exposition_def samples_of_def append_assoc
    by (simp only: scrape_metric [OF names(1) texts(1,3) assms] scrape_metric [OF names(2) texts(1,4) assms]
        scrape_metric [OF names(3) texts(1,5) assms] scrape_metric [OF names(4) texts(1,6) assms]
        scrape_metric [OF names(5) texts(1,7) assms] scrape_perPipeline [OF names(6) texts(2,8) assms]
        scrape_perPipeline [OF names(7) texts(2,9) assms] scrape_perPipeline [OF names(8) texts(2,10) assms]
        scrape_perPipeline [OF names(9) texts(1,11) assms] scrape_perPipeline [OF names(10) texts(1,12) assms]
        append_Cons append_Nil)
  then show ?thesis by (simp add: scrape_Nil)
qed

text \<open>No two samples share metric and label exactly when no two pipelines share a name.\<close>

definition series :: "sample \<Rightarrow> string \<times> string option" where
  "series x = (fst x, fst (snd x))"

lemma series_samples:
  assumes "length (ds_pipes s) = length (dm_pipelines d)"
  shows "map series (samples_of g d s name read) = map (\<lambda>p. (name, Some (pl_Name p))) (dm_pipelines d)"
  using assms by (auto simp: samples_of_def series_def comp_def case_prod_beta intro!: nth_equalityI)

lemma exposition_distinct:
  assumes "length (ds_pipes s) = length (dm_pipelines d)"
  shows "distinct (map series (exposition g d held s)) \<longleftrightarrow> distinct (map pl_Name (dm_pipelines d))"
proof -
  have family: "distinct (map (\<lambda>p. (name, Some (pl_Name p))) (dm_pipelines d)) \<longleftrightarrow> distinct (map pl_Name (dm_pipelines d))"
    for name :: string
    by (simp add: distinct_map inj_on_def)
  have plain_series: "map series [(''p6e_pipelines_served'', None, g (int (length (dm_pipelines d)))),
      (''p6e_pipelines_quarantined'', None, g (int (quarantined_count s))), (''p6e_runs_inflight'', None, g (ds_inflight s)),
      (''p6e_slots_held'', None, g held), (''p6e_slots_total'', None, g (dm_slots_cap d))] =
      [(''p6e_pipelines_served'', None), (''p6e_pipelines_quarantined'', None), (''p6e_runs_inflight'', None),
       (''p6e_slots_held'', None), (''p6e_slots_total'', None)]"
    by (simp add: series_def)
  show ?thesis
    unfolding exposition_def map_append plain_series series_samples [OF assms] distinct_append family
    by auto
qed

lemma samples_of_nth:
  "i < length (dm_pipelines d) \<Longrightarrow> length (ds_pipes s) = length (dm_pipelines d) \<Longrightarrow>
   (name, Some (pl_Name (dm_pipelines d ! i)), g (read (ds_pipes s ! i))) \<in> set (samples_of g d s name read)"
  by (force simp: samples_of_def set_zip image_iff)

text \<open>With the counters exact, the inflight samples are numbers of calls.\<close>

lemma exposition_inflight:
  assumes "counts_ok d s" "length (ds_pipes s) = length (dm_pipelines d)"
  shows "(''p6e_runs_inflight'', None, g (calls (\<lambda>_. True) counted_run (ds_fires s))) \<in> set (exposition g d held s)"
    "\<forall>i<length (dm_pipelines d). (''p6e_pipeline_runs_inflight'', Some (pl_Name (dm_pipelines d ! i)),
       g (calls ((=) i) slotted (ds_fires s))) \<in> set (exposition g d held s)"
proof -
  have "ds_inflight s = calls (\<lambda>_. True) counted_run (ds_fires s)"
    "\<forall>i<length (dm_pipelines d). ps_inflight (ds_pipes s ! i) = calls ((=) i) slotted (ds_fires s)"
    using assms(1) by (simp_all add: counts_ok_def)
  then show "(''p6e_runs_inflight'', None, g (calls (\<lambda>_. True) counted_run (ds_fires s))) \<in> set (exposition g d held s)"
    "\<forall>i<length (dm_pipelines d). (''p6e_pipeline_runs_inflight'', Some (pl_Name (dm_pipelines d ! i)),
       g (calls ((=) i) slotted (ds_fires s))) \<in> set (exposition g d held s)"
    using samples_of_nth [where d = d and s = s and g = g and read = ps_inflight and name = "''p6e_pipeline_runs_inflight''"] assms(2)
    by (auto simp: exposition_def)
qed

end
