(* ===== verification/Demo_Life.thy ===== *)
theory Demo_Life
  imports Demo_Nodes Cli_Facts Shutdown Admin
begin

text \<open>
  The command line and the life of a daemon at work: a host with one pipeline file, on which a
  directory is checked and a pipeline run from its arguments to its exit code, and a daemon that
  is told to stop while a request is being answered.
\<close>

section \<open>A host\<close>

definition small_file :: "with_block File" where
  "small_file = \<lparr>f_Version = 1, f_Inputs = [(''n'', ''Int'')], f_Trigger = None,
     f_Steps = [(''raw'', plain_step ''value'' (WValue \<lparr>vc_Type = ''Bytes'', vc_Value = Some (literal AnyNil ''doc'')\<rparr>) no_needs)]\<rparr>"

definition cli_triggers :: "with_block TriggerNew Registry" where
  "cli_triggers =
     (case Builtins domain_table demo_hmac demo_ParseDuration (\<lambda>_. Inr demo_webhook) (\<lambda>_. Inr ''1ms'') of
        Inr R \<Rightarrow> R | Inl _ \<Rightarrow> [])"

definition cli_reg :: "(with_block, unit) Registries" where
  "cli_reg = \<lparr>rg_Nodes = Some builtin_reg, rg_Triggers = Some cli_triggers\<rparr>"

lemma cli_registries:
  "registries domain_table demo_library demo_hmac (\<lambda>_. Inr demo_webhook) (\<lambda>_. Inr ''1ms'') = Inr cli_reg"
proof -
  have "case Builtins domain_table demo_hmac demo_ParseDuration (\<lambda>_ :: with_block. Inr demo_webhook) (\<lambda>_. Inr ''1ms'') of
      Inr _ \<Rightarrow> True | Inl _ \<Rightarrow> False"
    by code_simp
  then have "Builtins domain_table demo_hmac demo_ParseDuration (\<lambda>_ :: with_block. Inr demo_webhook) (\<lambda>_. Inr ''1ms'') = Inr cli_triggers"
    by (auto simp: cli_triggers_def split: sum.splits)
  moreover have "lb_ParseDuration demo_library = demo_ParseDuration" by (simp add: demo_library_def)
  ultimately show ?thesis by (simp add: registries_def builtin_reg cli_reg_def)
qed

definition small_plan :: "unit ExecutionPlan" where
  "small_plan = (case Compile domain_table small_file cli_reg ''small'' of Inr p \<Rightarrow> p | Inl _ \<Rightarrow> undefined)"

lemma small_compiles: "Compile domain_table small_file cli_reg ''small'' = Inr small_plan"
proof -
  have "case Compile domain_table small_file cli_reg ''small'' of Inr _ \<Rightarrow> True | Inl _ \<Rightarrow> False"
    by code_simp
  then show ?thesis by (auto simp: small_plan_def split: sum.splits)
qed

definition small_options :: Options where
  "small_options = zero_options\<lparr>op_InlineSoloSteps := True, op_Inputs := [(''n'', NewValue domain_table (PInt 7))]\<rparr>"

definition small_env :: environment where
  "small_env = \<lparr>en_cap = 1, en_others = 0, en_ctx_done = False, en_render = (\<lambda>_. '''')\<rparr>"

definition small_start :: "unit scheduler" where
  "small_start = Run_start small_env ''fresh'' small_plan small_options"

definition small_events :: "unit event list" where
  "small_events = [Top demo_obs, Top demo_obs]"

lemma small_ends:
  "case run_events sched_step small_events small_start of
     None \<Rightarrow> False
   | Some s \<Rightarrow> s_pc s = Returned \<and> \<not> Execution_Failed (s_ex s) \<and> ex_Mutations (s_ex s) = []"
  by code_simp

definition small_final :: "unit scheduler" where
  "small_final = the (run_events sched_step small_events small_start)"

lemma small_finishes:
  "run_events sched_step small_events small_start = Some small_final"
  "s_pc small_final = Returned" "\<not> Execution_Failed (s_ex small_final)" "ex_Mutations (s_ex small_final) = []"
  using small_ends by (auto simp: small_final_def split: option.splits)

lemma small_finished: "finished_run small_plan small_options (s_ex small_final)"
proof -
  have "reachable (\<lambda>s. s = Run_start small_env ''fresh'' small_plan small_options) sched_step small_start"
    by (rule reachable.reachable_init) (simp add: small_start_def)
  from run_events_reachable [OF this small_finishes(1)] small_finishes(2) show ?thesis
    unfolding finished_run_def
    by (intro exI [of _ small_env] exI [of _ "''fresh''"] exI [of _ small_final]) (simp add: small_env_def)
qed

text \<open>A finished run of every plan, and the run above of the plan it is about.\<close>

definition small_run :: "unit ExecutionPlan \<Rightarrow> Options \<Rightarrow> unit Execution" where
  "small_run p opts =
     (if p = small_plan \<and> opts = small_options then s_ex small_final else (SOME ex. finished_run p opts ex))"

definition small_entries :: "dir_entry list" where
  "small_entries = [\<lparr>de_Name = ''notes.txt'', de_IsDir = False\<rparr>, \<lparr>de_Name = ''small.yaml'', de_IsDir = False\<rparr>]"

definition small_open :: "string \<Rightarrow> go_error + (go_error + bytes)" where
  "small_open path = (if path = ''d/small.yaml'' then Inr (Inr ''small'') else Inl (EFmt (Sprintf ''no such file'' [])))"

definition small_decode :: "bytes \<Rightarrow> go_error option + with_block File" where
  "small_decode b = (if b = ''small'' then Inr small_file else Inl None)"

definition small_host :: "(with_block, unit) host" where
  "small_host =
     \<lparr>ho_Open = small_open, ho_Decode = small_decode, ho_ReadFile = (\<lambda>_. Inl (EFmt (Sprintf ''no such file'' []))),
      ho_ReadDir = (\<lambda>_. Inr small_entries), ho_Join = (\<lambda>d n. d @ ''/'' @ n), ho_ClaimOrder = (\<lambda>_. []),
      ho_ParseTime = (\<lambda>_. None), ho_ParseDuration = demo_ParseDuration, ho_Run = small_run, ho_Serve = (\<lambda>_. None),
      ho_Build = (''dev'', ''unknown'', ''unknown'', ''go'')\<rparr>"

lemma small_runs_plans: "runs_plans small_host"
  unfolding runs_plans_def small_host_def small_run_def
  using small_finished by (auto intro: someI_ex [OF finished_run_exists])

lemma small_parses: "pipeline_ParseFile (ho_Decode small_host) (ho_Open small_host) ''d/small.yaml'' = Inr small_file"
proof -
  have "pipeline_ParseFile small_decode small_open ''d/small.yaml'' = Inr small_file \<longleftrightarrow> validate small_file = None"
    by (simp add: pipeline_ParseFile_def small_open_def small_decode_def Parse_def MaxPipelineBytes_def split: option.split)
  moreover have "validate small_file = None" by code_simp
  ultimately show ?thesis by (simp add: small_host_def)
qed

lemma small_compile: "cli_compile domain_table cli_reg small_host ''d/small.yaml'' = Inr small_plan"
proof -
  have "nameOf ''d/small.yaml'' = ''small''" by code_simp
  then show ?thesis using small_parses small_compiles by (simp add: cli_compile_def)
qed

lemma small_inputs: "buildInputs domain_table (\<lambda>_. None) f small_plan [''n=7''] = Inr [(''n'', NewValue domain_table (PInt 7))]"
proof -
  have "case Compile domain_table small_file cli_reg ''small'' of
      Inr p \<Rightarrow> p_Inputs p = [\<lparr>pi_Name = ''n'', pi_Type = ''Int'', pi_Step = 0\<rparr>] | Inl _ \<Rightarrow> False"
    by code_simp
  then have "p_Inputs small_plan = [\<lparr>pi_Name = ''n'', pi_Type = ''Int'', pi_Step = 0\<rparr>]" by (simp add: small_compiles)
  moreover have "Cut ''n=7'' CHR ''='' = Some (''n'', ''7'')" "ParseInt ''7'' = Inr 7"
    by (simp_all add: Cut_def ParseInt_def digit_val_def is_digit_def)
  ultimately show ?thesis
    by (simp add: buildInputs_def build_input_def read_literal_def convertInput_def CutPrefix_def put_def)
qed

definition small_args :: "string list" where
  "small_args = [''--input'', ''n=7'', ''d/small.yaml'', ''--inline'']"

lemma small_split: "splitRunArgs small_args = ([''d/small.yaml''], zero_options\<lparr>op_InlineSoloSteps := True\<rparr>, [''n=7''], '''')"
  by code_simp

lemma small_exit: "snd (cli_run domain_table cli_reg small_host (''run'' # small_args)) = exitOK"
proof -
  have "ho_ParseTime small_host = (\<lambda>_. None)" "ho_Run small_host small_plan small_options = s_ex small_final"
    by (simp_all add: small_host_def small_run_def)
  then show ?thesis
    using small_inputs [of "ho_ReadFile small_host"] small_finishes
    by (simp add: run_verb small_split withFile_def runCommand_def small_compile small_options_def [symmetric] Let_def)
qed

section \<open>Checking the directory\<close>

lemma small_entry:
  "filter is_pipeline_entry small_entries = [\<lparr>de_Name = ''small.yaml'', de_IsDir = False\<rparr>]"
  "\<forall>e\<in>set small_entries. Base (ho_Join small_host ''d'' (de_Name e)) = de_Name e"
proof -
  show "filter is_pipeline_entry small_entries = [\<lparr>de_Name = ''small.yaml'', de_IsDir = False\<rparr>]" by code_simp
  have "Base (''d/'' @ ''notes.txt'') = ''notes.txt''" "Base (''d/'' @ ''small.yaml'') = ''small.yaml''" by code_simp+
  then show "\<forall>e\<in>set small_entries. Base (ho_Join small_host ''d'' (de_Name e)) = de_Name e"
    by (simp add: small_entries_def small_host_def)
qed

lemma small_untriggered: "p_Trigger small_plan = None"
  using Compile_trigger(1) [OF small_compiles] by (simp add: small_file_def)

lemma small_candidates:
  "load_candidates domain_table cli_reg (ho_Join small_host ''d'')
     (pipeline_ParseFile (ho_Decode small_host) (ho_Open small_host)) small_entries = []"
proof -
  have "TrimSuffix ''small.yaml'' (Ext ''small.yaml'') = ''small''" by code_simp
  moreover have "ho_Join small_host ''d'' ''small.yaml'' = ''d/small.yaml''" by (simp add: small_host_def)
  ultimately have "load_entry domain_table cli_reg (ho_Join small_host ''d'')
      (pipeline_ParseFile (ho_Decode small_host) (ho_Open small_host)) \<lparr>de_Name = ''small.yaml'', de_IsDir = False\<rparr> =
      HasNoTrigger ''d/small.yaml''"
    using small_parses small_compiles small_untriggered by (simp add: load_entry_def Let_def)
  then show ?thesis
    by (simp add: load_candidates_def small_entry candidates_def List.map_filter_simps)
qed

lemma small_check: "snd (checkCommand domain_table cli_reg small_host ''d/small.yaml'') = exitOK"
  unfolding checkCommand_ok using small_compile by blast

section \<open>A daemon told to stop while it answers a request\<close>

definition hook_daemon :: "unit Daemon" where
  "hook_daemon = New [hook_pipeline ''a''] zero_daemon_options"

definition hook_begin :: "unit serving" where
  "hook_begin = (case serve_begin hook_daemon of Inr s \<Rightarrow> s | Inl _ \<Rightarrow> undefined)"

definition closing_events :: "unit serve_event list" where
  "closing_events = [SE_Spawns 0, SE_Begins 0] @ replicate 8 (SE_Moves 0 wedged) @
     [SE_CtxDone, SE_Main ByCtx, SE_Main ByCtx, SE_ServerEnds EndedClosed]"

definition ending_events :: "unit serve_event list" where
  "ending_events = [SE_Main TimedOut, SE_Main ByCtx, SE_Main ByCtx, SE_Main TimedOut, SE_AdminEnds EndedClosed,
     SE_Main (Completed 5)]"

definition hook_closing :: "unit serving" where
  "hook_closing = the (run_events (serve_step hook_daemon) closing_events hook_begin)"

definition hook_ended :: "unit serving" where
  "hook_ended = the (run_events (serve_step hook_daemon) ending_events hook_closing)"

lemma hook_runs:
  "case serve_begin hook_daemon of
     Inl _ \<Rightarrow> False
   | Inr s0 \<Rightarrow>
       (case run_events (serve_step hook_daemon) closing_events s0 of
          None \<Rightarrow> False
        | Some s \<Rightarrow> sv_phase s = PShutServer \<and> sv_server s = SReported \<and> readiness hook_daemon (sv_daemon s) = None \<and>
            (case ds_fires (sv_daemon s) of [(_, F_Running)] \<Rightarrow> True | _ \<Rightarrow> False) \<and>
            (case run_events (serve_step hook_daemon) ending_events s of
               None \<Rightarrow> False
             | Some t \<Rightarrow> sv_phase t = PReturned \<and> sv_waited t = 60000000005 \<and> sv_failure t = None \<and> sv_gave_up t))"
  by code_simp

lemma hook_begins: "serve_begin (New [hook_pipeline ''a''] zero_daemon_options) = Inr hook_begin"
  using hook_runs by (auto simp: hook_begin_def hook_daemon_def split: sum.splits)

lemma hook_closing:
  "run_events (serve_step hook_daemon) closing_events hook_begin = Some hook_closing"
  "sv_phase hook_closing = PShutServer" "sv_server hook_closing = SReported"
  "readiness hook_daemon (sv_daemon hook_closing) = None" "map snd (ds_fires (sv_daemon hook_closing)) = [F_Running]"
  using hook_runs hook_begins
  by (auto simp: hook_closing_def hook_daemon_def split: sum.splits option.splits list.splits prod.splits fire_pc.splits)

lemma hook_ended:
  "run_events (serve_step hook_daemon) ending_events hook_closing = Some hook_ended"
  "sv_phase hook_ended = PReturned" "sv_waited hook_ended = 60000000005" "sv_failure hook_ended = None"
  using hook_runs hook_begins hook_closing(1)
  by (auto simp: hook_ended_def hook_daemon_def split: sum.splits option.splits)

lemma hook_reachable:
  "reachable (\<lambda>s. serve_begin (New [hook_pipeline ''a''] zero_daemon_options) = Inr s)
     (serve_step (New [hook_pipeline ''a''] zero_daemon_options)) hook_closing"
  "reachable (\<lambda>s. serve_begin (New [hook_pipeline ''a''] zero_daemon_options) = Inr s)
     (serve_step (New [hook_pipeline ''a''] zero_daemon_options)) hook_ended"
proof -
  show c: "reachable (\<lambda>s. serve_begin (New [hook_pipeline ''a''] zero_daemon_options) = Inr s)
     (serve_step (New [hook_pipeline ''a''] zero_daemon_options)) hook_closing"
    using run_events_reachable [OF reachable.reachable_init hook_closing(1)] hook_begins by (simp add: hook_daemon_def)
  show "reachable (\<lambda>s. serve_begin (New [hook_pipeline ''a''] zero_daemon_options) = Inr s)
     (serve_step (New [hook_pipeline ''a''] zero_daemon_options)) hook_ended"
    using run_events_reachable [OF c] hook_ended(1) by (simp add: hook_daemon_def)
qed

lemma small_wf: "plan_wf small_plan"
  using ParseFile_valid [OF small_parses] small_compiles by (rule Compile_plan_wf)

section \<open>A scrape\<close>

text \<open>The numbers of a small daemon, written out.\<close>

definition demo_number :: "int \<Rightarrow> string" where
  "demo_number n = (if n = 0 then ''0'' else if n = 1 then ''1'' else if n = 256 then ''256'' else ''NaN'')"

lemma demo_number_plain: "plain (demo_number n)"
  by (simp add: demo_number_def plain_def)

lemma job_named: "length (dm_pipelines job_daemon) = 1" "pl_Name (dm_pipelines job_daemon ! 0) = ''job''"
  by (simp_all add: job_daemon_def New_def)

end
