(* ===== verification/Spec2Isabelle.thy ===== *)
theory Spec2Isabelle
  imports Demo_Life
begin

text \<open>
  p6e runs pipelines. A pipeline file names steps, the capability each uses, the steps it
  needs and optionally a trigger; it is compiled once into a plan, and a plan is executed
  once per event. A daemon loads a directory of such files, serves their triggers and keeps
  its own admission counters.

  \<^bold>\<open>Parts and theories.\<close>

  \<^item> \<open>Prelude\<close>: Go's integers and maps, transition systems and the locales
    \<open>transition_system\<close> and \<open>terminating_system\<close> every concurrent component instantiates.
  \<^item> \<open>Go_Types\<close>: Go types, TypeIDs and the registration maps
    (\<^verbatim>\<open>internal/node/types.go\<close>), the domain types (\<^verbatim>\<open>internal/nodes/types/types.go\<close>).
    A value of interface type is a \<open>payload\<close>.
  \<^item> \<open>Node\<close>: errors, descriptors, values, results and the typed adapters of
    \<^verbatim>\<open>internal/node\<close>; \<open>adapter_family\<close> is the contract of an adapted node.
  \<^item> \<open>Registry\<close>: the node and the trigger registry, both interpretations of
    \<open>capability_registry\<close>.
  \<^item> \<open>Config\<close>: the document, its validation and \<open>Parse\<close>
    (\<^verbatim>\<open>internal/pipeline/config.go\<close>, \<^verbatim>\<open>parser.go\<close>).
  \<^item> \<open>Compiler\<close>, \<open>Cycles\<close>, \<open>Plan\<close>: \<open>Compile\<close> with its phases, the depth-first search, and
    what a compiled plan guarantees (\<^verbatim>\<open>internal/pipeline/compiler.go\<close>, \<^verbatim>\<open>plan.go\<close>).
  \<^item> \<open>Executor\<close>: one step's attempts, retries and recording, and the mutation guard
    (\<^verbatim>\<open>internal/runtime/executor.go\<close>, \<^verbatim>\<open>state.go\<close>, \<^verbatim>\<open>mutation.go\<close>).
  \<^item> \<open>Scheduler\<close>, \<open>Run_Invariant\<close>, \<open>Run\<close>, \<open>Run_Types\<close>, \<open>Run_Safety\<close>: one run's coordinator
    as a transition system (\<^verbatim>\<open>internal/runtime/scheduler.go\<close>), its invariant, its outcome,
    the types of its values, and what it never does.
  \<^item> \<open>Trigger\<close>: descriptors, claims, the webhook and schedule triggers, signature checking
    (\<^verbatim>\<open>internal/trigger\<close>).
  \<^item> \<open>Load\<close>, \<open>Daemon\<close>, \<open>Gate\<close>, \<open>Serve\<close>: loading a directory, admission and bookkeeping at
    the granularity of atomic operations, the abstract admission gate it refines, and the
    HTTP replies (\<^verbatim>\<open>internal/daemon\<close>).
  \<^item> \<open>Lifecycle\<close>, \<open>Shutdown\<close>: \<open>Serve\<close> itself, as a transition system around the admission
    machine: the trigger loops, the two servers, the select and the order of the shutdown, its
    invariant, and that it can always end (\<^verbatim>\<open>internal/daemon/daemon.go\<close>). \<open>Admin\<close>: the admin
    endpoints and the text of the metrics (\<^verbatim>\<open>admin.go\<close>).
  \<^item> \<open>Node_Kit\<close>: the standard-library functions the built-in nodes call (\<open>Index\<close>, \<open>Split\<close>,
    \<open>TrimSpace\<close>, \<open>ParseBool\<close>, \<open>ParseInt\<close>) and what a sound constructor is.
  \<^item> \<open>Nodes_Data\<close>, \<open>Nodes_Json\<close>, \<open>Nodes_Exec\<close>, \<open>Nodes_Http\<close>: the built-in nodes of
    \<^verbatim>\<open>internal/nodes\<close>: constants, environment and templates; documents, paths, conditions
    and assertions; processes; requests, their destination policy and responses.
  \<^item> \<open>Builtin_Nodes\<close>: the list of definitions and its registry (\<^verbatim>\<open>nodes.go\<close>), over a record
    of the outside library. \<open>Demo_Nodes\<close>: a pipeline and single nodes over that registry.
  \<^item> \<open>System\<close>: the facts that span compiler, run, trigger and daemon. \<open>Demo\<close>: a concrete
    pipeline, run, daemon and requests, on which the properties are exercised.
  \<^item> \<open>Cli\<close>, \<open>Cli_Facts\<close>: the command line (\<^verbatim>\<open>cmd/p6e/main.go\<close>, \<^verbatim>\<open>serve.go\<close>): arguments,
    inputs, the verbs with what they print and their exit codes, over a record of what the host
    answers, and what an exit code means. \<open>Demo_Life\<close>: a host with one pipeline file, and a
    daemon that is stopped while it answers a request.

  \<^bold>\<open>How the model corresponds to the code.\<close> A struct is a record, a map an association list
  read through \<open>map_of\<close>, an integer whose width matters a word, an error a sum. Definitions
  keep the names of the functions they translate. A run is \<open>sched_step\<close>: an event is one
  thing the coordinator can receive (a completion, a slot, the timer, a cancellation) or one
  move of a step's goroutine, so every interleaving of them is a sequence of events. A daemon
  is \<open>daemon_step\<close>: each admission call has a program counter and an event is its next atomic
  operation. \<open>Serve\<close> is \<open>serve_step\<close>: a phase of the coordinator, the loops and servers around it,
  and the daemon inside. The clock, the node's own outcome and the choice of a ready \<open>select\<close> arm are
  observations an event carries.

  \<^bold>\<open>What is shown.\<close> Runs: outcome, type safety, the invariant of steps in flight, absence of
  deadlock, termination, no work after a stop, the retry policy, and no false alarm of the
  mutation guard (C1 to C8). Compilation: well-formed, well-typed plans with the bindings the
  file names, refusal of cycles, bounded trigger blocks (C9 to C13). Triggers and serving:
  replies, authenticity of events, uniform refusals, a limit that overflows (C14 to C17).
  Loading: accounting of a load, contested claims, agreement of checking a directory with
  checking its files (C18 to C20). The daemon: refinement of the gate, exact counters, finality
  and termination of a drain, quarantine, the life of \<open>Serve\<close> and that it can always end, and
  the text of the metrics read back (C21 to C28). The command line: what success of a run means,
  the types of its inputs, and the language of its arguments (C31 to C33). Further theorems,
  with no number, are about parsing, the built-in triggers, routing, readiness, label escaping,
  environment variables and status intervals.
  Built-in nodes: the registry and the soundness of every node it builds, which discharges
  the assumption on nodes of the results on runs; the meaning of templates, exact integers
  out of documents, agreement of conditions and getters about a
  path, the outcome of processes, body limits, headers and the destination policy of HTTP
  (C29, C30 and C34 to C40).

  \<^bold>\<open>Bounds and fuel.\<close> The search of \<open>checkCycles\<close> carries fuel equal to the number of steps
  plus one, which \<open>Cycles\<close> shows is never exhausted. Retrying is a terminating function of
  the attempts left. Machine integers that can wrap (durations, body limits) are 64-bit
  words; counters bounded by the number of runs are integers. The time \<open>Serve\<close> waits is the sum
  of what its bounded waits took, an integer of nanoseconds.

  \<^bold>\<open>Not modelled.\<close> Library code is a parameter: the YAML decoder, \<open>ParseDuration\<close>, HMAC, the
  environment, the file system. The text of a message is its format and arguments. Logging
  and sockets are input and output only; a server's accepting, failing and shutting down, a
  signal, a tick and a client's request are events. How \<open>ServeMux\<close> matches a route's pattern and
  how \<open>%g\<close> writes a number are library code as well. A panic of a trigger loop ends that loop, as
  returning does. \<open>ToUpper\<close> and \<open>ToLower\<close> cover the ASCII letters. A reader of a body gives its
  error in a read of its own, never together with the last bytes it delivers. The text of the
  metrics is rendered from one state, where the code loads each counter by itself.
  For the built-in nodes the parameters are \<open>encoding/json\<close>, \<open>url.Parse\<close>, \<open>ParseIP\<close>, the HTTP
  client's \<open>Do\<close>, the running of a process, the order in which a map is iterated, and the
  conversion of a float outside the range of an integer, which Go leaves open. For the
  command line they are the file system, \<open>time.Parse\<close>, and what \<open>Run\<close> and \<open>Serve\<close> return, which
  C31 ties to a finished run of the coordinator; the usage text is one fragment, and the text
  form of a duration is the rounded number.
\<close>

section \<open>Runs\<close>

text \<open>
  C1: what a run that returned reports. There is one result per step, under the step's name.
  Every step is succeeded, failed, cancelled or skipped, carries an error exactly when it
  failed or was cancelled and a value only when it succeeded; a step that ran had all its
  dependencies succeed; the failed step, when one is named, did fail and the run then counts
  as failed rather than cancelled; and a run that is neither failed nor cancelled has every
  step succeeded and nothing abandoned.
\<close>

theorem run_outcome:
  assumes "reachable (starts_run p) sched_step s" "s_pc s = Returned"
  shows "outcome_ok p (s_ex s)"
  using runs.reachable_inv [OF assms(1)] assms(2) by (simp add: run_inv_def)

theorem run_outcome_witness: "outcome_ok demo_plan (s_ex demo_final) \<and> \<not> Execution_Failed (s_ex demo_final)"
  using run_outcome [OF demo_reachable demo_finishes(2)] demo_finishes(3) by simp

text \<open>
  C2: type soundness of execution. Over a typed plan, whatever the interleaving, every value
  a succeeded step holds is a non-nil value of the type the compiler assigned to the step,
  every running step reads exactly the values of the steps it depends on, and no step ever
  fails with a type or arity mismatch.
\<close>

theorem run_type_safe:
  assumes "typed_plan tt ty p" "reachable (\<lambda>s. typed_plan tt ty p \<and> starts_typed tt p s) sched_step s"
  shows "(\<forall>i<nsteps p. st s i = StateSucceeded \<longrightarrow> fits tt (ty i) (val s i)) \<and>
    (\<forall>i\<in>set (g_running s). input_slice s i = map (val s) (deps p i)) \<and>
    (\<forall>i<nsteps p. \<forall>e. sr_Err (ex_Steps (s_ex s) ! i) = Some e \<longrightarrow> \<not> engine_error e)"
proof -
  have inv: "run_inv p s" "typed_inv tt ty p s" using typed_runs.reachable_inv [OF assms(2)] by blast+
  note T = inv(2) [unfolded typed_inv_def]
  have "\<forall>i\<in>set (g_running s). input_slice s i = map (val s) (deps p i)"
    using T running_started [OF inv(1)] by blast
  with T show ?thesis by blast
qed

theorem run_type_safe_witness:
  "\<exists>ty :: nat \<Rightarrow> gotype. fits domain_table (ty 1) (val demo_final 1) \<and>
     (\<forall>i<nsteps demo_plan. \<forall>e. sr_Err (ex_Steps (s_ex demo_final) ! i) = Some e \<longrightarrow> \<not> engine_error e)"
proof -
  obtain ty where ty: "typed_plan domain_table ty demo_plan" using served_by_facts(3) [OF demo_served] by blast
  have "reachable (\<lambda>s. typed_plan domain_table ty demo_plan \<and> starts_typed domain_table demo_plan s) sched_step demo_start"
    by (rule reachable_init) (use ty demo_starts_typed in blast)
  from run_type_safe [OF ty run_events_reachable [OF this demo_finishes(1)]]
  have ok: "\<forall>i<nsteps demo_plan. st demo_final i = StateSucceeded \<longrightarrow> fits domain_table (ty i) (val demo_final i)"
    "\<forall>i<nsteps demo_plan. \<forall>e. sr_Err (ex_Steps (s_ex demo_final) ! i) = Some e \<longrightarrow> \<not> engine_error e"
    by blast+
  from ok(1) have "fits domain_table (ty 1) (val demo_final 1)" using demo_steps by simp
  with ok(2) show ?thesis by blast
qed

text \<open>
  C3: at every moment of a run the steps in flight are distinct steps that are not inputs,
  each with every dependency succeeded; never more than the run's own limit are in flight,
  and the slots all runs hold together never exceed the shared pool.
\<close>

theorem run_in_flight:
  assumes "reachable (starts_run p) sched_step s" "s_pc s \<noteq> Returned"
  shows "distinct (act s) \<and> int (length (act s)) \<le> s_maxConcurrency s \<and>
    own_slots s + pool_others s \<le> pool_cap s \<and>
    (\<forall>i\<in>set (act s). i < nsteps p \<and> \<not> is_input p i \<and> st s i = StateRunning \<and>
       (\<forall>d\<in>set (deps p i). st s d = StateSucceeded))"
proof -
  have core: "core p {} True s" using runs.reachable_inv [OF assms(1)] assms(2) by (simp add: run_inv_def)
  show ?thesis using in_flight [OF core] by blast
qed

theorem run_in_flight_witness:
  "1 \<in> set (act demo_midway) \<and> st demo_midway 1 = StateRunning \<and>
   list_all (\<lambda>d. st demo_midway d = StateSucceeded) (deps demo_plan 1) \<and>
   own_slots demo_midway + pool_others demo_midway \<le> pool_cap demo_midway"
  unfolding list_all_iff using run_in_flight [OF demo_midway_reachable demo_midway(2)] demo_midway(3) by blast

text \<open>
  C4: a run is never stuck. As long as it has not returned, one of its own events is enabled,
  or it waits for a slot that a finished step or another run is about to release; and from
  wherever it is, some continuation makes it return.
\<close>

theorem run_never_stuck:
  assumes "reachable (starts_run p) sched_step s" "s_pc s \<noteq> Returned"
  shows "((\<exists>e t. sched_step e s = Some t \<and> run_event e) \<or> sched_step StepReleases s \<noteq> None \<or>
      sched_step OtherReleases s \<noteq> None) \<and>
    (\<exists>es t. run_events sched_step es s = Some t \<and> s_pc t = Returned)"
proof -
  have wf: "plan_wf p" and inv: "run_inv p s" using runs.reachable_inv [OF assms(1)] by blast+
  show ?thesis using run_progress [OF inv assms(2)] run_completes [OF wf inv] by blast
qed

theorem run_never_stuck_witness:
  "\<exists>es t. run_events sched_step es demo_start = Some t \<and> s_pc t = Returned"
  using run_never_stuck [OF demo_start_reachable demo_start_running] by blast

text \<open>
  C5: every run ends. From its start it makes at most five moves per step of the plan and
  four more, whatever the nodes do and however the moves are interleaved with the rest of
  the process.
\<close>

theorem run_terminates:
  assumes "starts_run p s" "run_events sched_step es s = Some t"
  shows "length (filter run_event es) \<le> 5 * nsteps p + 4"
  using runs.run_length_bounded [OF runs.inv_init [OF assms(1)] assms(2)] starts_work [OF assms(1)] by linarith

theorem run_terminates_witness: "length (filter run_event demo_events) \<le> 5 * nsteps demo_plan + 4"
  by (rule run_terminates [OF demo_starts demo_finishes(1)])

text \<open>
  C6: a run that stopped, because a step failed or its caller gave up, starts no further
  step: from then on the list of started steps never changes.
\<close>

theorem stopped_starts_nothing:
  assumes "s_stopped s" "run_events sched_step es s = Some t"
  shows "started t = started s"
proof -
  have "halted (started s) s" using assms(1) by (simp add: halted_def)
  from stopped_runs.run_events_inv [OF this assms(2)] show ?thesis by (simp add: halted_def)
qed

theorem stopped_starts_nothing_witness:
  "s_stopped (demo_start\<lparr>s_stopped := True\<rparr>) \<and>
   started (the (run_events sched_step [ContextEnds, Top demo_obs] (demo_start\<lparr>s_stopped := True\<rparr>))) =
   started (demo_start\<lparr>s_stopped := True\<rparr>)"
proof -
  have "s_pc demo_start = AtTop" using demo_start_running demo_finishes(1) by (cases "s_pc demo_start") (auto simp: demo_events_def)
  then have "run_events sched_step [ContextEnds, Top demo_obs] (demo_start\<lparr>s_stopped := True\<rparr>) \<noteq> None" by simp
  then obtain t where t: "run_events sched_step [ContextEnds, Top demo_obs] (demo_start\<lparr>s_stopped := True\<rparr>) = Some t" by blast
  have "s_stopped (demo_start\<lparr>s_stopped := True\<rparr>)" by simp
  from stopped_starts_nothing [OF this t] t show ?thesis by simp
qed

text \<open>
  C7: what running one step does, for every retry policy and every behaviour of the node. It
  ends at some attempt: every earlier attempt failed retryably below the limit and was
  followed by an undisturbed wait of the backoff, doubled each time in 64-bit arithmetic. The
  result is that attempt's own when it succeeded, failed for good or was the last one
  allowed; otherwise the wait was cut short and the step is cancelled.
\<close>

theorem step_retries:
  "\<exists>k\<ge>1. (\<forall>j. 1 \<le> j \<and> j < k \<longrightarrow> retries obs step ec inputs j \<and> j < rt_MaxAttempts (cs_Retry step) \<and>
        waited obs j (rt_Backoff (cs_Retry step) * 2 ^ nat (j - 1)) = None) \<and>
     (let r = attempt_result obs step ec inputs k in
        runStep obs step ec inputs = r \<and> (\<not> retries obs step ec inputs k \<or> k \<ge> rt_MaxAttempts (cs_Retry step)) \<or>
        retries obs step ec inputs k \<and> k < rt_MaxAttempts (cs_Retry step) \<and>
          (\<exists>err. waited obs k (rt_Backoff (cs_Retry step) * 2 ^ nat (k - 1)) = Some err \<and>
             runStep obs step ec inputs = \<lparr>rv_Value = zero_value,
               rv_Err = Normalize (Some (ctx_error err)) ''cancelled'', rv_Meta = rv_Meta r\<rparr>))"
  using runStep_from_stops [of 1 obs step ec inputs "rt_Backoff (cs_Retry step)"] unfolding runStep_def Let_def by blast

theorem step_retries_witness:
  "\<exists>k\<ge>1. \<forall>j. 1 \<le> j \<and> j < k \<longrightarrow> j < rt_MaxAttempts (cs_Retry (p_Steps demo_plan ! 1))"
  using step_retries [of demo_obs "p_Steps demo_plan ! 1" zero_context "[]"] by blast

text \<open>
  C8: the mutation guard raises no false alarm: a run during which nothing reachable from a
  step's output is written reports no violation.
\<close>

theorem guard_no_false_alarm:
  assumes "reachable (starts_run p) still_step s" "s_pc s = Returned"
  shows "ex_Mutations (s_ex s) = []"
  using still_runs.reachable_inv [OF assms(1)] assms(2) by (simp add: guarded_def)

theorem guard_no_false_alarm_witness: "ex_Mutations (s_ex demo_final) = []"
proof -
  have steps: "run_events still_step es s = run_events sched_step es s" if "list_all still es" for es and s :: "unit scheduler"
    using that by (induction es arbitrary: s) (auto simp: still_step_def split: option.splits)
  have "list_all still demo_events" by (simp add: demo_events_def)
  with demo_finishes(1) have "run_events still_step demo_events demo_start = Some demo_final" by (simp add: steps)
  moreover have "reachable (starts_run demo_plan) still_step demo_start" by (rule reachable_init) (rule demo_starts)
  ultimately have "reachable (starts_run demo_plan) still_step demo_final" by (rule run_events_reachable [rotated])
  from guard_no_false_alarm [OF this demo_finishes(2)] show ?thesis .
qed

section \<open>Compilation\<close>

text \<open>
  C9: a document that passes validation and compiles gives a well-formed plan: inputs come
  first and have no dependencies, names are distinct, every dependency is a step of the
  plan, each node has one dependency per port, the dependents are exactly the reverse edges,
  the roots are exactly the steps that wait for nothing, the input buffer is laid out
  without overlap, retries are bounded, and the dependency graph has no cycle.
\<close>

theorem compiled_plan_wf:
  assumes "valid_file f" "Compile tt f reg name = Inr p"
  shows "plan_wf p"
  using assms by (rule Compile_plan_wf)

theorem compiled_plan_wf_witness: "plan_wf demo_plan"
  by (rule compiled_plan_wf [OF demo_valid demo_compiles])

text \<open>
  C10: a compiled plan is typed. When the registered nodes are what their descriptors say,
  there is an assignment of Go types to steps under which every node's ports have the types
  of the steps bound to them, its output has the step's type, and every declared input has
  the type it was declared with.
\<close>

theorem compiled_plan_typed:
  assumes "Compile tt f reg name = Inr p" "good_types tt" "sound_nodes tt (nodes_of reg)"
  shows "\<exists>ty. plan_typed tt p ty"
  by (rule Compile_typed [OF assms])

theorem compiled_plan_typed_witness: "\<exists>ty. plan_typed domain_table demo_plan ty"
  by (rule compiled_plan_typed [OF demo_compiles domain_good demo_sound])

text \<open>
  C11: the compiler binds what the file says. Every step of a compiled plan that runs a node
  comes from the file's step of that name, and its dependencies are, port by port, the steps
  the file binds to those ports: by name when the needs are named, by position otherwise, and
  then only when no two ports share a type.
\<close>

theorem compiled_bindings:
  assumes "Compile tt f reg name = Inr p" "i < Plan_Len p" "cs_Node (p_Steps p ! i) = Some n"
  shows "\<exists>step. map_of (f_Steps f) (cs_ID (p_Steps p ! i)) = Some step \<and> binds (st_Needs step) (rn_Descriptor n) \<and>
    map (\<lambda>d. cs_ID (p_Steps p ! d)) (cs_Deps (p_Steps p ! i)) =
      map (bound_step (st_Needs step) (rn_Descriptor n)) [0..<Arity (rn_Descriptor n)]"
  by (rule Compile_binding [OF assms]) blast

theorem compiled_bindings_witness:
  "\<exists>n step. cs_Node (p_Steps demo_plan ! 1) = Some n \<and>
     map_of (f_Steps demo_file) (cs_ID (p_Steps demo_plan ! 1)) = Some step \<and> binds (st_Needs step) (rn_Descriptor n)"
proof -
  have i: "1 < Plan_Len demo_plan" using demo_steps by (simp add: Plan_Len_def)
  obtain n where n: "cs_Node (p_Steps demo_plan ! 1) = Some n" using demo_node by blast
  from compiled_bindings [OF demo_compiles i n] n show ?thesis by blast
qed

text \<open>
  C12: a document whose needs form a cycle never compiles, and the problems reported include
  one of its cycles: names, each needing the next, that end where they began.
\<close>

theorem cycle_refused:
  assumes "valid_file f" "\<not> acyclic (needs_rel f)"
  shows "\<exists>ps names. Compile tt f reg name = Inl ps \<and>
    problem '''' ''dependency cycle: %s'' [AQuoted names] \<in> set ps \<and> 2 \<le> length names \<and> hd names = last names \<and>
    successively (\<lambda>a b. (a, b) \<in> needs_rel f) names"
  by (rule Compile_cycle [OF assms])

theorem cycle_refused_witness: "\<exists>ps. Compile domain_table loop_file demo_reg ''loop'' = Inl ps"
  using cycle_refused [OF loop_file, of domain_table demo_reg "''loop''"] by blast

text \<open>
  C13: the trigger block of a compiled plan, over a domain with no type of the empty name. The
  plan has a trigger exactly when the document has one; every input the document declares, and
  every input of the plan, is provided by the trigger at its declared type; a trigger that
  holds a connection has a positive timeout; the overlap policy is one of the two; and the
  answering step, when there is one, exists, runs a node and produces a type the trigger can
  write.
\<close>

theorem compiled_trigger:
  assumes "valid_file f" "Compile tt f reg name = Inr p" "LookupType tt '''' = None"
  shows "(p_Trigger p = None \<longleftrightarrow> f_Trigger f = None) \<and>
    (\<forall>tb. p_Trigger p = Some tb \<longrightarrow> trigger_wf p tb \<and>
       (\<forall>x ty. map_of (f_Inputs f) x = Some ty \<longrightarrow> Provided (tr_Descriptor (tb_Trigger tb)) x = Some ty))"
proof -
  have wf: "trigger_wf p tb" if "p_Trigger p = Some tb" for tb by (rule Compile_trigger(2) [OF assms(2) that assms(1,3)])
  have "Provided (tr_Descriptor (tb_Trigger tb)) x = Some ty"
    if "p_Trigger p = Some tb" "map_of (f_Inputs f) x = Some ty" for tb x ty
    using wf [OF that(1)] that(2) unfolding Compile_inputs [OF assms(2)] trigger_wf_def by (metis in_set_conv_nth)
  with wf Compile_trigger(1) [OF assms(2)] show ?thesis by blast
qed

theorem compiled_trigger_witness:
  "p_Trigger demo_plan = Some demo_binding \<and> trigger_wf demo_plan demo_binding \<and>
   Provided (tr_Descriptor (tb_Trigger demo_binding)) ''body'' = Some ''Bytes''"
proof -
  have "LookupType domain_table '''' = None" using domain_good by (simp add: good_types_def)
  moreover have "map_of (f_Inputs demo_file) ''body'' = Some ''Bytes''" by (simp add: demo_file_def)
  ultimately show ?thesis using compiled_trigger [OF demo_valid demo_compiles] demo_trigger by blast
qed

text \<open>
  What parsing guarantees. A document that parses was read whole, within the size limit,
  and satisfies the schema: the supported version, at least one step, no name that is both an
  input and a step, and for every step a capability, retries between one and the maximum, and
  no dependency on itself.
\<close>

theorem parsed_file_valid:
  assumes "Parse decode (Inr stream) = Inr f"
  shows "decode stream = Inr f \<and> length stream \<le> MaxPipelineBytes \<and> valid_file f"
  using Parse_whole [OF assms] Parse_valid [OF assms] by blast

theorem parsed_file_valid_witness: "valid_file demo_file \<and> length ''version: 1'' \<le> MaxPipelineBytes"
proof -
  have "Parse (\<lambda>_. Inr demo_file) (Inr ''version: 1'') = Inr demo_file"
    using demo_valid unfolding validate_None_iff [symmetric] by (simp add: Parse_def MaxPipelineBytes_def)
  from parsed_file_valid [OF this] show ?thesis by blast
qed

section \<open>From a request to its answer\<close>

text \<open>
  C14: an event a built-in webhook accepts can be run and answered. For a served pipeline the
  event supplies every declared input at its declared type; and whatever the interleaving of
  the run it starts, when that run ends without failing the reply is 200. When the pipeline
  names no answering step the reply has no body; when it names one, that step succeeded with a
  value of bytes or of text, and the body is exactly its bytes.
\<close>

theorem webhook_answered:
  assumes "served_by tt hmac reg f p tb" "tr_HTTPDriven (tb_Trigger tb) = Some h" "ht_Values h getenv r = Inr vals"
    and "reachable (starts_with p vals) sched_step u" "s_pc u = Returned" "\<not> Execution_Failed (s_ex u)"
  shows "(\<forall>i<length (p_Inputs p). rv_Err (supply_input vals (p_Inputs p ! i)) = None) \<and>
    (\<exists>body. respond_reply h (outcomeOf (s_ex u) (tb_RespondStep tb)) = \<lparr>rp_Status = 200, rp_Body = body\<rparr> \<and>
       (tb_RespondStep tb < 0 \<longrightarrow> body = NoBody) \<and>
       (0 \<le> tb_RespondStep tb \<longrightarrow> st u (nat (tb_RespondStep tb)) = StateSucceeded \<and>
          (\<exists>b. v_ref (val u (nat (tb_RespondStep tb))) \<in> {Some (PBytes b), Some (PText b)} \<and> body = BodyBytes b)))"
proof -
  have "event_of tt (tb_Trigger tb) vals" using assms(2,3) by (auto simp: event_of_def)
  then have "\<forall>i<length (p_Inputs p). rv_Err (supply_input vals (p_Inputs p ! i)) = None"
    using event_supplies_inputs [OF assms(1)] by force
  moreover obtain ty where "typed_plan tt ty p" "run_inv p u" "typed_inv tt ty p u"
    by (rule webhook_run_typed [OF assms(1-4)])
  ultimately show ?thesis using success_reply [OF assms(1,2) _ _ _ assms(5,6)] by blast
qed

theorem webhook_answered_witness:
  "respond_reply demo_driven (outcomeOf (s_ex event_final) (tb_RespondStep demo_binding)) =
     \<lparr>rp_Status = 200, rp_Body = BodyBytes ''hi''\<rparr>"
proof -
  have "starts_with demo_plan demo_values event_start"
    unfolding starts_with_def event_start_def
    by (intro exI [of _ demo_env] exI [of _ "demo_options\<lparr>op_Inputs := demo_values\<rparr>"] exI [of _ "''fresh''"] conjI)
      (simp_all add: demo_env_def)
  then have "reachable (starts_with demo_plan demo_values) sched_step event_start" by (rule reachable_init)
  then have "reachable (starts_with demo_plan demo_values) sched_step event_final"
    using event_finishes(1) by (rule run_events_reachable)
  from webhook_answered [OF demo_served demo_driven demo_accepted this event_finishes(2,3)]
  show ?thesis using demo_http(2) event_finishes(4) by auto
qed

text \<open>
  C15: what an accepted webhook event proves. Below the largest limit the event carries the
  whole body, within the configured limit, and when the trigger authenticates, the secret was
  set and the request carried the keyed hash of exactly that body, in either letter case,
  after the configured prefix.
\<close>

theorem webhook_event_authentic:
  assumes "webhook_Values tt hmac w getenv r = Inr vals" "0 \<le> sint (wh_maxBody w)" "wh_maxBody w \<noteq> 9223372036854775807"
  shows "map_of vals ''body'' = Some (NewValue tt (PBytes (hr_Body r))) \<and> int (length (hr_Body r)) \<le> sint (wh_maxBody w) \<and>
    (\<forall>v. wh_auth w = Some v \<longrightarrow> getenv (vf_secretEnv v) \<noteq> '''' \<and>
       (\<exists>digest. hr_Header_Get r (vf_header v) = vf_prefix v @ digest \<and>
          ToLower digest = hex_EncodeToString (hmac (getenv (vf_secretEnv v)) (hr_Body r))))"
proof -
  have whole: "map_of vals ''body'' = Some (NewValue tt (PBytes (hr_Body r)))" "int (length (hr_Body r)) \<le> sint (wh_maxBody w)"
    using webhook_body_whole [OF assms(1,3,2)] by simp_all
  from assms(1) obtain body where body: "map_of vals ''body'' = Some (NewValue tt (PBytes body))"
    "\<forall>v. wh_auth w = Some v \<longrightarrow> verify hmac getenv v r body = None"
    by (auto simp: webhook_Values_Inr)
  then have "body = hr_Body r" using whole(1) by (simp add: NewValue_def)
  with body(2) whole show ?thesis by (auto simp: verify_None_iff)
qed

theorem webhook_event_authentic_witness:
  "\<exists>vals. webhook_Values domain_table demo_hmac (demo_hook (Some demo_verifier)) (\<lambda>_. ''k'') (demo_signed ''SIG=6B68'') = Inr vals \<and>
     map_of vals ''body'' = Some (NewValue domain_table (PBytes ''hi''))"
proof -
  obtain vals where v: "webhook_Values domain_table demo_hmac (demo_hook (Some demo_verifier)) (\<lambda>_. ''k'') (demo_signed ''SIG=6B68'') = Inr vals"
    using demo_signed_accepted by blast
  have "0 \<le> sint (wh_maxBody (demo_hook (Some demo_verifier)))" "wh_maxBody (demo_hook (Some demo_verifier)) \<noteq> 9223372036854775807"
    by (simp_all add: demo_hook_def)
  from webhook_event_authentic [OF v this] v show ?thesis by (simp add: demo_signed_def demo_request_def)
qed

text \<open>
  C16: a rejected caller learns nothing. Whatever made the signature check fail, a missing
  header, a wrong prefix or a wrong digest, the reply is the same 401 with the same body, and
  it does not depend on what running the pipeline would have done: nothing is run.
\<close>

theorem unauthorized_uniform:
  assumes "read_limited (wh_maxBody w + 1) (hr_Body r) (hr_Body_Err r) = Inr body"
    "int (length body) \<le> sint (wh_maxBody w)"
    and "wh_auth w = Some v" "getenv (vf_secretEnv v) \<noteq> ''''" "verify hmac getenv v r body \<noteq> None"
    and "tr_HTTPDriven (webhook_Trigger tt hmac w) = Some driven"
  shows "handle_request driven getenv fire r = http_Error (Sprintf ''unauthorized'' []) 401"
  by (rule webhook_verify_reply [OF assms])

theorem unauthorized_uniform_witness:
  "handle_request (the (tr_HTTPDriven (webhook_Trigger domain_table demo_hmac (demo_hook (Some demo_verifier)))))
     (\<lambda>_. ''k'') (\<lambda>_. Panics ''never called'') (demo_signed ''SIG=0000'') = http_Error (Sprintf ''unauthorized'' []) 401"
proof (rule unauthorized_uniform)
  show "read_limited (wh_maxBody (demo_hook (Some demo_verifier)) + 1) (hr_Body (demo_signed ''SIG=0000''))
      (hr_Body_Err (demo_signed ''SIG=0000'')) = Inr ''hi''" by code_simp
  show "verify demo_hmac (\<lambda>_. ''k'') demo_verifier (demo_signed ''SIG=0000'') ''hi'' \<noteq> None" by code_simp
qed (simp_all add: demo_hook_def webhook_Trigger_def)

text \<open>
  C17: the largest limit loses the body. A webhook configured with the largest 64-bit limit
  accepts every unauthenticated request and hands the pipeline an empty body, because the
  limit plus one wraps around.
\<close>

theorem webhook_limit_overflow:
  "\<exists>vals. webhook_Values tt hmac (w\<lparr>wh_maxBody := 9223372036854775807, wh_auth := None\<rparr>) getenv r = Inr vals \<and>
     map_of vals ''body'' = Some (NewValue tt (PBytes []))"
  by (rule webhook_body_lost) simp_all

text \<open>
  The built-in triggers register without conflict under exactly their two names, and
  whatever either of them builds supplies, with every event, each port it describes at the
  type it describes.
\<close>

theorem builtin_triggers:
  "\<exists>reg. Builtins tt hmac pd dw ds = Inr reg \<and> set (trigger_Names reg) = {WebhookName, ScheduleName} \<and>
     (\<forall>name d new cfg t. trigger_Resolve name reg = Inr d \<and> def_New d = Some new \<and> new cfg = Inr (Some t) \<longrightarrow>
        honest_trigger tt t)"
proof -
  obtain reg where reg: "Builtins tt hmac pd dw ds = Inr reg" using Builtins_total by blast
  have "set (trigger_Names reg) = def_Name ` set (trigger_Definitions tt hmac pd dw ds)"
    using reg unfolding Builtins_def trigger_MustRegister_all_build by (rule trigger_registry.build_names)
  then have "set (trigger_Names reg) = {WebhookName, ScheduleName}" by (simp add: trigger_Definitions_def)
  with reg Builtins_honest [OF reg] show ?thesis by blast
qed

theorem builtin_triggers_witness:
  "\<exists>reg. Builtins domain_table demo_hmac (\<lambda>_. Inr 1000000) (\<lambda>_. Inr demo_webhook) (\<lambda>_ :: unit. Inr ''1ms'') = Inr reg \<and>
     set (trigger_Names reg) = {WebhookName, ScheduleName}"
  using builtin_triggers [of domain_table demo_hmac "\<lambda>_. Inr 1000000" "\<lambda>_. Inr demo_webhook" "\<lambda>_ :: unit. Inr ''1ms''"] by blast

section \<open>Loading a directory\<close>

text \<open>
  C18: loading loses nothing. Every file of the directory that looks like a pipeline is
  served, rejected with a reason, or reported as untriggered; a served one is not also
  rejected or untriggered, it was compiled from its own file and declares a trigger; and no
  two served pipelines claim the same thing.
\<close>

theorem load_accounts:
  assumes "Load tt reg path_of ParseFile order (Inr es) = Inr L"
    and "claim_order order (load_candidates tt reg path_of ParseFile es)" "inj_on (path_of \<circ> de_Name) (set es)"
  shows "(\<forall>e\<in>set es. is_pipeline_entry e \<longrightarrow>
       path_of (de_Name e) \<in> pl_Path ` set (ld_Served L) \<union> rj_Path ` set (ld_Rejected L) \<union> set (ld_Untriggered L)) \<and>
    (\<forall>p\<in>set (ld_Served L). pl_Path p \<notin> rj_Path ` set (ld_Rejected L) \<and> pl_Path p \<notin> set (ld_Untriggered L) \<and>
       (\<exists>f tb. ParseFile (pl_Path p) = Inr f \<and> Compile tt f reg (pl_Name p) = Inr (pl_Plan p) \<and>
          p_Trigger (pl_Plan p) = Some tb)) \<and>
    distinct (map pipeline_Claim (filter (\<lambda>p. \<not> Claim_IsZero (pipeline_Claim p)) (ld_Served L)))"
proof (intro conjI ballI impI)
  fix e assume "e \<in> set es" "is_pipeline_entry e"
  then show "path_of (de_Name e) \<in> pl_Path ` set (ld_Served L) \<union> rj_Path ` set (ld_Rejected L) \<union> set (ld_Untriggered L)"
    by (rule Load_accounts [OF assms(1,2)])
next
  fix p assume p: "p \<in> set (ld_Served L)"
  show "pl_Path p \<notin> rj_Path ` set (ld_Rejected L)" "pl_Path p \<notin> set (ld_Untriggered L)"
    using Load_served_once [OF assms p] by blast+
  show "\<exists>f tb. ParseFile (pl_Path p) = Inr f \<and> Compile tt f reg (pl_Name p) = Inr (pl_Plan p) \<and>
      p_Trigger (pl_Plan p) = Some tb"
    using Load_served [OF assms(1) p] by metis
qed (rule Load_claims_distinct [OF assms(1)])

theorem load_accounts_witness:
  "\<exists>f. demo_parse (pl_Path demo_pipeline) = Inr f \<and> Compile domain_table f demo_reg ''demo'' = Inr demo_plan"
proof -
  have "inj_on (demo_path \<circ> de_Name) (set demo_entries)" by (simp add: demo_entries_def demo_path_def)
  from load_accounts [OF demo_load demo_claim_order this] show ?thesis
    by (auto simp: demo_loaded_def demo_pipeline_def)
qed

text \<open>
  C19: two pipelines that claim the same thing are both turned away: whatever the order in
  which the claims are visited, each is rejected with the claim and the paths of the others.
\<close>

theorem claims_contested:
  assumes "claim_order order cs" "p \<in> set cs" "q \<in> set cs" "pl_Path p \<noteq> pl_Path q"
    and "pipeline_Claim p = pipeline_Claim q" "\<not> Claim_IsZero (pipeline_Claim p)"
  shows "p \<notin> set (fst (resolveClaims order cs)) \<and>
    (\<exists>r others. r \<in> set (snd (resolveClaims order cs)) \<and> rj_Path r = pl_Path p \<and>
       rj_Err r = ClaimCollision (pipeline_Claim p) others \<and> pl_Path q \<in> set others \<and> pl_Path p \<notin> set others)"
proof -
  have two: "contested cs p" by (rule contested_pair [OF assms(2-6)])
  then have "collision cs p \<in> set (snd (resolveClaims order cs))"
    using assms(2) by (simp add: set_collisions [OF assms(1)])
  moreover have "pl_Path q \<in> pl_Path ` set (claimants cs (pipeline_Claim p))"
    using assms(3,5,6) by (simp add: claimants_def)
  ultimately have "\<exists>r others. r \<in> set (snd (resolveClaims order cs)) \<and> rj_Path r = pl_Path p \<and>
      rj_Err r = ClaimCollision (pipeline_Claim p) others \<and> pl_Path q \<in> set others \<and> pl_Path p \<notin> set others"
    using assms(4) by (intro exI [of _ "collision cs p"]) (auto simp: collision_def)
  moreover have "p \<notin> set (fst (resolveClaims order cs))" using two by (simp add: resolveClaims_def)
  ultimately show ?thesis by blast
qed

theorem claims_contested_witness:
  "hook_pipeline ''a'' \<notin> set (fst (resolveClaims [webhook_Claim (demo_hook None)] [hook_pipeline ''a'', hook_pipeline ''b'']))"
proof -
  have c: "pipeline_Claim (hook_pipeline x) = webhook_Claim (demo_hook None)" for x
    by (simp add: hook_pipeline_def pipeline_Claim_def pipeline_Trigger_def webhook_Trigger_def)
  have nz: "\<not> Claim_IsZero (webhook_Claim (demo_hook None))" by (simp add: Claim_IsZero_def webhook_Claim_def)
  have "claim_order [webhook_Claim (demo_hook None)] [hook_pipeline ''a'', hook_pipeline ''b'']"
    using nz by (auto simp: claim_order_def c intro!: exI [of _ "hook_pipeline ''a''"])
  from claims_contested [OF this, of "hook_pipeline ''a''" "hook_pipeline ''b''"] show ?thesis
    using nz by (simp add: c) (simp add: hook_pipeline_def)
qed

text \<open>
  Every webhook route leads to its own pipeline. When no two served pipelines share a
  claim, looking up a webhook's claim key in the daemon's route table finds that pipeline.
\<close>

theorem routes_reach:
  assumes "distinct (map pipeline_Claim (filter (\<lambda>p. \<not> Claim_IsZero (pipeline_Claim p)) served))"
    and "\<forall>p\<in>set served. tr_HTTPDriven (pipeline_Trigger p) \<noteq> None \<longrightarrow> cl_Kind (pipeline_Claim p) = ''http''"
    and "i < length served" "tr_HTTPDriven (pipeline_Trigger (served ! i)) \<noteq> None"
  shows "map_of (dm_routes (New served opts)) (cl_Key (pipeline_Claim (served ! i))) = Some i"
  using routes_of_reaches [OF assms(1) _ assms(3,4)] assms(2) by (simp add: New_def)

theorem routes_reach_witness:
  "\<forall>opts. map_of (dm_routes (New [hook_pipeline ''a''] opts)) ''POST /hook'' = Some 0"
proof
  fix opts
  have c: "pipeline_Claim (hook_pipeline x) = webhook_Claim (demo_hook None)" for x
    by (simp add: hook_pipeline_def pipeline_Claim_def pipeline_Trigger_def webhook_Trigger_def)
  have "map_of (dm_routes (New [hook_pipeline ''a''] opts)) (cl_Key (pipeline_Claim ([hook_pipeline ''a''] ! 0))) = Some 0"
    by (rule routes_reach)
      (simp_all add: c webhook_Claim_def, simp add: hook_pipeline_def pipeline_Trigger_def webhook_Trigger_def)
  then show "map_of (dm_routes (New [hook_pipeline ''a''] opts)) ''POST /hook'' = Some 0"
    by (simp add: c webhook_Claim_def demo_hook_def)
qed

text \<open>
  C20: checking a directory agrees with checking its files. \<open>p6e check --dir\<close> exits with success
  exactly when \<open>p6e check\<close> does on every pipeline file of the directory and no pipeline contests
  another's claim, the one problem no single file shows.
\<close>

theorem check_dir_agrees:
  assumes "ho_ReadDir h dir = Inr es" "\<forall>e\<in>set es. Base (ho_Join h dir (de_Name e)) = de_Name e"
    and "cs = load_candidates tt reg (ho_Join h dir) (pipeline_ParseFile (ho_Decode h) (ho_Open h)) es"
    and "claim_order (ho_ClaimOrder h dir) cs"
  shows "snd (checkDirCommand tt reg h dir) = exitOK \<longleftrightarrow>
    (\<forall>e\<in>set es. is_pipeline_entry e \<longrightarrow> snd (checkCommand tt reg h (ho_Join h dir (de_Name e))) = exitOK) \<and>
    (\<forall>p\<in>set cs. \<not> contested cs p)"
  by (rule check_dir_iff [OF assms])

theorem check_dir_agrees_witness: "snd (checkDirCommand domain_table cli_reg small_host ''d'') = exitOK"
proof -
  have dir: "ho_ReadDir small_host ''d'' = Inr small_entries" by (simp add: small_host_def)
  have order: "claim_order (ho_ClaimOrder small_host ''d'') ([] :: unit Pipeline list)"
    by (simp add: claim_order_def small_host_def)
  have "snd (checkCommand domain_table cli_reg small_host (ho_Join small_host ''d'' (de_Name e))) = exitOK"
    if "e \<in> set small_entries" "is_pipeline_entry e" for e
  proof -
    have "e \<in> set (filter is_pipeline_entry small_entries)" using that by simp
    then have "ho_Join small_host ''d'' (de_Name e) = ''d/small.yaml''" unfolding small_entry(1) by (simp add: small_host_def)
    then show ?thesis using small_check by simp
  qed
  with check_dir_agrees [OF dir small_entry(2) small_candidates [symmetric] order] show ?thesis by simp
qed

section \<open>The daemon\<close>

text \<open>
  C21: the daemon implements its admission contract. Every atomic step of every interleaving
  of events, runs and the drain is a step of the abstract gate: a run is admitted only while
  the daemon is not draining and the pipeline has room under its policy, an event is refused
  only for a reason that holds at that moment, and nothing else changes the number of runs,
  the quarantine flags or the draining flag.
\<close>

theorem daemon_implements_gate:
  assumes "reachable (starts_daemon d) (daemon_step d) s" "daemon_step d e s = Some s'"
  shows "gate_step d (gate_event_of s e s') (gate_of s) = Some (gate_of s')"
  by (rule daemon_refines_gate [OF daemons.reachable_inv [OF assms(1)] assms(2)])

theorem daemon_implements_gate_witness:
  "\<exists>s'. daemon_step job_daemon (Fires 0) busy_state = Some s' \<and>
     gate_step job_daemon (gate_event_of busy_state (Fires 0) s') (gate_of busy_state) = Some (gate_of s')"
proof -
  obtain s' where s': "daemon_step job_daemon (Fires 0) busy_state = Some s'"
    by (simp add: daemon_step_def job_daemon_def New_def)
  from daemon_implements_gate [OF job_reachable [OF busy_state(1)] s'] s' show ?thesis by blast
qed

text \<open>
  C22: the daemon's counters are exact and its bounds hold under every interleaving. The
  counter of a pipeline is the number of its runs between admission and release, at most one
  under the drop policy and at most the ceiling otherwise; the daemon's counter and its wait
  group count the registered runs of all pipelines; and failures and abandoned runs never
  exceed the runs started.
\<close>

theorem daemon_counts:
  assumes "reachable (starts_daemon d) (daemon_step d) s" "i < length (dm_pipelines d)"
  shows "ps_inflight (ds_pipes s ! i) = calls ((=) i) slotted (ds_fires s) \<and>
    (drops (dm_pipelines d ! i) \<longrightarrow> ps_inflight (ds_pipes s ! i) \<le> 1) \<and>
    (\<not> drops (dm_pipelines d ! i) \<and> 0 < dm_maxRuns d \<longrightarrow> ps_inflight (ds_pipes s ! i) \<le> dm_maxRuns d) \<and>
    ds_inflight s = calls (\<lambda>_. True) counted_run (ds_fires s) \<and> ds_wg s = calls (\<lambda>_. True) enrolled (ds_fires s) \<and>
    ps_failures (ds_pipes s ! i) \<le> ps_runs (ds_pipes s ! i) \<and> ps_abandonedRuns (ds_pipes s ! i) \<le> ps_runs (ds_pipes s ! i)"
proof -
  have inv: "counts_ok d s" "reports_ok d s" using daemons.reachable_inv [OF assms(1)] by (simp_all add: daemon_inv_def)
  have "0 \<le> calls ((=) i) may_fail (ds_fires s)" "0 \<le> calls ((=) i) may_abandon (ds_fires s)" by simp_all
  moreover have "ps_failures (ds_pipes s ! i) + calls ((=) i) may_fail (ds_fires s) \<le> ps_runs (ds_pipes s ! i)"
    "ps_abandonedRuns (ds_pipes s ! i) + calls ((=) i) may_abandon (ds_fires s) \<le> ps_runs (ds_pipes s ! i)"
    using inv(2) assms(2) by (simp_all add: reports_ok_def Let_def)
  ultimately have "ps_failures (ds_pipes s ! i) \<le> ps_runs (ds_pipes s ! i)"
    "ps_abandonedRuns (ds_pipes s ! i) \<le> ps_runs (ds_pipes s ! i)" by linarith+
  with inv(1) assms(2) show ?thesis by (simp add: counts_ok_def room_def)
qed

theorem daemon_counts_witness:
  "ps_inflight (ds_pipes busy_state ! 0) = calls ((=) 0) slotted (ds_fires busy_state) \<and> ps_inflight (ds_pipes busy_state ! 0) = 1"
  using daemon_counts [OF job_reachable [OF busy_state(1)], of 0] busy_state(5) by (simp add: job_daemon_def New_def)

text \<open>
  C23: draining is final. Every event that arrives once the drain has begun ends refused, with
  the draining or the quarantine error, whatever happens in between; and once the drain's
  wait has returned no run is going, nor is any admitted later.
\<close>

theorem drain_is_final:
  assumes "reachable (starts_daemon d) (daemon_step d) s" "ds_draining s" "run_events (daemon_step d) es s = Some s'"
  shows "(\<forall>t<length (ds_fires s'). length (ds_fires s) \<le> t \<longrightarrow> shut_out d (fst (ds_fires s' ! t)) (snd (ds_fires s' ! t))) \<and>
    (ds_finished s' \<longrightarrow> (\<forall>(i, pc)\<in>set (ds_fires s'). quiet pc))"
proof -
  have "draining_for d (length (ds_fires s)) s" using assms(2) late_ok_now by (simp add: draining_for_def)
  then have "draining_for d (length (ds_fires s)) s'" using assms(3) by (rule after_draining.run_events_inv)
  then have "\<forall>t<length (ds_fires s'). length (ds_fires s) \<le> t \<longrightarrow> shut_out d (fst (ds_fires s' ! t)) (snd (ds_fires s' ! t))"
    by (simp add: draining_for_def late_ok_def)
  moreover have "daemon_inv d s'"
    using daemons.reachable_inv [OF assms(1)] assms(3) by (rule daemons.run_events_inv)
  ultimately show ?thesis using finished_quiet by blast
qed

theorem drain_is_final_witness:
  "\<exists>s'. run_events (daemon_step job_daemon) (call_events 2 2) busy_state = Some s' \<and>
     shut_out job_daemon (fst (ds_fires s' ! 2)) (snd (ds_fires s' ! 2))"
proof -
  obtain s' where s': "run_events (daemon_step job_daemon) (call_events 2 2) busy_state = Some s'" "length (ds_fires s') = 3"
    using busy_then_fires by blast
  from drain_is_final [OF job_reachable [OF busy_state(1)] busy_state(2) s'(1)] s' busy_state(4) show ?thesis
    by (intro exI [of _ s']) simp
qed

text \<open>
  C24: the drain ends. Once nothing fires any more and runs return, the calls in progress make
  at most nine further moves each; while the wait group is not empty one of them can move, and
  when it is empty the wait returns.
\<close>

theorem drain_ends:
  assumes "reachable (starts_daemon d) (daemon_step d) s" "ds_draining s" "run_events (drain_step d) es s = Some s'"
  shows "length (filter is_advance es) + drain_rank s' \<le> drain_rank s \<and>
    (ds_wg s' = 0 \<and> drain_step d WaitReturns s' \<noteq> None \<or> (\<exists>t. drain_step d (Advances t ex) s' \<noteq> None))"
proof -
  have "drains d s" using daemons.reachable_inv [OF assms(1)] assms(2) by (simp add: drains_def)
  then show ?thesis
    using drains.run_length_bounded [OF _ assms(3)] drain_progress [OF drains.run_events_inv [OF _ assms(3)]] by blast
qed

theorem drain_ends_witness:
  "\<exists>t. drain_step job_daemon (Advances t wedged) busy_state \<noteq> None \<or> ds_wg busy_state = 0"
  using drain_ends [OF job_reachable [OF busy_state(1)] busy_state(2), of "[]" busy_state wedged] by auto

text \<open>
  C25: quarantine. A pipeline is quarantined only after at least three of its runs left a step
  running; and once it is, every event that arrives later is refused at its first step,
  whatever else happens.
\<close>

theorem quarantine_policy:
  assumes "reachable (starts_daemon d) (daemon_step d) s" "i < length (dm_pipelines d)" "ps_quarantined (ds_pipes s ! i)"
  shows "3 \<le> ps_abandonedRuns (ds_pipes s ! i) \<and>
    (\<forall>es s' t. run_events (daemon_step d) es s = Some s' \<longrightarrow> length (ds_fires s) \<le> t \<longrightarrow> t < length (ds_fires s') \<longrightarrow>
       fst (ds_fires s' ! t) = i \<longrightarrow>
       snd (ds_fires s' ! t) \<in> {F_Entry, F_Refused (refuse_quarantined (dm_pipelines d ! i))})"
proof -
  have inv: "fires_ok d s" "streaks_ok d s" using daemons.reachable_inv [OF assms(1)] by (simp_all add: daemon_inv_def)
  then have "quarantined_for d i (length (ds_fires s)) s"
    using assms(2,3) late_ok_now by (simp add: quarantined_for_def fires_ok_def)
  then have late: "quarantined_for d i (length (ds_fires s)) s'" if "run_events (daemon_step d) es s = Some s'" for es s'
    using that by (rule after_quarantine.run_events_inv)
  have "3 \<le> ps_abandonedRuns (ds_pipes s ! i)" using inv(2) assms(2,3) by (simp add: streaks_ok_def Let_def)
  with late show ?thesis by (auto simp: quarantined_for_def late_ok_def turned_away_def)
qed

theorem quarantine_policy_witness: "3 \<le> ps_abandonedRuns (ds_pipes quarantined_state ! 0)"
  using quarantine_policy [OF job_reachable [OF quarantined_state(1)], of 0] quarantined_state(2)
  by (simp add: job_daemon_def New_def)

text \<open>
  C26: the life of a daemon. However its listeners, servers, clients and runs interleave, the
  admission machine inside it runs as specified, and a server never blocks reporting its end.
  Once \<open>Serve\<close> begins to stop, its context is cancelled and the webhook server no longer
  accepts; the draining flag, and with it the reason \<open>/readyz\<close> gives, is set exactly in the
  later phases, from the wait for the runs on, when no trigger loop runs either. In between, the
  webhook server accepts nothing and the flag is not yet set. The admin listener is told to stop only after
  the drain; \<open>Serve\<close> fails only with an error of a listener, waits at most three times the drain
  timeout in all, and when it returned without giving up on a wait no call is left running.
\<close>

theorem serve_lifecycle:
  assumes "reachable (\<lambda>s. serve_begin (New served opts) = Inr s) (serve_step (New served opts)) s"
  shows "(sv_phase s \<notin> {PSelect, PStop} \<longrightarrow> sv_cancelled s \<and> sv_server s \<noteq> SServing) \<and>
    (readiness (New served opts) (sv_daemon s) = Some (Sprintf ''draining'' []) \<longleftrightarrow> late (sv_phase s)) \<and>
    reachable (starts_daemon (New served opts)) (daemon_step (New served opts)) (sv_daemon s) \<and>
    (\<forall>r. reports (sv_server s) r \<or> reports (sv_admin s) r \<longrightarrow> length (sv_errs s) < 2) \<and>
    (ds_draining (sv_daemon s) \<longleftrightarrow> late (sv_phase s)) \<and>
    (late (sv_phase s) \<longrightarrow> sv_cancelled s \<and> sv_server s \<noteq> SServing \<and> \<not> list_ex id (sv_listening s)) \<and>
    (\<not> late (sv_phase s) \<or> sv_phase s = PWaitRuns \<longrightarrow> sv_admin s \<noteq> SClosing) \<and>
    listener_error (sv_failure s) \<and>
    sv_waited s \<le> 3 * sint (dm_drain (New served opts)) \<and>
    (sv_phase s = PReturned \<and> \<not> sv_gave_up s \<longrightarrow> (\<forall>(i, pc)\<in>set (ds_fires (sv_daemon s)). quiet pc))"
  by (rule conjI [OF serve_closing_order(1) [OF assms] conjI [OF serve_closing_order(2) [OF assms] serve_life [OF assms]]])

theorem serve_lifecycle_witness:
  "sv_cancelled hook_closing \<and> \<not> ds_draining (sv_daemon hook_closing) \<and> readiness hook_daemon (sv_daemon hook_closing) = None \<and>
   sv_server hook_closing = SReported \<and> ds_draining (sv_daemon hook_ended) \<and> sv_waited hook_ended = 60000000005"
proof -
  have "\<not> late (sv_phase hook_closing)" "late (sv_phase hook_ended)" "sv_phase hook_closing \<notin> {PSelect, PStop}"
    by (simp_all add: late_def hook_closing(2) hook_ended(2))
  with serve_lifecycle [OF hook_reachable(1)] serve_lifecycle [OF hook_reachable(2)] show ?thesis
    using hook_closing hook_ended by blast
qed

text \<open>
  C27: a daemon can always be stopped. From every state \<open>Serve\<close> can be in, whatever calls, runs
  and requests are in progress, some continuation makes it return, the waits included within
  three times the drain timeout.
\<close>

theorem serve_can_end:
  assumes "reachable (\<lambda>s. serve_begin (New served opts) = Inr s) (serve_step (New served opts)) s"
  shows "\<exists>es t. run_events (serve_step (New served opts)) es s = Some t \<and> sv_phase t = PReturned \<and>
    sv_waited t \<le> 3 * sint (dm_drain (New served opts))"
proof -
  have "daemon_inv (New served opts) (sv_daemon s)" using serve_life [OF assms] daemons.reachable_inv by blast
  from serve_ends [OF this] obtain es t where
    "run_events (serve_step (New served opts)) es s = Some t" "sv_phase t = PReturned"
    unfolding ends_def leads_def by blast
  with serve_life [OF run_events_reachable [OF assms this(1)]] show ?thesis by blast
qed

theorem serve_can_end_witness:
  "\<exists>es t. run_events (serve_step (New [hook_pipeline ''a''] zero_daemon_options)) es hook_closing = Some t \<and>
     sv_phase t = PReturned"
  using serve_can_end [OF hook_reachable(1)] by blast

text \<open>
  C28: the metrics mean what they say. In every state the daemon can reach, a reader of the
  exposition format gets out of the text of \<open>/metrics\<close> exactly the daemon's samples, whatever
  characters the pipelines' names hold; the inflight samples are the numbers of calls that hold
  a slot and of runs counted; and no two samples are of one series exactly when no two pipelines
  have one name.
\<close>

theorem metrics_scraped:
  assumes "reachable (starts_daemon d) (daemon_step d) s" "\<And>v. plain (g v)"
  shows "adminHandler g d held s ''GET'' pathMetrics = \<lparr>rp_Status = 200, rp_Body = BodyBytes (writeMetrics g d held s)\<rparr> \<and>
    scrape (writeMetrics g d held s) = exposition g d held s \<and>
    (''p6e_runs_inflight'', None, g (calls (\<lambda>_. True) counted_run (ds_fires s))) \<in> set (exposition g d held s) \<and>
    (\<forall>i<length (dm_pipelines d). (''p6e_pipeline_runs_inflight'', Some (pl_Name (dm_pipelines d ! i)),
       g (calls ((=) i) slotted (ds_fires s))) \<in> set (exposition g d held s)) \<and>
    (distinct (map series (exposition g d held s)) \<longleftrightarrow> distinct (map pl_Name (dm_pipelines d)))"
proof -
  have inv: "daemon_inv d s" using daemons.reachable_inv [OF assms(1)] .
  then have len: "length (ds_pipes s) = length (dm_pipelines d)" and counts: "counts_ok d s"
    by (simp_all add: daemon_inv_def fires_ok_def)
  have "adminHandler g d held s ''GET'' pathMetrics = \<lparr>rp_Status = 200, rp_Body = BodyBytes (writeMetrics g d held s)\<rparr>"
    by (simp add: adminHandler_def metrics_reply_def path_defs)
  moreover have "scrape (writeMetrics g d held s) = exposition g d held s" by (rule scrape_writeMetrics) (rule assms(2))
  ultimately show ?thesis
    using exposition_distinct [OF len, of g held] exposition_inflight [OF counts len, of g held] by blast
qed

theorem metrics_scraped_witness:
  "(''p6e_pipeline_runs_inflight'', Some ''job'', ''1'') \<in> set (scrape (writeMetrics demo_number job_daemon 0 busy_state))"
proof -
  have reach: "reachable (starts_daemon job_daemon) (daemon_step job_daemon) busy_state"
    by (rule job_reachable [OF busy_state(1)])
  have "ps_inflight (ds_pipes busy_state ! 0) = calls ((=) 0) slotted (ds_fires busy_state)"
    using daemons.reachable_inv [OF reach] job_named by (simp add: daemon_inv_def counts_ok_def)
  then have "demo_number (calls ((=) 0) slotted (ds_fires busy_state)) = ''1''"
    using busy_state(5) by (simp add: demo_number_def)
  then show ?thesis
    using metrics_scraped [OF reach, where g = demo_number and held = 0, OF demo_number_plain] job_named by (metis less_one)
qed

text \<open>
  Readiness. The daemon is ready exactly when it is not draining and, unless it serves
  nothing, some pipeline is not quarantined; and each refusal has its status: 429 for a busy
  pipeline, 503 for a quarantined one or a draining daemon.
\<close>

theorem readiness_and_refusals:
  assumes "reachable (starts_daemon d) (daemon_step d) s"
  shows "(readiness d s = None \<longleftrightarrow>
      \<not> ds_draining s \<and> (dm_pipelines d = [] \<or> (\<exists>q\<in>set (ds_pipes s). \<not> ps_quarantined q))) \<and>
    statusFor (Some (refuse_busy m p)) = 429 \<and> statusFor (Some (refuse_quarantined p)) = 503 \<and>
    statusFor (Some refuse_draining) = 503"
  using readiness_None_iff [OF daemons.reachable_inv [OF assms]] by (simp add: refusal_status)

theorem readiness_and_refusals_witness: "readiness job_daemon busy_state \<noteq> None"
  using readiness_and_refusals [OF job_reachable [OF busy_state(1)], of 0 "hook_pipeline ''a''"] busy_state(2) by simp

text \<open>
  Label values survive the exposition format. A scanner of quoted labels reads an escaped
  name up to exactly its closing quote, and unescaping gives the name back, so no pipeline
  name corrupts the output or is confused with another.
\<close>

theorem label_round_trip:
  "scan_label (escapeLabel v @ CHR 0x22 # rest) = Some (escapeLabel v, rest) \<and> unescape (escapeLabel v) = v"
  by (simp add: scan_escapeLabel unescape_escapeLabel)

section \<open>Built-in nodes\<close>

text \<open>
  C29: the built-in registry. Whatever the outside library answers, registering the built-in
  definitions never fails, the registry knows exactly the twenty-two documented names, and
  every node any of them builds has the ports it declares, puts a non-nil value of its output
  type on its edge when it succeeds, and never fails with an engine error on well-typed inputs.
\<close>

theorem builtin_registry:
  "\<exists>R. node_Registry domain_table L = Inr R \<and> set (Names R) = set builtin_names \<and> length builtin_names = 22 \<and>
     sound_nodes domain_table R"
proof -
  obtain R where R: "node_Registry domain_table L = Inr R" using node_Registry_total by blast
  moreover have "length builtin_names = 22" by (simp add: builtin_names_def)
  ultimately show ?thesis using node_Registry_names [OF R] node_Registry_sound [OF has_domain_table R] by blast
qed

text \<open>
  C30: type safety of pipelines over the built-in nodes, with no assumption on nodes. Any
  valid document that compiles against the built-in registry has a domain type for every step
  such that, in every reachable state of every run, a succeeded step holds a non-nil value of
  its type and no step failed with a type or arity mismatch.
\<close>

theorem builtin_run_typed:
  assumes "node_Registry domain_table L = Inr R" "rg_Nodes reg = Some R" "valid_file f"
    and "Compile domain_table f reg name = Inr p" "reachable (starts_typed domain_table p) sched_step s"
  shows "\<exists>ty. (\<forall>i<nsteps p. ty i \<in> fst ` set domain_types) \<and>
    (\<forall>i<nsteps p. st s i = StateSucceeded \<longrightarrow> fits domain_table (ty i) (val s i)) \<and>
    (\<forall>i<nsteps p. \<forall>e. sr_Err (ex_Steps (s_ex s) ! i) = Some e \<longrightarrow> \<not> engine_error e)"
proof -
  have "sound_nodes domain_table (nodes_of reg)"
    using node_Registry_sound [OF has_domain_table assms(1)] assms(2) by (simp add: nodes_of_def)
  from Compile_typed [OF assms(4) domain_good this] obtain ty where ty: "plan_typed domain_table p ty" by blast
  then have tp: "typed_plan domain_table ty p"
    using Compile_plan_wf [OF assms(3,4)] domain_table_inv by (simp add: typed_plan_def)
  have "reachable (\<lambda>s. typed_plan domain_table ty p \<and> starts_typed domain_table p s) sched_step s"
    using assms(5) tp by simp
  from typed_runs.reachable_inv [OF this] have "typed_inv domain_table ty p s" by blast
  then show ?thesis using plan_typed_domain [OF ty] unfolding typed_inv_def by blast
qed

theorem builtin_run_typed_witness:
  "\<exists>ty. \<forall>i<nsteps builtin_plan. ty i \<in> fst ` set domain_types \<and>
     (st builtin_start i = StateSucceeded \<longrightarrow> fits domain_table (ty i) (val builtin_start i))"
proof -
  have "reachable (starts_typed domain_table builtin_plan) sched_step builtin_start"
    by (rule reachable_init) (rule builtin_starts_typed)
  from builtin_run_typed [OF builtin_reg _ builtin_valid builtin_compiles this]
  show ?thesis by (auto simp: builtin_registries_def)
qed

section \<open>The command line\<close>

text \<open>
  C31: what a successful \<open>p6e run\<close> means. With the built-in registries and any execution of
  plans that returns, exit code 0 says the arguments name one file and its inputs, the file
  parsed and compiled, the inputs were built at their declared types, every step of the run
  succeeded with a value of the type the compiler gave it, nothing was abandoned or mutated, and
  the last line printed counts the steps.
\<close>

theorem cli_run_sound:
  assumes "registries domain_table L hmac dw ds = Inr reg" "runs_plans h"
    and "snd (cli_run domain_table reg h (''run'' # args)) = exitOK"
  shows "\<exists>path opts assignments f p inputs ty ex.
    splitRunArgs args = ([path], opts, assignments, '''') \<and>
    pipeline_ParseFile (ho_Decode h) (ho_Open h) path = Inr f \<and> Compile domain_table f reg (nameOf path) = Inr p \<and>
    buildInputs domain_table (ho_ParseTime h) (ho_ReadFile h) p assignments = Inr inputs \<and>
    ex = ho_Run h p (opts\<lparr>op_Inputs := inputs\<rparr>) \<and> plan_typed domain_table p ty \<and>
    length (ex_Steps ex) = nsteps p \<and> ex_Mutations ex = [] \<and> ex_Abandoned ex = 0 \<and>
    (\<forall>i<nsteps p. sr_State (ex_Steps ex ! i) = StateSucceeded \<and> fits domain_table (ty i) (sr_Value (ex_Steps ex ! i))) \<and>
    last (fst (cli_run domain_table reg h (''run'' # args))) =
      (Stdout, [line (nl @ ''ok: %d steps'') [AInt (int (nsteps p))]])"
  by (rule run_command_ok [OF assms])

theorem cli_run_sound_witness:
  "last (fst (cli_run domain_table cli_reg small_host (''run'' # small_args))) =
     (Stdout, [line (nl @ ''ok: %d steps'') [AInt (int (nsteps small_plan))]])"
proof -
  obtain path opts assignments f p where r:
    "splitRunArgs small_args = ([path], opts, assignments, '''')"
    "pipeline_ParseFile (ho_Decode small_host) (ho_Open small_host) path = Inr f"
    "Compile domain_table f cli_reg (nameOf path) = Inr p"
    "last (fst (cli_run domain_table cli_reg small_host (''run'' # small_args))) =
       (Stdout, [line (nl @ ''ok: %d steps'') [AInt (int (nsteps p))]])"
    using cli_run_sound [OF cli_registries small_runs_plans small_exit] by blast
  from r(1) have path: "path = ''d/small.yaml''" by (simp add: small_split)
  have "cli_compile domain_table cli_reg small_host path = Inr p" unfolding cli_compile_Inr using r(2,3) by blast
  then have "p = small_plan" by (simp add: path small_compile)
  with r(4) show ?thesis by simp
qed

text \<open>
  C32: inputs from the command line. When the assignments are accepted for a well-formed plan,
  every assignment names an input of the plan, no input is assigned twice, and each value has
  exactly the type the plan declares for its input, so the run's input step takes it as it is.
\<close>

theorem cli_inputs_typed:
  assumes "plan_wf p" "buildInputs domain_table parseTime readFile p assignments = Inr vs"
  shows "good_values domain_table vs \<and>
    (\<forall>name v. map_of vs name = Some v \<longrightarrow>
       (\<exists>inp\<in>set (p_Inputs p). pi_Name inp = name \<and> v_typ v = pi_Type inp \<and>
          rv_Err (supply_input vs inp) = None \<and> rv_Value (supply_input vs inp) = v)) \<and>
    (\<forall>a\<in>set assignments. \<exists>literal. \<exists>name\<in>dom (map_of vs). Cut a CHR ''='' = Some (name, literal)) \<and>
    card (dom (map_of vs)) = length assignments"
  by (rule buildInputs_typed [OF assms])

theorem cli_inputs_typed_witness:
  "\<exists>inp\<in>set (p_Inputs small_plan). pi_Name inp = ''n'' \<and> v_typ (NewValue domain_table (PInt 7)) = pi_Type inp"
proof -
  have "map_of [(''n'', NewValue domain_table (PInt 7))] ''n'' = Some (NewValue domain_table (PInt 7))" by simp
  with cli_inputs_typed [OF small_wf small_inputs [of "\<lambda>_. Inr []"]] show ?thesis by blast
qed

text \<open>
  C33: the arguments of \<open>p6e run\<close>. They are accepted exactly when they are a sequence of files,
  the two flags, and inputs in either of their two forms, and what is read back is that
  sequence: the files and the inputs in order, and the flags that occur. Everything else is
  reported.
\<close>

theorem run_args_round_trip:
  "splitRunArgs args = (files, opts, inputs, '''') \<longleftrightarrow>
     (\<exists>items. list_all run_arg_ok items \<and> args = concat (map render_arg items) \<and>
        files = concat (map file_of items) \<and> inputs = concat (map input_of items) \<and>
        opts = run_flags items zero_options)"
  by (rule splitRunArgs_iff)

section \<open>Single nodes\<close>

text \<open>
  C34: what a template means. \<open>text.format\<close> accepts exactly the non-empty templates that read,
  unambiguously, as literal text and placeholders with usable names. Its node has one Text
  port for each distinct name, in order of first appearance, and on any texts it returns the
  template with each placeholder replaced by its port's text.
\<close>

theorem template_meaning:
  assumes "decode cfg = Inr template"
  shows "((\<exists>n. newFormat tt decode cfg = Inr (Some n)) \<longleftrightarrow>
       template \<noteq> '''' \<and> (\<exists>ps. canonical ps \<and> template = concat (map piece_text ps))) \<and>
    (\<forall>n. newFormat tt decode cfg = Inr (Some n) \<longrightarrow>
       (\<exists>ps. canonical ps \<and> template = concat (map piece_text ps) \<and>
          map pd_Name (d_Inputs (rn_Descriptor n)) = ports_from [] ps \<and> distinct (ports_from [] ps) \<and>
          (\<forall>env w ec. rn_Execute n w ec (map (\<lambda>p. NewValue tt (PText (env p))) (ports_from [] ps)) =
             Returns (erase (TypeOf tt tText) (Ok (PText (concat (map (fill env) ps))))))))"
proof (intro conjI allI impI)
  show "(\<exists>n. newFormat tt decode cfg = Inr (Some n)) \<longleftrightarrow>
       template \<noteq> '''' \<and> (\<exists>ps. canonical ps \<and> template = concat (map piece_text ps))"
    unfolding newFormat_Inr using assms by (auto simp: parse_template_iff)
next
  fix n assume n: "newFormat tt decode cfg = Inr (Some n)"
  show "\<exists>ps. canonical ps \<and> template = concat (map piece_text ps) \<and>
          map pd_Name (d_Inputs (rn_Descriptor n)) = ports_from [] ps \<and> distinct (ports_from [] ps) \<and>
          (\<forall>env w ec. rn_Execute n w ec (map (\<lambda>p. NewValue tt (PText (env p))) (ports_from [] ps)) =
             Returns (erase (TypeOf tt tText) (Ok (PText (concat (map (fill env) ps))))))"
    by (rule newFormat_reads [OF n assms]) blast
qed

theorem template_meaning_witness:
  "\<exists>n :: unit RuntimeNode. newFormat domain_table dec_format (WText ''hi {{who}}!'') = Inr (Some n)"
proof -
  have "dec_format (WText ''hi {{who}}!'') = Inr ''hi {{who}}!''" by (simp add: dec_format_def)
  moreover have "canonical [Lit ''hi '', Hole ''who'', Lit ''!'']" by code_simp
  moreover have "''hi {{who}}!'' = concat (map piece_text [Lit ''hi '', Hole ''who'', Lit ''!''])"
    by (simp add: openTag_def closeTag_def)
  ultimately show ?thesis using template_meaning [of dec_format "WText ''hi {{who}}!''"] by blast
qed

text \<open>
  An environment variable read as a whole number. The node reads the variable, or the
  default when it is unset; it produces a number exactly when the text is an optional sign and
  decimal digits denoting a 64-bit number, and then produces that number; otherwise it fails,
  permanently.
\<close>

theorem env_int_exact:
  assumes "env_newNode tt lookupEnv decode cfg = Inr (Some n)" "decode cfg = Inr c" "evc_As c = ''Int''"
  shows "\<exists>res. rn_Execute n w ec [] = Returns res \<and>
    (let text = (case lookupEnv w (evc_Name c) of Some raw \<Rightarrow> Some raw | None \<Rightarrow> evc_Default c) in
       (\<forall>raw k. text = Some raw \<and> int_text raw k \<longrightarrow>
          rv_Err res = None \<and> rv_Value res = NewValue tt (PInt k)) \<and>
       ((\<nexists>raw k. text = Some raw \<and> int_text raw k) \<longrightarrow>
          (\<exists>e. rv_Err res = Some e \<and> err_Kind e = KindPermanent \<and> \<not> err_Retryable e)))"
  by (rule env_int_node [OF assms])

theorem env_int_exact_witness:
  "\<exists>n res. env_newNode domain_table demo_LookupEnv dec_env (WEnv limit_config) = Inr (Some n) \<and>
     rn_Execute n () zero_context [] = Returns res \<and> rv_Value res = NewValue domain_table (PInt (- 42))"
proof -
  obtain n where n: "env_newNode domain_table demo_LookupEnv dec_env (WEnv limit_config) = Inr (Some n)"
    using limit_node by blast
  have "dec_env (WEnv limit_config) = Inr limit_config" "evc_As limit_config = ''Int''"
    by (simp_all add: dec_env_def limit_config_def)
  from env_int_exact [OF n this, of "()" zero_context] limit_text n show ?thesis
    by (auto simp: demo_LookupEnv_def limit_config_def Let_def)
qed

text \<open>
  C35: \<open>json.get\<close> with \<open>as: Int\<close>. A value found at the path that is a whole number of the 64-bit
  range is produced unchanged, and one that is not a whole number is refused. A whole number
  outside the range is not refused: a float succeeds with whatever the platform's conversion
  makes of it, and an unsigned number comes out as that number minus two to the sixty-four, a
  negative one.
\<close>

theorem json_int_exact:
  assumes "newGet tt wild decode cfg = Inr (Some n)" "decode cfg = Inr c" "gc_As c = ''Int''"
    and "Lookup doc (Split CHR ''.'' (gc_Path c)) = Some v"
  shows "\<exists>res. rn_Execute n w ec [NewValue tt (PDocument doc)] = Returns res \<and>
    (\<forall>i. whole_number v = Some i \<and> - (2 ^ 63) \<le> i \<and> i < 2 ^ 63 \<longrightarrow>
       (\<exists>k. rv_Err res = None \<and> rv_Value res = NewValue tt (PInt k) \<and> sint k = i)) \<and>
    (whole_number v = None \<longrightarrow>
       (\<exists>e. rv_Err res = Some e \<and> err_Kind e = KindInvalidInput \<and> err_Code e = ''type_mismatch'')) \<and>
    (\<forall>i. v = AnyFloat64 (Fin (of_int i)) \<and> (i < - (2 ^ 63) \<or> 2 ^ 63 \<le> i) \<longrightarrow>
       rv_Err res = None \<and> rv_Value res = NewValue tt (PInt (wild (of_int i)))) \<and>
    (\<forall>u. v = AnyUint64 u \<and> 2 ^ 63 \<le> uint u \<longrightarrow>
       (\<exists>k. rv_Err res = None \<and> rv_Value res = NewValue tt (PInt k) \<and> sint k = uint u - 2 ^ 64))"
  by (rule json_int_node [OF assms])

theorem json_int_exact_witness:
  "\<exists>(n :: unit RuntimeNode) k res. newGet domain_table demo_wild dec_get (WGet count_config) = Inr (Some n) \<and>
     rn_Execute n () zero_context [NewValue domain_table (PDocument demo_document)] = Returns res \<and>
     rv_Value res = NewValue domain_table (PInt k) \<and> sint k = 3"
proof -
  obtain n :: "unit RuntimeNode" where n: "newGet domain_table demo_wild dec_get (WGet count_config) = Inr (Some n)"
    using count_node by blast
  have c: "dec_get (WGet count_config) = Inr count_config" "gc_As count_config = ''Int''"
    by (simp_all add: dec_get_def count_config_def)
  have "Lookup demo_document (Split CHR ''.'' (gc_Path count_config)) = Some (AnyFloat64 (Fin 3))"
    by (simp add: demo_document_def count_config_def)
  from json_int_exact [OF n c this, of "()" zero_context] n show ?thesis by auto
qed

text \<open>
  C36: \<open>condition\<close> and \<open>json.get\<close> agree about a path. Configured with the same path, a
  condition testing that it exists answers true exactly when a getter without a default does
  not report it absent, which is exactly when the document has nested objects with the
  path's keys; a path is its non-empty keys joined by dots, in one way only.
\<close>

theorem condition_agrees:
  assumes "condition_newNode tt dc cfg = Inr (Some cn)" "dc cfg = Inr c" "cc_Exists c = Some want"
    and "newGet tt wild dg cfg' = Inr (Some gn)" "dg cfg' = Inr g" "gc_Path g = cc_Path c" "gc_Default g = None"
  shows "\<exists>path res. cc_Path c = join ''.'' path \<and> (\<forall>s\<in>set path. s \<noteq> '''' \<and> CHR ''.'' \<notin> set s) \<and>
    rn_Execute gn w ec [NewValue tt (PDocument doc)] = Returns res \<and>
    (rv_Err res = Some path_absent \<longleftrightarrow> Lookup doc path = None) \<and>
    rn_Execute cn w ec [NewValue tt (PDocument doc)] =
      Returns (erase (TypeOf tt tBool) (Ok (PBool ((rv_Err res \<noteq> Some path_absent) = want))))"
  by (rule condition_get_nodes [OF assms])

theorem condition_agrees_witness:
  "\<exists>cn :: unit RuntimeNode. condition_newNode domain_table dec_condition (WCondition has_count) = Inr (Some cn) \<and>
   rn_Execute cn () zero_context [NewValue domain_table (PDocument demo_document)] =
     Returns (erase (TypeOf domain_table tBool) (Ok (PBool True)))"
proof -
  obtain cn :: "unit RuntimeNode" where cn: "condition_newNode domain_table dec_condition (WCondition has_count) = Inr (Some cn)"
    using has_count_node by blast
  obtain gn :: "unit RuntimeNode" where gn: "newGet domain_table demo_wild dec_get (WGet count_config) = Inr (Some gn)"
    using count_node by blast
  have c: "dec_condition (WCondition has_count) = Inr has_count" "cc_Exists has_count = Some True"
    "dec_get (WGet count_config) = Inr count_config" "gc_Path count_config = cc_Path has_count"
    "gc_Default count_config = None"
    by (simp_all add: dec_condition_def dec_get_def has_count_def count_config_def)
  obtain path and res :: ResultValue where p: "cc_Path has_count = join ''.'' path" "\<forall>s\<in>set path. s \<noteq> '''' \<and> CHR ''.'' \<notin> set s"
    "rv_Err res = Some path_absent \<longleftrightarrow> Lookup demo_document path = None"
    "rn_Execute cn () zero_context [NewValue domain_table (PDocument demo_document)] =
      Returns (erase (TypeOf domain_table tBool) (Ok (PBool ((rv_Err res \<noteq> Some path_absent) = True))))"
    using condition_agrees [OF cn c(1,2) gn c(3-5), where w = "()" and ec = zero_context and doc = demo_document]
    by (elim exE conjE) (rule that; assumption)
  have "path = [''n'']" using p(1,2) by (rule has_count_path)
  then have "Lookup demo_document path \<noteq> None" by (simp add: demo_document_def)
  then have "(rv_Err res \<noteq> Some path_absent) = True" using p(3) by simp
  then have "rn_Execute cn () zero_context [NewValue domain_table (PDocument demo_document)] =
      Returns (erase (TypeOf domain_table tBool) (Ok (PBool True)))"
    by (simp only: p(4) simp_thms)
  with cn show ?thesis by (intro exI [of _ cn] conjI)
qed



text \<open>
  C38: the response limit of \<open>http.request\<close>. A response is delivered with its status, headers
  and whole body when the body is within the limit, and fails permanently when it is one byte
  over; with the largest limit the reader's bound wraps and every body is delivered empty.
\<close>

theorem http_body_limit:
  assumes "request_newNode tt parseURL parseDuration splitHost parseIP rng do' decode cfg = Inr (Some n)"
    and "decode cfg = Inr c" "maxBodyBytes (rc_MaxBodyBytes c) = Inr m"
    and "http_build parseURL rng w req = Inr q" "\<And>client. ob_Do (do' w client q) = Inr resp" "re_BodyErr resp = None"
  shows "0 < sint m \<and>
    rn_Execute n w ec [NewValue tt (PRequest req)] = Returns (erase (TypeOf tt tResponse)
      (if m = 9223372036854775807 then
         Ok (PResponse \<lparr>rs_Status = re_Status resp, rs_Headers = re_Header resp, rs_Body = []\<rparr>)
       else if int (length (re_Body resp)) \<le> sint m then
         Ok (PResponse \<lparr>rs_Status = re_Status resp, rs_Headers = re_Header resp, rs_Body = re_Body resp\<rparr>)
       else Fail (body_too_large req m)))"
  by (rule request_limits [OF assms])

theorem http_body_limit_witness:
  "\<exists>n. request_newNode domain_table demo_parse_url demo_ParseDuration demo_SplitHost demo_ParseIP demo_range demo_do
        dec_request (WRequest small_request) = Inr (Some n) \<and>
     rn_Execute n () zero_context [NewValue domain_table (PRequest demo_http_request)] =
       Returns (erase ''HTTPResponse'' (Fail (body_too_large demo_http_request 1)))"
proof -
  obtain n where n: "request_newNode domain_table demo_parse_url demo_ParseDuration demo_SplitHost demo_ParseIP
      demo_range demo_do dec_request (WRequest small_request) = Inr (Some n)"
    using small_request_node by blast
  have c: "dec_request (WRequest small_request) = Inr small_request" "maxBodyBytes (rc_MaxBodyBytes small_request) = Inr 1"
    by (simp_all add: dec_request_def small_request_def maxBodyBytes_def)
  obtain q where q: "http_build demo_parse_url demo_range () demo_http_request = Inr q" using demo_builds by blast
  have "ob_Do (demo_do () client q) = Inr demo_reply" for client by (simp add: demo_do_def)
  from http_body_limit [OF n c q this] n show ?thesis by (auto simp: demo_reply_def)
qed

text \<open>
  C39: a header set by \<open>http.with_header\<close> is sent. Whatever order the runtime iterates the
  header maps in, the request made from the node's output carries the header under its
  canonical name with the value given, goes to the same URL, and, when no two spellings of
  one name were present, still carries every other header.
\<close>

theorem header_sent:
  assumes "ranges rng" "with_header_newNode tt rng decode cfg = Inr (Some n)" "decode cfg = Inr name"
    and "rn_Execute n w ec [NewValue tt (PRequest r), NewValue tt (PText t)] = Returns res"
    and "v_ref (rv_Value res) = Some (PRequest r')" "http_build parseURL rng w' r' = Inr q"
  shows "map_of (oq_Header q) (CanonicalMIMEHeaderKey name) = Some t \<and> rq_URL r' = rq_URL r \<and>
    (one_spelling (rq_Headers r) \<longrightarrow> (\<forall>k v. map_of (rq_Headers r) k = Some v \<and>
       CanonicalMIMEHeaderKey k \<noteq> CanonicalMIMEHeaderKey name \<longrightarrow>
       map_of (oq_Header q) (CanonicalMIMEHeaderKey k) = Some v))"
  by (rule with_header_node_sends [OF assms])

theorem header_sent_witness:
  "\<exists>n res r' q. with_header_newNode domain_table demo_range dec_with_header (WText ''x-token'') = Inr (Some n) \<and>
     rn_Execute n () zero_context [NewValue domain_table (PRequest demo_http_request),
       NewValue domain_table (PText ''t'')] = Returns res \<and>
     v_ref (rv_Value res) = Some (PRequest r') \<and> http_build demo_parse_url demo_range () r' = Inr q \<and>
     map_of (oq_Header q) ''X-Token'' = Some ''t''"
proof -
  obtain n where n: "with_header_newNode domain_table demo_range dec_with_header (WText ''x-token'') = Inr (Some n)"
    using token_node by blast
  have d: "dec_with_header (WText ''x-token'') = Inr ''x-token''" by (simp add: dec_with_header_def)
  obtain res r' q where r: "rn_Execute n () zero_context [NewValue domain_table (PRequest demo_http_request),
        NewValue domain_table (PText ''t'')] = Returns res"
      "v_ref (rv_Value res) = Some (PRequest r')" "http_build demo_parse_url demo_range () r' = Inr q"
    using token_sent [OF n] by blast
  have "CanonicalMIMEHeaderKey ''x-token'' = ''X-Token''" by code_simp
  with header_sent [of demo_range domain_table dec_with_header "WText ''x-token''" n "''x-token''" "()" zero_context
      demo_http_request "''t''" res r' demo_parse_url "()" q, OF demo_ranges n d r]
  have "map_of (oq_Header q) ''X-Token'' = Some ''t''" by simp
  with n r show ?thesis by blast
qed

text \<open>
  C40: the destination policy. The client of a step that did not set \<open>allow_private\<close> dials
  through a hook that lets an address pass exactly when it parses and lies outside the
  loopback, link-local, private, unspecified and multicast ranges, an IPv4 address and its
  IPv6-mapped form being treated alike; a step that did set it has no hook; and either client
  follows fewer than ten redirects, only to http and https.
\<close>

theorem destination_policy:
  assumes "\<forall>h ip. parseIP h = Some ip \<longrightarrow> length ip = 4 \<or> length ip = 16"
  shows "tp_Control (hc_Transport (request_client splitHost parseIP True timeout)) = None \<and>
    (\<exists>hook. tp_Control (hc_Transport (request_client splitHost parseIP False timeout)) = Some hook \<and>
       (\<forall>address. hook address = None \<longleftrightarrow>
          (\<exists>host ip. splitHost address = Inr host \<and> parseIP host = Some ip \<and> \<not> internal_ip ip))) \<and>
    internal_ip (mapped4 [a, b, c, d]) = internal4 (unat a) (unat b) (unat c) (unat d) \<and>
    internal_ip [a, b, c, d] = internal4 (unat a) (unat b) (unat c) (unat d) \<and>
    (\<forall>schemes allow. (\<forall>i<length schemes.
         hc_CheckRedirect (request_client splitHost parseIP allow timeout) (schemes ! i) (Suc i) = None) \<longrightarrow>
       length schemes < 10 \<and> set schemes \<subseteq> {''http'', ''https''})"
  by (rule client_policy [OF assms])

theorem destination_policy_witness:
  "\<exists>hook. tp_Control (hc_Transport (request_client demo_SplitHost demo_ParseIP False 1)) = Some hook \<and>
     hook ''metadata'' \<noteq> None \<and> hook ''public'' = None \<and> hook ''other'' \<noteq> None"
proof -
  have "\<forall>h ip. demo_ParseIP h = Some ip \<longrightarrow> length ip = 4 \<or> length ip = 16"
    by (simp add: demo_ParseIP_def mapped4_def)
  from destination_policy [OF this, of demo_SplitHost 1 0 0 0 0] obtain hook where
    "tp_Control (hc_Transport (request_client demo_SplitHost demo_ParseIP False 1)) = Some hook"
    "\<And>address. hook address = None \<longleftrightarrow>
       (\<exists>ip. demo_ParseIP address = Some ip \<and> \<not> internal_ip ip)"
    by (auto simp: demo_SplitHost_def)
  then show ?thesis
    using demo_addresses by (intro exI [of _ hook]) (simp add: demo_ParseIP_def)
qed

text \<open>
  \<open>http.assert_status\<close> accepts an interval. A configuration it accepts gives bounds within
  100 to 599; the node passes a response on unchanged exactly when its status lies within
  them and fails permanently otherwise. In particular a minimum alone does not accept a
  status of 600 or more.
\<close>

theorem status_interval:
  assumes "assert_status_newNode tt decode cfg = Inr (Some n)" "decode cfg = Inr c"
  shows "\<exists>low high. bounds c = Inr (low, high) \<and> 100 \<le> low \<and> low \<le> high \<and> high \<le> 599 \<and>
    (\<forall>resp w ec. \<exists>res. rn_Execute n w ec [NewValue tt (PResponse resp)] = Returns res \<and>
       (low \<le> sint (rs_Status resp) \<and> sint (rs_Status resp) \<le> high \<longrightarrow>
          rv_Err res = None \<and> rv_Value res = NewValue tt (PResponse resp)) \<and>
       (\<not> (low \<le> sint (rs_Status resp) \<and> sint (rs_Status resp) \<le> high) \<longrightarrow>
          (\<exists>e. rv_Err res = Some e \<and> err_Kind e = KindPermanent \<and> err_Code e = ''unexpected_status'')))"
  by (rule assert_status_node [OF assms])

theorem status_interval_witness:
  "\<exists>n :: unit RuntimeNode. \<exists>res e. assert_status_newNode domain_table dec_assert_status (WStatus at_least_200) = Inr (Some n) \<and>
     rn_Execute n () zero_context [NewValue domain_table (PResponse \<lparr>rs_Status = 999, rs_Headers = [], rs_Body = []\<rparr>)] = Returns res \<and>
     rv_Err res = Some e \<and> err_Code e = ''unexpected_status''"
proof -
  obtain n :: "unit RuntimeNode" where n: "assert_status_newNode domain_table dec_assert_status (WStatus at_least_200) = Inr (Some n)"
    using at_least_200_node by blast
  have d: "dec_assert_status (WStatus at_least_200) = Inr at_least_200" by (simp add: dec_assert_status_def)
  let ?resp = "\<lparr>rs_Status = 999, rs_Headers = [], rs_Body = []\<rparr> :: Response"
  from status_interval [OF n d] obtain low high where lh: "high \<le> 599"
    "\<forall>resp w zero_context. \<exists>res. rn_Execute n w zero_context [NewValue domain_table (PResponse resp)] = Returns res \<and>
       (\<not> (low \<le> sint (rs_Status resp) \<and> sint (rs_Status resp) \<le> high) \<longrightarrow>
          (\<exists>e. rv_Err res = Some e \<and> err_Kind e = KindPermanent \<and> err_Code e = ''unexpected_status''))"
    by blast
  have "\<not> sint (rs_Status ?resp) \<le> high" using lh(1) by simp
  with lh(2) n show ?thesis by blast
qed

end
